(* ===== verification/Prelude.thy ===== *)
theory Prelude
  imports Main "HOL-Library.List_Lexorder" "HOL-Library.Char_ord" "HOL-Library.Option_ord"
begin

text \<open>
  Shared material of the development: the collections of rewrite rules that the component
  theories extend, and generic facts on results, lists and sums that more than one component
  uses.  Nothing here is specific to the flash-sale program.
\<close>

section \<open>Collections\<close>

named_theorems go_defs \<open>definitions of the Go helpers, unfolded in evaluation proofs\<close>

named_theorems sql_defs \<open>definitions of the SQL statements, unfolded in evaluation proofs\<close>

named_theorems wf_intros \<open>introduction rules for well-formedness predicates\<close>

section \<open>Results\<close>

text \<open>
  A fallible operation returns \<open>Inl error\<close> or \<open>Inr value\<close>.
\<close>

definition is_ok :: "'e + 'a \<Rightarrow> bool" where
  "is_ok r = (case r of Inl _ \<Rightarrow> False | Inr _ \<Rightarrow> True)"

lemma is_ok_simps [simp]:
  "is_ok (Inr x)" "\<not> is_ok (Inl e)"
  by (simp_all add: is_ok_def)

lemma is_ok_iff: "is_ok r \<longleftrightarrow> (\<exists>x. r = Inr x)"
  by (cases r) auto

section \<open>Lists\<close>

lemma find_Some_iff_distinct:
  assumes "distinct (map f xs)"
  shows "find (\<lambda>x. f x = k) xs = Some y \<longleftrightarrow> y \<in> set xs \<and> f y = k"
  using assms by (induction xs) (auto simp: rev_image_eqI)

lemma find_map_update:
  assumes "\<And>x. f (g x) = f x"
  shows "find (\<lambda>x. f x = k) (map (\<lambda>x. if f x = j then g x else x) xs)
    = (if k = j then map_option g (find (\<lambda>x. f x = k) xs) else find (\<lambda>x. f x = k) xs)"
  using assms by (induction xs) auto

lemma find_None_notin: "find (\<lambda>x. f x = k) xs = None \<longleftrightarrow> k \<notin> f ` set xs"
  by (auto simp: find_None_iff)

lemma find_snoc:
  "find P (xs @ [y]) = (case find P xs of Some z \<Rightarrow> Some z | None \<Rightarrow> if P y then Some y else None)"
  by (induction xs) auto

lemma find_append:
  "find P (xs @ ys) = (case find P xs of Some z \<Rightarrow> Some z | None \<Rightarrow> find P ys)"
  by (induction xs) auto

lemma map_if_key:
  assumes "\<And>x. f (g x) = f x"
  shows "map f (map (\<lambda>x. if P x then g x else x) xs) = map f xs"
  using assms by (induction xs) auto

lemma sum_list_map_update_one:
  fixes w :: "'a \<Rightarrow> int"
  assumes "distinct (map f xs)" "y \<in> set xs" "f y = k"
  shows "sum_list (map w (map (\<lambda>x. if f x = k then g x else x) xs))
    = sum_list (map w xs) - w y + w (g y)"
  using assms
proof (induction xs)
  case Nil
  then show ?case by simp
next
  case (Cons x xs)
  show ?case
  proof (cases "f x = k")
    case True
    with Cons.prems have "x = y" and rest: "\<forall>z\<in>set xs. f z \<noteq> k"
      by (auto simp: rev_image_eqI)
    from rest have "map (\<lambda>x. if f x = k then g x else x) xs = xs"
      by (intro map_idI) auto
    with True \<open>x = y\<close> show ?thesis by simp
  next
    case False
    with Cons show ?thesis by auto
  qed
qed

lemma sum_list_map_filter_zero:
  fixes w :: "'a \<Rightarrow> int"
  assumes "\<And>x. x \<in> set xs \<Longrightarrow> \<not> P x \<Longrightarrow> w x = 0"
  shows "sum_list (map w (filter P xs)) = sum_list (map w xs)"
  using assms by (induction xs) auto

lemma sum_list_map_nonneg_int:
  fixes w :: "'a \<Rightarrow> int"
  assumes "\<And>x. x \<in> set xs \<Longrightarrow> 0 \<le> w x"
  shows "0 \<le> sum_list (map w xs)"
  using assms by (induction xs) auto

lemma member_le_sum_list_int:
  fixes w :: "'a \<Rightarrow> int"
  assumes "\<And>x. x \<in> set xs \<Longrightarrow> 0 \<le> w x" and "y \<in> set xs"
  shows "w y \<le> sum_list (map w xs)"
  using assms
proof (induction xs)
  case Nil
  then show ?case by simp
next
  case (Cons x xs)
  from Cons.prems(1) have "0 \<le> sum_list (map w xs)" by (intro sum_list_map_nonneg_int) auto
  moreover from Cons.prems(1) have "0 \<le> w x" by simp
  ultimately show ?case using Cons by force
qed

text \<open>The first \<open>n\<close> of a sorted selection: what is left out sorts after everything taken.\<close>

lemma take_sorted_rest:
  assumes "sorted (map f xs)" "x \<in> set (take n xs)" "y \<in> set xs" "y \<notin> set (take n xs)"
  shows "f x \<le> f y"
proof -
  have "y \<in> set (drop n xs)" using assms(3,4) by (metis append_take_drop_id set_append UnE)
  moreover have "sorted (map f (take n xs) @ map f (drop n xs))"
    using assms(1) by (metis append_take_drop_id map_append)
  ultimately show ?thesis using assms(2) by (auto simp: sorted_append)
qed

end
