(* ===== verification/GoLib.thy ===== *)
theory GoLib
  imports Prelude
begin

text \<open>
  The part of Go and of its standard library that the program uses: error values with their
  wrapping chain (\<open>errors.New\<close>, \<open>fmt.Errorf\<close> with \<open>%w\<close>, \<open>errors.Is\<close>, \<open>errors.As\<close> for
  \<open>*pq.Error\<close>), 64-bit signed integers with their wrap-around, and decimal text
  (\<open>strconv.FormatInt\<close>, \<open>strconv.Atoi\<close>, \<open>strconv.ParseInt\<close>).
\<close>

section \<open>Errors\<close>

text \<open>
  \<open>SentinelErr\<close> is a package-level \<open>errors.New\<close> value: such values are compared by identity, and
  here a sentinel is identified by its text, which differs between the sentinels of the program.
  \<open>PqErr\<close> is a \<open>*pq.Error\<close> with its SQLSTATE code, the response of a Postgres server that was
  reached.  \<open>PlainErr\<close> is any other leaf: a network, driver or context error.
  \<open>WrapErr pre e post\<close> is \<open>fmt.Errorf\<close> with \<open>%w\<close> between the two texts.
\<close>

datatype goerr =
    SentinelErr string
  | PqErr string
  | PlainErr string
  | WrapErr string goerr string

fun err_text :: "goerr \<Rightarrow> string" where
  "err_text (SentinelErr s) = s"
| "err_text (PqErr s) = ''pq: '' @ s"
| "err_text (PlainErr s) = s"
| "err_text (WrapErr pre e post) = pre @ err_text e @ post"

text \<open>\<open>errors.Is\<close> walks the chain of wrapped errors looking for the target itself.\<close>

fun errors_is :: "goerr \<Rightarrow> goerr \<Rightarrow> bool" where
  "errors_is (WrapErr pre e post) t = (WrapErr pre e post = t \<or> errors_is e t)"
| "errors_is e t = (e = t)"

text \<open>\<open>errors.As\<close> with a \<open>*pq.Error\<close> target walks the chain looking for such a value.\<close>

fun errors_as_pq :: "goerr \<Rightarrow> string option" where
  "errors_as_pq (PqErr c) = Some c"
| "errors_as_pq (WrapErr pre e post) = errors_as_pq e"
| "errors_as_pq _ = None"

abbreviation wrap_err :: "string \<Rightarrow> goerr \<Rightarrow> goerr" where
  "wrap_err pre e \<equiv> WrapErr pre e []"

definition ErrNoRows :: goerr where
  "ErrNoRows = SentinelErr ''sql: no rows in result set''"

definition ErrCanceled :: goerr where
  "ErrCanceled = SentinelErr ''context canceled''"

lemma errors_is_sentinel_leaf [simp]:
  "errors_is (SentinelErr a) (SentinelErr b) \<longleftrightarrow> a = b"
  "\<not> errors_is (PqErr a) (SentinelErr b)"
  "\<not> errors_is (PlainErr a) (SentinelErr b)"
  "errors_is (WrapErr pre e post) (SentinelErr b) \<longleftrightarrow> errors_is e (SentinelErr b)"
  by simp_all

lemma errors_is_self [simp]: "errors_is e e"
  by (cases e) auto

lemma errors_as_pq_not_sentinel:
  "errors_as_pq e = Some c \<Longrightarrow> \<not> errors_is e (SentinelErr s)"
  by (induction e) auto

text \<open>
  The run-time panics the program's configuration can cause: an integer division by zero, a ticker with
  a period that is not positive, a channel of negative capacity.
\<close>

datatype go_panic = DivideByZero | NonPositiveTicker | MakeChanSize

section \<open>64-bit integers\<close>

text \<open>
  Go's \<open>int\<close>, \<open>int64\<close> and \<open>time.Duration\<close> are 64-bit two's complement and wrap silently.  The
  model keeps them as \<open>int\<close> and writes the wrap-around out where a result can leave the range.
\<close>

definition int64_min :: int where "int64_min = - (2 ^ 63)"

definition int64_max :: int where "int64_max = 2 ^ 63 - 1"

definition int64 :: "int \<Rightarrow> bool" where
  "int64 n \<longleftrightarrow> int64_min \<le> n \<and> n \<le> int64_max"

definition wrap64 :: "int \<Rightarrow> int" where
  "wrap64 n = (n + 2 ^ 63) mod 2 ^ 64 - 2 ^ 63"

lemma wrap64_id: "int64 n \<Longrightarrow> wrap64 n = n"
  by (simp add: wrap64_def int64_def int64_min_def int64_max_def)

lemma wrap64_range: "int64 (wrap64 n)"
proof -
  have "0 \<le> (n + 2 ^ 63) mod 2 ^ 64" "(n + 2 ^ 63) mod 2 ^ 64 < (2 ^ 64 :: int)"
    by simp_all
  then show ?thesis by (simp add: wrap64_def int64_def int64_min_def int64_max_def)
qed

section \<open>Decimal text\<close>

definition digit_char :: "nat \<Rightarrow> char" where
  "digit_char d = char_of (48 + d)"

definition is_digit :: "char \<Rightarrow> bool" where
  "is_digit c \<longleftrightarrow> 48 \<le> (of_char c :: nat) \<and> (of_char c :: nat) \<le> 57"

definition digit_val :: "char \<Rightarrow> nat" where
  "digit_val c = of_char c - 48"

fun nat_text :: "nat \<Rightarrow> string" where
  "nat_text n = (if n < 10 then [digit_char n] else nat_text (n div 10) @ [digit_char (n mod 10)])"

declare nat_text.simps [simp del]

text \<open>The decimal form of an integer, as \<open>strconv.FormatInt(n, 10)\<close> and \<open>%d\<close> print it.\<close>

definition int_text :: "int \<Rightarrow> string" where
  "int_text n = (if n < 0 then CHR ''-'' # nat_text (nat (- n)) else nat_text (nat n))"

fun read_digits :: "nat \<Rightarrow> string \<Rightarrow> nat option" where
  "read_digits acc [] = Some acc"
| "read_digits acc (c # cs) =
     (if is_digit c then read_digits (10 * acc + digit_val c) cs else None)"

text \<open>
  \<open>strconv.ParseInt(s, 10, 64)\<close>, which \<open>strconv.Atoi\<close> agrees with on a 64-bit platform: an
  optional sign, at least one digit, only digits, and a value in range.
\<close>

definition parse_int64 :: "string \<Rightarrow> int option" where
  "parse_int64 s =
     (let (neg, ds) = (case s of [] \<Rightarrow> (False, [])
                       | c # cs \<Rightarrow> if c = CHR ''-'' then (True, cs)
                                   else if c = CHR ''+'' then (False, cs)
                                   else (False, s))
      in if ds = [] then None
         else case read_digits 0 ds of
             None \<Rightarrow> None
           | Some n \<Rightarrow> (let v = (if neg then - int n else int n)
                       in if int64 v then Some v else None))"

lemma is_digit_digit_char: "d < 10 \<Longrightarrow> is_digit (digit_char d)"
  by (simp add: is_digit_def digit_char_def)

lemma digit_val_digit_char: "d < 10 \<Longrightarrow> digit_val (digit_char d) = d"
  by (simp add: digit_val_def digit_char_def)

lemma digit_char_not_sign:
  "d < 10 \<Longrightarrow> digit_char d \<noteq> CHR ''-'' \<and> digit_char d \<noteq> CHR ''+'' \<and> digit_char d \<noteq> CHR '':''"
  by (auto simp: digit_char_def dest!: arg_cong [where f = "of_char :: char \<Rightarrow> nat"])

lemma nat_text_nonempty [simp]: "nat_text n \<noteq> []"
  by (subst nat_text.simps) simp

lemma nat_text_digits: "c \<in> set (nat_text n) \<Longrightarrow> is_digit c"
proof (induction n rule: nat_text.induct)
  case (1 n)
  then show ?case
    by (subst (asm) nat_text.simps) (auto simp: is_digit_digit_char split: if_splits)
qed

lemma read_digits_append:
  "read_digits acc (xs @ [c]) =
     (case read_digits acc xs of None \<Rightarrow> None
      | Some v \<Rightarrow> if is_digit c then Some (10 * v + digit_val c) else None)"
  by (induction xs arbitrary: acc) auto

lemma read_digits_nat_text: "read_digits 0 (nat_text n) = Some n"
proof (induction n rule: nat_text.induct)
  case (1 n)
  show ?case
  proof (cases "n < 10")
    case True
    then show ?thesis
      by (subst nat_text.simps) (simp add: is_digit_digit_char digit_val_digit_char)
  next
    case False
    with 1 have "read_digits 0 (nat_text (n div 10)) = Some (n div 10)" by simp
    with False show ?thesis
      by (subst nat_text.simps)
        (simp add: read_digits_append is_digit_digit_char digit_val_digit_char)
  qed
qed

lemma digit_not_sign: "is_digit c \<Longrightarrow> c \<noteq> CHR ''-'' \<and> c \<noteq> CHR ''+'' \<and> c \<noteq> CHR '':''"
  by (auto simp: is_digit_def)

lemma nat_text_head: "nat_text n = c # cs \<Longrightarrow> c \<noteq> CHR ''-'' \<and> c \<noteq> CHR ''+''"
  using nat_text_digits [of c n] digit_not_sign [of c] by auto

lemma parse_int64_int_text: "int64 n \<Longrightarrow> parse_int64 (int_text n) = Some n"
proof (cases "n < 0")
  case True
  assume "int64 n"
  with True show ?thesis
    by (simp add: int_text_def parse_int64_def read_digits_nat_text)
next
  case False
  assume "int64 n"
  obtain c cs where "nat_text (nat n) = c # cs"
    using nat_text_nonempty [of "nat n"] by (cases "nat_text (nat n)") auto
  moreover from this have "c \<noteq> CHR ''-''" "c \<noteq> CHR ''+''"
    using nat_text_head by blast+
  ultimately show ?thesis
    using False \<open>int64 n\<close> read_digits_nat_text [of "nat n"]
    by (simp add: int_text_def parse_int64_def)
qed

lemma int_text_inj: "int64 m \<Longrightarrow> int64 n \<Longrightarrow> int_text m = int_text n \<Longrightarrow> m = n"
  using parse_int64_int_text by (metis option.inject)

section \<open>Text of durations and instants\<close>

text \<open>\<open>Duration.String\<close>: hours, minutes and seconds, or one sub-second unit, with a trimmed fraction.\<close>

fun pad_text :: "nat \<Rightarrow> nat \<Rightarrow> string" where
  "pad_text 0 n = []"
| "pad_text (Suc k) n = pad_text k (n div 10) @ [digit_char (n mod 10)]"

lemma pad_text_numeral [simp]:
  "pad_text (numeral k) n = pad_text (pred_numeral k) (n div 10) @ [digit_char (n mod 10)]"
  by (simp only: numeral_eq_Suc [of k] pad_text.simps)

definition frac_text :: "nat \<Rightarrow> nat \<Rightarrow> string" where
  "frac_text k n = (let ds = rev (dropWhile (\<lambda>c. c = CHR ''0'') (rev (pad_text k n)))
     in if ds = [] then [] else CHR ''.'' # ds)"

definition duration_text :: "int \<Rightarrow> string" where
  "duration_text d =
     (let u = nat \<bar>d\<bar>; secs = u div 10 ^ 9; sign = (if d < 0 then ''-'' else [])
      in if u = 0 then ''0s''
         else if u < 10 ^ 3 then sign @ nat_text u @ ''ns''
         else if u < 10 ^ 6 then sign @ nat_text (u div 10 ^ 3) @ frac_text 3 (u mod 10 ^ 3) @ [CHR 0xC2, CHR 0xB5] @ ''s''
         else if u < 10 ^ 9 then sign @ nat_text (u div 10 ^ 6) @ frac_text 6 (u mod 10 ^ 6) @ ''ms''
         else sign
           @ (if secs < 3600 then [] else nat_text (secs div 3600) @ ''h'')
           @ (if secs < 60 then [] else nat_text (secs div 60 mod 60) @ ''m'')
           @ nat_text (secs mod 60) @ frac_text 9 (u mod 10 ^ 9) @ ''s'')"

text \<open>
  \<open>Format(time.RFC3339)\<close> of an instant in UTC, given in nanoseconds since 1970, for the years 0 to
  9999.  The date is counted in days from a first of March, so that leap days come last: 400 years, then
  centuries, cycles of four years and years, the last of each a day longer or shorter.
\<close>

definition civil_date :: "int \<Rightarrow> int \<times> int \<times> int" where
  "civil_date day =
     (let z = day + 719468; era = z div 146097; doe = z mod 146097;
          century = min 3 (doe div 36524); doc = doe - 36524 * century;
          cycle = doc div 1461; doq = doc mod 1461;
          year = min 3 (doq div 365); doy = doq - 365 * year;
          yoe = 100 * century + 4 * cycle + year;
          mp = (5 * doy + 2) div 153;
          m = (if mp < 10 then mp + 3 else mp - 9)
      in (yoe + 400 * era + (if m \<le> 2 then 1 else 0), m, doy - (153 * mp + 2) div 5 + 1))"

definition rfc3339 :: "int \<Rightarrow> string" where
  "rfc3339 t =
     (let secs = t div 10 ^ 9; (y, m, d) = civil_date (secs div 86400); s = nat (secs mod 86400)
      in pad_text 4 (nat y) @ ''-'' @ pad_text 2 (nat m) @ ''-'' @ pad_text 2 (nat d) @ ''T''
         @ pad_text 2 (s div 3600) @ '':'' @ pad_text 2 (s div 60 mod 60) @ '':'' @ pad_text 2 (s mod 60) @ ''Z'')"

end
