(* ===== verification/Retry.thy ===== *)
theory Retry
  imports GoLib
begin

text \<open>
  Package \<open>internal/retry\<close> (\<open>policy.go\<close>): the retry budget and the exponential backoff that
  decision-service paces itself with.  Durations are \<open>int64\<close> nanoseconds, so the doubling in
  \<open>NextBackoff\<close> is written with its wrap-around.  The lemmas give the closed form of the loop,
  its bounds and its monotonicity for every policy whose durations stay below 146 years, and
  the locale \<open>retry_budget\<close> states what a consumer may rely on in a bounded budget.
\<close>

section \<open>Durations\<close>

definition Nanosecond :: int where "Nanosecond = 1"

definition Millisecond :: int where "Millisecond = 1000000 * Nanosecond"

definition Second :: int where "Second = 1000 * Millisecond"

definition Minute :: int where "Minute = 60 * Second"

lemmas duration_defs = Nanosecond_def Millisecond_def Second_def Minute_def

section \<open>Policy\<close>

record policy =
  MaxAttempts :: int
  MaxElapsed :: int
  BaseBackoff :: int
  MaxBackoff :: int

definition DefaultPolicy :: policy where
  "DefaultPolicy =
     \<lparr> MaxAttempts = 5, MaxElapsed = 2 * Minute, BaseBackoff = Second, MaxBackoff = 30 * Second \<rparr>"

definition ShouldRetry :: "policy \<Rightarrow> int \<Rightarrow> int \<Rightarrow> bool" where
  "ShouldRetry p attemptCount elapsed =
     (if MaxAttempts p > 0 \<and> attemptCount \<ge> MaxAttempts p then False
      else if MaxElapsed p > 0 \<and> elapsed \<ge> MaxElapsed p then False
      else True)"

text \<open>
  The loop of \<open>NextBackoff\<close>: \<open>i\<close> counts from 1 to \<open>attemptCount\<close>, each turn doubles the backoff
  and leaves at once when the cap is reached; the test after the loop is its last branch.
\<close>

function backoff_loop :: "int \<Rightarrow> int \<Rightarrow> int \<Rightarrow> int \<Rightarrow> int" where
  "backoff_loop maxBackoff attemptCount i backoff =
     (if i < attemptCount then
        (let backoff' = wrap64 (backoff * 2)
         in if backoff' \<ge> maxBackoff then maxBackoff
            else backoff_loop maxBackoff attemptCount (i + 1) backoff')
      else if backoff > maxBackoff then maxBackoff
      else backoff)"
  by pat_completeness auto
termination
  by (relation "measure (\<lambda>(m, n, i, b). nat (n - i))") auto

declare backoff_loop.simps [simp del]

definition base_of :: "policy \<Rightarrow> int" where
  "base_of p = (if BaseBackoff p \<le> 0 then Second else BaseBackoff p)"

definition cap_of :: "policy \<Rightarrow> int" where
  "cap_of p = (if MaxBackoff p \<le> 0 then 30 * Second else MaxBackoff p)"

definition NextBackoff :: "policy \<Rightarrow> int \<Rightarrow> int" where
  "NextBackoff p attemptCount = backoff_loop (cap_of p) attemptCount 1 (base_of p)"

section \<open>The loop in closed form\<close>

text \<open>
  Below \<open>2^62\<close> nanoseconds (146 years) the doubling cannot leave the range of \<open>int64\<close>.
\<close>

definition sane_policy :: "policy \<Rightarrow> bool" where
  "sane_policy p \<longleftrightarrow> base_of p < 2 ^ 62 \<and> cap_of p \<le> 2 ^ 62"

lemma base_of_pos: "0 < base_of p"
  by (simp add: base_of_def duration_defs)

lemma cap_of_pos: "0 < cap_of p"
  by (simp add: cap_of_def duration_defs)

lemma wrap64_double: "0 < b \<Longrightarrow> b < 2 ^ 62 \<Longrightarrow> wrap64 (b * 2) = b * 2"
  by (rule wrap64_id) (simp add: int64_def int64_min_def int64_max_def)

lemma min_double_power:
  fixes b m :: int
  assumes "0 < b" "b * 2 \<ge> m"
  shows "min (b * 2 ^ Suc n) m = m"
proof -
  have "b * 2 * 1 \<le> b * 2 * 2 ^ n" using assms(1) by (intro mult_left_mono) auto
  with assms(2) show ?thesis by (simp add: algebra_simps)
qed

lemma backoff_loop_closed:
  assumes "0 < b" "b < 2 ^ 62" "m \<le> 2 ^ 62"
  shows "backoff_loop m n i b = min (b * 2 ^ nat (n - i)) m"
  using assms
proof (induction m n i b rule: backoff_loop.induct)
  case (1 m n i b)
  show ?case
  proof (cases "i < n")
    case True
    define k where "k = nat (n - (i + 1))"
    with True have k: "nat (n - i) = Suc k" "nat (n - (i + 1)) = k" by simp_all
    have w: "wrap64 (b * 2) = b * 2" using "1.prems" by (intro wrap64_double)
    show ?thesis
    proof (cases "b * 2 \<ge> m")
      case True
      with \<open>i < n\<close> w k min_double_power [of b m k] "1.prems" show ?thesis
        by (subst backoff_loop.simps) (simp add: Let_def)
    next
      case False
      with "1.IH" [OF \<open>i < n\<close> refl] w "1.prems"
      have "backoff_loop m n (i + 1) (b * 2) = min (b * 2 * 2 ^ k) m" by (simp add: k)
      with False \<open>i < n\<close> w k show ?thesis
        by (subst backoff_loop.simps) (simp add: Let_def mult.assoc)
    qed
  next
    case False
    then show ?thesis by (subst backoff_loop.simps) auto
  qed
qed

lemma NextBackoff_closed:
  assumes "sane_policy p"
  shows "NextBackoff p n = min (base_of p * 2 ^ nat (n - 1)) (cap_of p)"
  using assms by (simp add: NextBackoff_def sane_policy_def backoff_loop_closed base_of_pos)

lemma NextBackoff_pos: "sane_policy p \<Longrightarrow> 0 < NextBackoff p n"
  by (simp add: NextBackoff_closed base_of_pos cap_of_pos)

lemma sane_DefaultPolicy: "sane_policy DefaultPolicy"
  by (simp add: sane_policy_def base_of_def cap_of_def DefaultPolicy_def duration_defs)

section \<open>Properties\<close>

text \<open>
  C36.  For every policy whose durations stay below 146 years, the doubling loop of \<open>NextBackoff\<close>
  computes the base doubled once per attempt after the first and capped: no attempt number makes
  it overflow, the result is positive, never above the cap, and never shorter than the backoff
  of the attempt before.
\<close>

theorem NextBackoff_capped_exponential:
  assumes "sane_policy p"
  shows "NextBackoff p n = min (base_of p * 2 ^ nat (n - 1)) (cap_of p)
    \<and> 0 < NextBackoff p n \<and> NextBackoff p n \<le> cap_of p
    \<and> NextBackoff p n \<le> NextBackoff p (n + 1)"
proof -
  have "base_of p * 2 ^ nat (n - 1) \<le> base_of p * 2 ^ nat (n + 1 - 1)"
    using base_of_pos [of p] by (intro mult_left_mono power_increasing) auto
  then have "NextBackoff p n \<le> NextBackoff p (n + 1)"
    using assms by (simp add: NextBackoff_closed min_def)
  then show ?thesis using assms NextBackoff_pos [of p n] by (simp add: NextBackoff_closed)
qed

theorem NextBackoff_capped_exponential_witness:
  "sane_policy DefaultPolicy \<and> NextBackoff DefaultPolicy 3 = 4 * Second
   \<and> NextBackoff DefaultPolicy 3 \<le> NextBackoff DefaultPolicy (3 + 1)"
  using NextBackoff_capped_exponential [OF sane_DefaultPolicy, of 3] sane_DefaultPolicy
  by (simp add: base_of_def cap_of_def DefaultPolicy_def duration_defs)

section \<open>What a consumer relies on\<close>

text \<open>
  The interface between the retry policy and the loop that spends it: \<open>allows\<close> decides whether
  attempt number \<open>n\<close> may be followed by another one after some elapsed time, \<open>pause\<close> is the sleep
  before it.  A budget is bounded: from the limit on nothing is allowed, whatever the elapsed
  time, and once it has been refused at a count it stays refused at every later one.
\<close>

locale retry_budget =
  fixes allows :: "int \<Rightarrow> int \<Rightarrow> bool"
    and pause :: "int \<Rightarrow> int"
    and limit :: int
  assumes limit_pos: "0 < limit"
    and exhausted: "limit \<le> n \<Longrightarrow> \<not> allows n t"
    and closed: "m \<le> n \<Longrightarrow> s \<le> t \<Longrightarrow> allows n t \<Longrightarrow> allows m s"
    and pause_pos: "0 < pause n"
begin

lemma allowed_below_limit: "allows n t \<Longrightarrow> n < limit"
  using exhausted by (meson not_le)

lemma refused_stays: "\<not> allows m s \<Longrightarrow> m \<le> n \<Longrightarrow> s \<le> t \<Longrightarrow> \<not> allows n t"
  using closed by blast

end

lemma ShouldRetry_iff:
  "ShouldRetry p n t \<longleftrightarrow> (MaxAttempts p > 0 \<longrightarrow> n < MaxAttempts p) \<and> (MaxElapsed p > 0 \<longrightarrow> t < MaxElapsed p)"
  by (auto simp: ShouldRetry_def)

lemma retry_budget_policy:
  assumes "0 < MaxAttempts p" "sane_policy p"
  shows "retry_budget (ShouldRetry p) (NextBackoff p) (MaxAttempts p)"
  using assms by unfold_locales (auto simp: ShouldRetry_iff NextBackoff_pos)

interpretation default_budget: retry_budget "ShouldRetry DefaultPolicy" "NextBackoff DefaultPolicy" 5
  using retry_budget_policy [of DefaultPolicy] sane_DefaultPolicy by (simp add: DefaultPolicy_def)

end
