(* ===== verification/Httpx.thy ===== *)
theory Httpx
  imports Main
begin

text \<open>
  \<open>internal/httpx/json.go\<close>: the JSON responses every handler writes, as a status and a body, and the
  part of \<open>net/http\<close>'s routing the servers use: a method, and a path as its segments.
\<close>

datatype 'b payload = ErrorResponse string | Payload 'b

record 'b response =
  resp_status :: int
  resp_content_type :: string
  resp_body :: "'b payload"

definition WriteJSON :: "int \<Rightarrow> 'b payload \<Rightarrow> 'b response" where
  "WriteJSON st v = \<lparr> resp_status = st, resp_content_type = ''application/json'', resp_body = v \<rparr>"

definition WriteError :: "int \<Rightarrow> string \<Rightarrow> 'b response" where
  "WriteError st message = WriteJSON st (ErrorResponse message)"

lemma WriteJSON_sel [simp]:
  "resp_status (WriteJSON st v) = st" "resp_body (WriteJSON st v) = v"
  "resp_status (WriteError st m) = st" "resp_body (WriteError st m) = ErrorResponse m"
  by (simp_all add: WriteJSON_def WriteError_def)

definition StatusOK :: int where "StatusOK = 200"
definition StatusBadRequest :: int where "StatusBadRequest = 400"
definition StatusForbidden :: int where "StatusForbidden = 403"
definition StatusNotFound :: int where "StatusNotFound = 404"
definition StatusMethodNotAllowed :: int where "StatusMethodNotAllowed = 405"
definition StatusConflict :: int where "StatusConflict = 409"
definition StatusInternalServerError :: int where "StatusInternalServerError = 500"
definition StatusServiceUnavailable :: int where "StatusServiceUnavailable = 503"

lemmas status_defs =
  StatusOK_def StatusBadRequest_def StatusForbidden_def StatusNotFound_def StatusMethodNotAllowed_def
  StatusConflict_def StatusInternalServerError_def StatusServiceUnavailable_def

end
