(* ===== verification/Server.thy ===== *)
theory Server
  imports EnvConfig Httpx
begin

text \<open>
  What every \<open>main\<close> of \<open>cmd/\<close> does around its own work: start an HTTP server in a goroutine, shut it
  down under a deadline, and run the deferred calls on the way out.  A server keeps the requests in
  flight; \<open>Shutdown\<close> refuses new ones at once and returns without error only when none is left.  A
  process is a function from events to the next state, if it has one, and \<open>run_events\<close> folds it over a
  list of events, one possible interleaving of its goroutines.
\<close>

section \<open>Runs\<close>

fun run_events :: "('e \<Rightarrow> 's \<Rightarrow> 's option) \<Rightarrow> 'e list \<Rightarrow> 's \<Rightarrow> 's option" where
  "run_events step [] s = Some s"
| "run_events step (ev # evs) s = (case step ev s of None \<Rightarrow> None | Some s' \<Rightarrow> run_events step evs s')"

lemma run_events_append:
  "run_events step (xs @ ys) s = Option.bind (run_events step xs s) (run_events step ys)"
  by (induction xs arbitrary: s) (auto split: option.split)

text \<open>An invariant of the steps is one of the runs; the steps may use that their event occurs.\<close>

lemma run_events_invariant:
  assumes "run_events step evs s = Some s'" "I s"
    and "\<And>ev q q'. ev \<in> set evs \<Longrightarrow> step ev q = Some q' \<Longrightarrow> I q \<Longrightarrow> I q'"
  shows "I s'"
  using assms
proof (induction evs arbitrary: s)
  case Nil
  then show ?case by simp
next
  case (Cons ev evs)
  then obtain s1 where s1: "step ev s = Some s1" "run_events step evs s1 = Some s'"
    by (auto split: option.splits)
  have "I s1" using Cons.prems(3) [OF _ s1(1) Cons.prems(2)] by simp
  from Cons.IH [OF s1(2) this] Cons.prems(3) show ?case by auto
qed

section \<open>Deferred calls\<close>

text \<open>
  What a \<open>main\<close> opens and closes with a deferred call, the last opened first.  \<open>log.Fatalf\<close> and a panic
  in another goroutine end the process without them.
\<close>

datatype resource =
    SignalContext
  | RedisClient
  | Database
  | KafkaWriter
  | KafkaReader
  | DlqWriter
  | ShutdownTimer

text \<open>The status a process ends with: 0 after \<open>main\<close> returned, 1 after \<open>log.Fatalf\<close>, 2 after a panic.\<close>

type_synonym exit_status = nat

section \<open>http.Server\<close>

text \<open>The serving goroutine has not called \<open>Listen\<close> yet, accepts connections, or has returned.\<close>

datatype serving = ServeStarting | Serving | ServeReturned

record 'q http_server =
  serving :: serving
  shutdown_called :: bool
  in_flight :: "'q list"

definition new_http_server :: "'q http_server" where
  "new_http_server = \<lparr> serving = ServeStarting, shutdown_called = False, in_flight = [] \<rparr>"

definition ErrServerClosed :: goerr where
  "ErrServerClosed = SentinelErr ''http: Server closed''"

text \<open>
  The calling goroutine's part of \<open>ListenAndServe\<close>: it fails at once after \<open>Shutdown\<close>, or with the error
  of binding the address, or starts to accept.
\<close>

definition listen :: "goerr option \<Rightarrow> 'q http_server \<Rightarrow> goerr option \<times> 'q http_server" where
  "listen bind s =
     (if shutdown_called s then (Some ErrServerClosed, s\<lparr>serving := ServeReturned\<rparr>)
      else (case bind of
              Some e \<Rightarrow> (Some e, s\<lparr>serving := ServeReturned\<rparr>)
            | None \<Rightarrow> (None, s\<lparr>serving := Serving\<rparr>)))"

text \<open>Once serving, \<open>ListenAndServe\<close> returns \<open>ErrServerClosed\<close> after \<open>Shutdown\<close>, and another error otherwise.\<close>

definition serve_returns :: "goerr \<Rightarrow> 'q http_server \<Rightarrow> 'q http_server option" where
  "serve_returns e s =
     (if serving s = Serving \<and> (shutdown_called s \<longleftrightarrow> errors_is e ErrServerClosed)
      then Some (s\<lparr>serving := ServeReturned\<rparr>) else None)"

definition accept_request :: "'q \<Rightarrow> 'q http_server \<Rightarrow> 'q http_server option" where
  "accept_request q s =
     (if serving s = Serving \<and> \<not> shutdown_called s then Some (s\<lparr>in_flight := in_flight s @ [q]\<rparr>) else None)"

definition finish_request :: "'q \<Rightarrow> 'q http_server \<Rightarrow> 'q http_server option" where
  "finish_request q s =
     (if q \<in> set (in_flight s) then Some (s\<lparr>in_flight := remove1 q (in_flight s)\<rparr>) else None)"

text \<open>\<open>Shutdown(ctx)\<close>: the call, and its return, early only with the error of the deadline.\<close>

definition call_shutdown :: "'q http_server \<Rightarrow> 'q http_server" where
  "call_shutdown s = s\<lparr>shutdown_called := True\<rparr>"

definition shutdown_may_return :: "goerr option \<Rightarrow> 'q http_server \<Rightarrow> bool" where
  "shutdown_may_return r s \<longleftrightarrow> shutdown_called s \<and> (r = None \<longrightarrow> in_flight s = [])"

section \<open>Health endpoints\<close>

text \<open>\<open>map[string]string\<close> as the pairs of its keys and values, and the route \<open>GET /healthz\<close> alone.\<close>

type_synonym health_response = "(string \<times> string) list response"

definition health :: "string \<Rightarrow> health_response" where
  "health service = WriteJSON StatusOK (Payload [(''status'', ''ok''), (''service'', service)])"

definition health_route :: "string \<Rightarrow> string list \<Rightarrow> int + unit" where
  "health_route meth path =
     (if path \<noteq> [''healthz''] then Inl StatusNotFound
      else if meth = ''GET'' \<or> meth = ''HEAD'' then Inr ()
      else Inl StatusMethodNotAllowed)"

text \<open>A request to a health server, and its response or the status of the router's own.\<close>

type_synonym health_request = "string \<times> string list"

definition serve_health :: "string \<Rightarrow> health_request \<Rightarrow> int + health_response" where
  "serve_health service q = (case health_route (fst q) (snd q) of Inl st \<Rightarrow> Inl st | Inr u \<Rightarrow> Inr (health service))"

text \<open>
  The health server beside a service's own loop, with the answers it gave.  An error of \<open>ListenAndServe\<close> is
  only logged there.
\<close>

record health_server =
  hs_http :: "health_request http_server"
  hs_answers :: "(health_request \<times> (int + health_response)) list"

definition new_health_server :: health_server where
  "new_health_server = \<lparr> hs_http = new_http_server, hs_answers = [] \<rparr>"

datatype health_event =
    HealthListens "goerr option"
  | HealthReturns goerr
  | HealthArrives health_request
  | HealthAnswers health_request

fun health_next :: "(health_request \<Rightarrow> int + health_response) \<Rightarrow> health_event \<Rightarrow> health_server \<Rightarrow> health_server option" where
  "health_next handler (HealthListens er) h =
     (if serving (hs_http h) = ServeStarting then Some (h\<lparr>hs_http := snd (listen er (hs_http h))\<rparr>) else None)"
| "health_next handler (HealthReturns err) h =
     (case serve_returns err (hs_http h) of None \<Rightarrow> None | Some s \<Rightarrow> Some (h\<lparr>hs_http := s\<rparr>))"
| "health_next handler (HealthArrives q) h =
     (case accept_request q (hs_http h) of None \<Rightarrow> None | Some s \<Rightarrow> Some (h\<lparr>hs_http := s\<rparr>))"
| "health_next handler (HealthAnswers q) h =
     (case finish_request q (hs_http h) of
        None \<Rightarrow> None
      | Some s \<Rightarrow> Some (h\<lparr>hs_http := s, hs_answers := hs_answers h @ [(q, handler q)]\<rparr>))"

definition shutdown_health :: "health_server \<Rightarrow> health_server" where
  "shutdown_health h = h\<lparr>hs_http := call_shutdown (hs_http h)\<rparr>"

lemmas server_defs =
  listen_def serve_returns_def accept_request_def finish_request_def call_shutdown_def shutdown_may_return_def

end
