(* ===== verification/Uuid.thy ===== *)
theory Uuid
  imports GoLib "HOL-Library.Word"
begin

text \<open>
  Values of the column type \<open>UUID\<close> and the interface to the server's text conversion.  A UUID is a
  128-bit value; how Postgres reads one from a statement argument and prints one into a result is
  the server's code, so it is a parameter of the model (\<open>pg_server\<close>) with the documented law that
  what it prints it reads back (\<open>uuid_io\<close>).  The instance \<open>canonical_server\<close> is the canonical
  8-4-4-4-12 form.
\<close>

type_synonym uuid = "128 word"

text \<open>
  What the program relies on of the server beside SQL itself: reading and printing a UUID, and
  the conversion of an instant to the resolution of \<open>TIMESTAMPTZ\<close>.
\<close>

record pg_server =
  uuid_in :: "string \<Rightarrow> uuid option"
  uuid_out :: "uuid \<Rightarrow> string"
  timestamptz_in :: "int \<Rightarrow> int"

locale uuid_io =
  fixes S :: pg_server
  assumes uuid_in_out: "uuid_in S (uuid_out S u) = Some u"
begin

lemma uuid_out_inj: "uuid_out S u = uuid_out S v \<Longrightarrow> u = v"
  using uuid_in_out by (metis option.inject)

lemma uuid_out_eq_iff [simp]: "uuid_out S u = uuid_out S v \<longleftrightarrow> u = v"
  using uuid_out_inj by blast

lemma uuid_in_map_out [simp]: "map (uuid_in S) (map (uuid_out S) us) = map Some us"
  by (simp add: uuid_in_out comp_def)

end

section \<open>The canonical form\<close>

definition hex_char :: "nat \<Rightarrow> char" where
  "hex_char d = (if d < 10 then char_of (48 + d) else char_of (87 + d))"

definition hex_val :: "char \<Rightarrow> nat option" where
  "hex_val c = (let n = of_char c :: nat in
     if 48 \<le> n \<and> n \<le> 57 then Some (n - 48)
     else if 97 \<le> n \<and> n \<le> 102 then Some (n - 87)
     else if 65 \<le> n \<and> n \<le> 70 then Some (n - 55)
     else None)"

fun hex_text :: "nat \<Rightarrow> nat \<Rightarrow> string" where
  "hex_text 0 n = []"
| "hex_text (Suc k) n = hex_text k (n div 16) @ [hex_char (n mod 16)]"

fun read_hex :: "nat \<Rightarrow> string \<Rightarrow> nat option" where
  "read_hex acc [] = Some acc"
| "read_hex acc (c # cs) =
     (case hex_val c of None \<Rightarrow> None | Some d \<Rightarrow> read_hex (16 * acc + d) cs)"

definition hyphenate :: "string \<Rightarrow> string" where
  "hyphenate h = take 8 h @ CHR ''-'' # take 4 (drop 8 h) @ CHR ''-'' # take 4 (drop 12 h)
     @ CHR ''-'' # take 4 (drop 16 h) @ CHR ''-'' # drop 20 h"

definition canonical_out :: "uuid \<Rightarrow> string" where
  "canonical_out u = hyphenate (hex_text 32 (unat u))"

definition canonical_in :: "string \<Rightarrow> uuid option" where
  "canonical_in s = (let h = filter (\<lambda>c. c \<noteq> CHR ''-'') s in
     if length h = 32 \<and> s = hyphenate h then map_option of_nat (read_hex 0 h) else None)"

definition canonical_server :: pg_server where
  "canonical_server =
     \<lparr> uuid_in = canonical_in, uuid_out = canonical_out, timestamptz_in = (\<lambda>t. (t div 1000) * 1000) \<rparr>"

lemma hex_val_char: "d < 16 \<Longrightarrow> hex_val (hex_char d) = Some d"
  by (simp add: hex_val_def hex_char_def Let_def)

lemma hex_char_not_hyphen: "d < 16 \<Longrightarrow> CHR ''-'' \<noteq> hex_char d"
  by (auto simp: hex_char_def dest!: arg_cong [where f = "of_char :: char \<Rightarrow> nat"] split: if_splits)

lemma length_hex_text [simp]: "length (hex_text k n) = k"
  by (induction k arbitrary: n) auto

lemma hex_text_not_hyphen: "c \<in> set (hex_text k n) \<Longrightarrow> c \<noteq> CHR ''-''"
  using hex_char_not_hyphen [of "n mod 16" for n] by (induction k arbitrary: n) auto

lemma read_hex_append:
  "read_hex acc (xs @ [c]) = (case read_hex acc xs of None \<Rightarrow> None
     | Some v \<Rightarrow> (case hex_val c of None \<Rightarrow> None | Some d \<Rightarrow> Some (16 * v + d)))"
  by (induction xs arbitrary: acc) (auto split: option.splits)

lemma read_hex_text: "read_hex 0 (hex_text k n) = Some (n mod 16 ^ k)"
proof (induction k arbitrary: n)
  case 0
  then show ?case by simp
next
  case (Suc k)
  have "16 * (n div 16 mod 16 ^ k) + n mod 16 = n mod 16 ^ Suc k"
    by (metis mod_mult2_eq mult.commute power_Suc power_commutes)
  with Suc show ?case by (simp add: read_hex_append hex_val_char)
qed

lemma filter_hyphenate:
  assumes "\<And>c. c \<in> set h \<Longrightarrow> c \<noteq> CHR ''-''"
  shows "filter (\<lambda>c. c \<noteq> CHR ''-'') (hyphenate h) = h"
proof -
  have id: "filter (\<lambda>c. c \<noteq> CHR ''-'') xs = xs" if "set xs \<subseteq> set h" for xs
    using that assms by (auto simp: filter_id_conv)
  have "take 8 h @ take 4 (drop 8 h) @ take 4 (drop 12 h) @ take 4 (drop 16 h) @ drop 20 h = h"
  proof -
    have "take 4 (drop 16 h) @ drop 20 h = drop 16 h"
      using append_take_drop_id [of 4 "drop 16 h"] by simp
    moreover have "take 4 (drop 12 h) @ drop 16 h = drop 12 h"
      using append_take_drop_id [of 4 "drop 12 h"] by simp
    moreover have "take 4 (drop 8 h) @ drop 12 h = drop 8 h"
      using append_take_drop_id [of 4 "drop 8 h"] by simp
    ultimately show ?thesis by simp
  qed
  moreover have "set (take n (drop m h)) \<subseteq> set h" "set (take n h) \<subseteq> set h" "set (drop n h) \<subseteq> set h" for n m
    by (meson set_take_subset set_drop_subset subset_trans)+
  ultimately show ?thesis by (simp add: hyphenate_def id)
qed

lemma canonical_in_out: "canonical_in (canonical_out u) = Some u"
proof -
  let ?h = "hex_text 32 (unat u)"
  have "unat u < 2 ^ LENGTH(128)" by (rule unsigned_less)
  then have "unat u mod 16 ^ 32 = unat u" by simp
  then have "read_hex 0 ?h = Some (unat u)" by (simp add: read_hex_text)
  moreover have "filter (\<lambda>c. c \<noteq> CHR ''-'') (hyphenate ?h) = ?h"
    by (rule filter_hyphenate) (rule hex_text_not_hyphen)
  ultimately show ?thesis by (simp add: canonical_in_def canonical_out_def Let_def)
qed

interpretation canonical: uuid_io canonical_server
  by unfold_locales (simp add: canonical_server_def canonical_in_out)

end
