(* ===== verification/Postgres.thy ===== *)
theory Postgres
  imports Uuid
begin

text \<open>
  The tables of \<open>migrations/\<close> and the SQL statements the Go code sends.  Tables are lists of rows;
  the schema's keys, foreign key, CHECK constraints and INTEGER widths are the guards of the
  statements, as SQLSTATE errors.  A statement or a COMMIT may also fail with any error of the
  server or the connection: the environment of a transaction (\<open>tx_env\<close>) says at which point, so
  every theorem holds for every fault.  The lemmas give the effect of each statement on the
  schema invariant \<open>schema_ok\<close> and on the stock accounting (\<open>available\<close>, \<open>held\<close>).
\<close>

section \<open>Tables\<close>

datatype item_status = Draft | Scheduled | On_sale | Sold_out | Closed

datatype res_status = Pending | Reserved | Completed | Expired | Cancelled | Rejected

text \<open>The columns of \<open>items\<close> that the Go code or a constraint on them reads.\<close>

record item =
  item_id :: uuid
  total_inventory :: int
  available_inventory :: int
  item_status :: item_status

record reservation =
  res_id :: uuid
  res_item :: uuid
  res_user :: string
  res_quantity :: int
  res_status :: res_status
  res_key :: string
  expires_at :: "int option"
  decided_at :: "int option"

record db =
  items :: "item list"
  reservations :: "reservation list"

definition int4 :: "int \<Rightarrow> bool" where
  "int4 n \<longleftrightarrow> - (2 ^ 31) \<le> n \<and> n \<le> 2 ^ 31 - 1"

abbreviation find_item :: "uuid \<Rightarrow> db \<Rightarrow> item option" where
  "find_item u d \<equiv> find (\<lambda>r. item_id r = u) (items d)"

abbreviation find_reservation :: "uuid \<Rightarrow> db \<Rightarrow> reservation option" where
  "find_reservation u d \<equiv> find (\<lambda>r. res_id r = u) (reservations d)"

definition res_index :: "reservation \<Rightarrow> uuid \<times> string" where
  "res_index r = (res_item r, res_key r)"

abbreviation find_attempt :: "uuid \<Rightarrow> string \<Rightarrow> db \<Rightarrow> reservation option" where
  "find_attempt u k d \<equiv> find (\<lambda>r. res_index r = (u, k)) (reservations d)"

section \<open>Transactions\<close>

datatype tx_point = AtBegin | AtSelect | AtInsert | AtLookup | AtUpdate | AtCommit

text \<open>
  What the world contributes to one transaction: the next \<open>gen_random_uuid()\<close>, \<open>now()\<close> (the
  transaction's start), Go's \<open>time.Now()\<close>, the error at each point where the driver can return
  one, and whether a COMMIT whose answer was lost had been applied.
\<close>

record tx_env =
  new_uuid :: uuid
  tx_now :: int
  go_now :: int
  fault :: "tx_point \<Rightarrow> goerr option"
  commit_applied :: bool

definition no_fault :: "tx_env \<Rightarrow> bool" where
  "no_fault e \<longleftrightarrow> fault e = (\<lambda>_. None)"

text \<open>
  \<open>tx.Commit()\<close>: on success the working copy becomes the database.  When it returns an error the
  transaction was rolled back, or it was applied and only the answer was lost.
\<close>

definition commit_tx :: "tx_env \<Rightarrow> string \<Rightarrow> db \<Rightarrow> db \<Rightarrow> 'a \<Rightarrow> (goerr + 'a) \<times> db" where
  "commit_tx e msg old new x =
     (case fault e AtCommit of
        None \<Rightarrow> (Inr x, new)
      | Some er \<Rightarrow> (Inl (wrap_err msg er), if commit_applied e then new else old))"

section \<open>Statements\<close>

text \<open>\<open>SELECT available_inventory FROM items WHERE id = $1 [FOR NO KEY UPDATE]\<close>, scanned.\<close>

definition select_available :: "pg_server \<Rightarrow> tx_env \<Rightarrow> string \<Rightarrow> db \<Rightarrow> goerr + int" where
  "select_available S e itemID d =
     (case fault e AtSelect of Some er \<Rightarrow> Inl er
      | None \<Rightarrow> (case uuid_in S itemID of None \<Rightarrow> Inl (PqErr ''22P02'')
      | Some u \<Rightarrow> (case find_item u d of None \<Rightarrow> Inl ErrNoRows
      | Some r \<Rightarrow> Inr (available_inventory r))))"

text \<open>
  \<open>INSERT INTO reservations ... ON CONFLICT (item_id, idempotency_key) DO NOTHING RETURNING id,
  status\<close>, scanned: the argument conversions, the CHECK constraints, the conflict (no row), the
  primary key and the foreign key, in the server's order.
\<close>

definition insert_reservation ::
  "pg_server \<Rightarrow> tx_env \<Rightarrow> string \<Rightarrow> string \<Rightarrow> int \<Rightarrow> res_status \<Rightarrow> string \<Rightarrow> int option \<Rightarrow> db
     \<Rightarrow> goerr + ((uuid \<times> res_status) \<times> db)" where
  "insert_reservation S e itemID userID quantity status key expires d =
     (case fault e AtInsert of Some er \<Rightarrow> Inl er
      | None \<Rightarrow> (case uuid_in S itemID of None \<Rightarrow> Inl (PqErr ''22P02'')
      | Some u \<Rightarrow>
          if \<not> int4 quantity then Inl (PqErr ''22003'')
          else if \<not> 0 < quantity then Inl (PqErr ''23514'')
          else if status = Reserved \<and> expires = None then Inl (PqErr ''23514'')
          else if find_attempt u key d \<noteq> None then Inl ErrNoRows
          else if find_reservation (new_uuid e) d \<noteq> None then Inl (PqErr ''23505'')
          else if find_item u d = None then Inl (PqErr ''23503'')
          else Inr ((new_uuid e, status),
            d\<lparr>reservations := reservations d @
                [\<lparr> res_id = new_uuid e, res_item = u, res_user = userID, res_quantity = quantity,
                   res_status = status, res_key = key,
                   expires_at = map_option (timestamptz_in S) expires,
                   decided_at = Some (tx_now e) \<rparr>]\<rparr>)))"

text \<open>\<open>SELECT id, status FROM reservations WHERE item_id = $1 AND idempotency_key = $2\<close>.\<close>

definition select_reservation ::
  "pg_server \<Rightarrow> tx_env \<Rightarrow> string \<Rightarrow> string \<Rightarrow> db \<Rightarrow> goerr + (uuid \<times> res_status)" where
  "select_reservation S e itemID key d =
     (case fault e AtLookup of Some er \<Rightarrow> Inl er
      | None \<Rightarrow> (case uuid_in S itemID of None \<Rightarrow> Inl (PqErr ''22P02'')
      | Some u \<Rightarrow> (case find_attempt u key d of None \<Rightarrow> Inl ErrNoRows
      | Some r \<Rightarrow> Inr (res_id r, res_status r))))"

text \<open>
  \<open>UPDATE items SET available_inventory = available_inventory + $1 WHERE id = $2\<close>, for a positive
  or negative amount: no row is no error, a value outside the CHECK constraints is.
\<close>

definition update_available :: "pg_server \<Rightarrow> tx_env \<Rightarrow> int \<Rightarrow> string \<Rightarrow> db \<Rightarrow> goerr + db" where
  "update_available S e amount itemID d =
     (case fault e AtUpdate of Some er \<Rightarrow> Inl er
      | None \<Rightarrow> (case uuid_in S itemID of None \<Rightarrow> Inl (PqErr ''22P02'')
      | Some u \<Rightarrow>
          if \<not> int4 amount then Inl (PqErr ''22003'')
          else (case find_item u d of None \<Rightarrow> Inr d
          | Some r \<Rightarrow>
              let v = available_inventory r + amount
              in if \<not> int4 v then Inl (PqErr ''22003'')
                 else if v < 0 \<or> total_inventory r < v then Inl (PqErr ''23514'')
                 else Inr (d\<lparr>items := map (\<lambda>x. if item_id x = u
                                then x\<lparr>available_inventory := available_inventory x + amount\<rparr>
                                else x) (items d)\<rparr>))))"

text \<open>
  \<open>UPDATE reservations SET status = 'expired' WHERE id = $1 AND status = 'reserved' AND expires_at <
  now() RETURNING item_id, quantity\<close>, scanned.  A NULL \<open>expires_at\<close> does not match.
\<close>

definition lapsed :: "int \<Rightarrow> reservation \<Rightarrow> bool" where
  "lapsed now r \<longleftrightarrow> res_status r = Reserved \<and> (case expires_at r of None \<Rightarrow> False | Some t \<Rightarrow> t < now)"

definition update_expired ::
  "pg_server \<Rightarrow> tx_env \<Rightarrow> string \<Rightarrow> db \<Rightarrow> goerr + ((string \<times> int) \<times> db)" where
  "update_expired S e reservationID d =
     (case fault e AtSelect of Some er \<Rightarrow> Inl er
      | None \<Rightarrow> (case uuid_in S reservationID of None \<Rightarrow> Inl (PqErr ''22P02'')
      | Some u \<Rightarrow> (case find_reservation u d of None \<Rightarrow> Inl ErrNoRows
      | Some r \<Rightarrow>
          if lapsed (tx_now e) r then
            Inr ((uuid_out S (res_item r), res_quantity r),
              d\<lparr>reservations := map (\<lambda>x. if res_id x = u then x\<lparr>res_status := Expired\<rparr> else x)
                  (reservations d)\<rparr>)
          else Inl ErrNoRows)))"

section \<open>The schema invariant\<close>

text \<open>What the constraints of the migrations say of a row, and of the tables.\<close>

definition item_ok :: "item \<Rightarrow> bool" where
  "item_ok r \<longleftrightarrow> 0 \<le> available_inventory r \<and> available_inventory r \<le> total_inventory r
     \<and> int4 (total_inventory r)"

definition reservation_ok :: "reservation \<Rightarrow> bool" where
  "reservation_ok r \<longleftrightarrow> 0 < res_quantity r \<and> int4 (res_quantity r)
     \<and> (res_status r = Reserved \<longrightarrow> expires_at r \<noteq> None)"

definition schema_ok :: "db \<Rightarrow> bool" where
  "schema_ok d \<longleftrightarrow>
     distinct (map item_id (items d)) \<and> list_all item_ok (items d)
   \<and> distinct (map res_id (reservations d)) \<and> distinct (map res_index (reservations d))
   \<and> list_all reservation_ok (reservations d)
   \<and> res_item ` set (reservations d) \<subseteq> item_id ` set (items d)"

section \<open>Stock accounting\<close>

text \<open>
  Units of an item that some reservation holds: reserved and waiting for payment, or paid.  The
  units it accounts for are those and the available ones.
\<close>

definition holds :: "res_status \<Rightarrow> bool" where
  "holds s \<longleftrightarrow> s = Reserved \<or> s = Completed"

definition held_by :: "uuid \<Rightarrow> reservation \<Rightarrow> int" where
  "held_by u r = (if res_item r = u \<and> holds (res_status r) then res_quantity r else 0)"

definition held :: "uuid \<Rightarrow> db \<Rightarrow> int" where
  "held u d = sum_list (map (held_by u) (reservations d))"

definition available :: "uuid \<Rightarrow> db \<Rightarrow> int" where
  "available u d = (case find_item u d of None \<Rightarrow> 0 | Some r \<Rightarrow> available_inventory r)"

definition stock :: "uuid \<Rightarrow> db \<Rightarrow> int" where
  "stock u d = available u d + held u d"

text \<open>No item accounts for more units than it has: the sale never oversells.\<close>

definition accounted :: "db \<Rightarrow> bool" where
  "accounted d \<longleftrightarrow> list_all (\<lambda>r. stock (item_id r) d \<le> total_inventory r) (items d)"

lemmas tx_defs [sql_defs] =
  commit_tx_def select_available_def insert_reservation_def select_reservation_def
  update_available_def update_expired_def


text \<open>The immutable part of the items: identity, size and sale status, in table order.\<close>

definition catalogue :: "db \<Rightarrow> (uuid \<times> int \<times> item_status) list" where
  "catalogue d = map (\<lambda>r. (item_id r, total_inventory r, item_status r)) (items d)"

section \<open>Effects of the statements\<close>

lemma find_item_in: "find_item u d = Some r \<Longrightarrow> r \<in> set (items d) \<and> item_id r = u"
  by (auto simp: find_Some_iff)

lemma find_attempt_in: "find_attempt u k d = Some r \<Longrightarrow> r \<in> set (reservations d) \<and> res_index r = (u, k)"
  by (auto simp: find_Some_iff)

lemma find_reservation_in:
  "find_reservation u d = Some r \<Longrightarrow> r \<in> set (reservations d) \<and> res_id r = u"
  by (auto simp: find_Some_iff)

lemma find_item_member: "find_item u d \<noteq> None \<longleftrightarrow> u \<in> item_id ` set (items d)"
  by (simp only: find_None_notin not_not)

lemma catalogue_ids: "catalogue d' = catalogue d \<Longrightarrow> map item_id (items d') = map item_id (items d)"
  by (drule arg_cong [where f = "map fst"]) (simp add: catalogue_def comp_def)

lemma catalogue_item_set:
  assumes "catalogue d' = catalogue d"
  shows "item_id ` set (items d') = item_id ` set (items d)"
  using arg_cong [OF catalogue_ids [OF assms], of set] by simp

lemma schema_okI [wf_intros]:
  assumes "distinct (map item_id (items d))" "list_all item_ok (items d)"
    "distinct (map res_id (reservations d))" "distinct (map res_index (reservations d))"
    "list_all reservation_ok (reservations d)"
    "res_item ` set (reservations d) \<subseteq> item_id ` set (items d)"
  shows "schema_ok d"
  using assms by (simp add: schema_ok_def)

lemma schema_ok_same_keys:
  assumes "schema_ok d"
    and ids: "map item_id (items d1) = map item_id (items d)"
      "map res_id (reservations d1) = map res_id (reservations d)"
      "map res_index (reservations d1) = map res_index (reservations d)"
      "map res_item (reservations d1) = map res_item (reservations d)"
    and rows: "list_all item_ok (items d1)" "list_all reservation_ok (reservations d1)"
  shows "schema_ok d1"
proof -
  have "item_id ` set (items d1) = item_id ` set (items d)"
    "res_item ` set (reservations d1) = res_item ` set (reservations d)"
    using arg_cong [OF ids(1), of set] arg_cong [OF ids(4), of set] by simp_all
  then show ?thesis using assms by (simp add: schema_ok_def)
qed

lemma schema_ok_item: "schema_ok d \<Longrightarrow> find_item u d = Some r \<Longrightarrow> item_ok r"
  by (auto simp: schema_ok_def list_all_iff dest: find_item_in)

lemma available_nonneg: "schema_ok d \<Longrightarrow> 0 \<le> available u d"
  by (auto simp: available_def item_ok_def split: option.split dest: schema_ok_item)

lemma held_by_nonneg: "schema_ok d \<Longrightarrow> r \<in> set (reservations d) \<Longrightarrow> 0 \<le> held_by u r"
  by (auto simp: schema_ok_def list_all_iff reservation_ok_def held_by_def order_less_imp_le)

lemma held_nonneg: "schema_ok d \<Longrightarrow> 0 \<le> held u d"
  unfolding held_def by (rule sum_list_map_nonneg_int) (rule held_by_nonneg)

lemma held_by_le_held:
  "schema_ok d \<Longrightarrow> r \<in> set (reservations d) \<Longrightarrow> held_by u r \<le> held u d"
  unfolding held_def by (rule member_le_sum_list_int) (auto intro: held_by_nonneg)

lemma insert_reservation_cases:
  assumes "insert_reservation S e itemID userID q st k ex d = Inr ((rid, st'), d1)"
  obtains u where "uuid_in S itemID = Some u" "int4 q" "0 < q" "rid = new_uuid e" "st' = st"
    "st = Reserved \<longrightarrow> ex \<noteq> None" "find_attempt u k d = None"
    "find_reservation (new_uuid e) d = None" "find_item u d \<noteq> None"
    "d1 = d\<lparr>reservations := reservations d @
        [\<lparr> res_id = new_uuid e, res_item = u, res_user = userID, res_quantity = q,
           res_status = st, res_key = k, expires_at = map_option (timestamptz_in S) ex,
           decided_at = Some (tx_now e) \<rparr>]\<rparr>"
  using assms by (auto simp: insert_reservation_def split: option.splits if_splits)

lemma insert_reservation_effect:
  assumes "insert_reservation S e itemID userID q st k ex d = Inr ((rid, st'), d1)"
  shows "catalogue d1 = catalogue d \<and> items d1 = items d \<and> st' = st \<and> (schema_ok d \<longrightarrow> schema_ok d1)
    \<and> held w d1 = held w d + (if uuid_in S itemID = Some w \<and> holds st then q else 0)"
  using assms
proof (rule insert_reservation_cases)
  fix u
  assume *: "uuid_in S itemID = Some u" "int4 q" "0 < q" "st' = st"
    "st = Reserved \<longrightarrow> ex \<noteq> None" "find_attempt u k d = None"
    "find_reservation (new_uuid e) d = None" "find_item u d \<noteq> None"
    and d1: "d1 = d\<lparr>reservations := reservations d @
        [\<lparr> res_id = new_uuid e, res_item = u, res_user = userID, res_quantity = q,
           res_status = st, res_key = k, expires_at = map_option (timestamptz_in S) ex,
           decided_at = Some (tx_now e) \<rparr>]\<rparr>"
  have "new_uuid e \<notin> res_id ` set (reservations d)" using *(7) by (simp add: find_None_notin)
  moreover have "(u, k) \<notin> res_index ` set (reservations d)" using *(6) by (simp add: find_None_notin)
  moreover have "u \<in> item_id ` set (items d)" using *(8) by (simp only: find_item_member)
  ultimately have "schema_ok d \<longrightarrow> schema_ok d1"
    using * by (auto simp: d1 schema_ok_def reservation_ok_def res_index_def)
  then show "catalogue d1 = catalogue d \<and> items d1 = items d \<and> st' = st \<and> (schema_ok d \<longrightarrow> schema_ok d1)
    \<and> held w d1 = held w d + (if uuid_in S itemID = Some w \<and> holds st then q else 0)"
    using * by (auto simp: d1 catalogue_def held_def held_by_def)
qed

lemma update_available_cases:
  assumes "update_available S e n itemID d = Inr d1"
  obtains u where "uuid_in S itemID = Some u" "find_item u d = None" "d1 = d"
  | u r where "uuid_in S itemID = Some u" "find_item u d = Some r"
      "0 \<le> available_inventory r + n" "available_inventory r + n \<le> total_inventory r"
      "d1 = d\<lparr>items := map (\<lambda>x. if item_id x = u
              then x\<lparr>available_inventory := available_inventory x + n\<rparr> else x) (items d)\<rparr>"
  using assms by (fastforce simp: update_available_def Let_def split: option.splits if_splits)

lemma update_available_effect:
  assumes "update_available S e n itemID d = Inr d1"
  shows "catalogue d1 = catalogue d \<and> reservations d1 = reservations d \<and> (schema_ok d \<longrightarrow> schema_ok d1)
    \<and> available w d1 = available w d + (if uuid_in S itemID = Some w \<and> find_item w d \<noteq> None then n else 0)"
  using assms
proof (rule update_available_cases)
  fix u assume "uuid_in S itemID = Some u" "find_item u d = None" "d1 = d"
  then show "catalogue d1 = catalogue d \<and> reservations d1 = reservations d \<and> (schema_ok d \<longrightarrow> schema_ok d1)
    \<and> available w d1 = available w d + (if uuid_in S itemID = Some w \<and> find_item w d \<noteq> None then n else 0)"
    by auto
next
  fix u r
  assume u: "uuid_in S itemID = Some u" and r: "find_item u d = Some r"
    and bounds: "0 \<le> available_inventory r + n" "available_inventory r + n \<le> total_inventory r"
    and d1: "d1 = d\<lparr>items := map (\<lambda>x. if item_id x = u
              then x\<lparr>available_inventory := available_inventory x + n\<rparr> else x) (items d)\<rparr>"
  let ?g = "\<lambda>x. x\<lparr>available_inventory := available_inventory x + n\<rparr>"
  have ids: "map item_id (items d1) = map item_id (items d)"
    by (simp add: d1 map_if_key)
  have cat: "catalogue d1 = catalogue d" by (simp add: d1 catalogue_def)
  have "schema_ok d1" if ok: "schema_ok d"
  proof -
    have "x = r" if "x \<in> set (items d)" "item_id x = u" for x
      using that r ok find_Some_iff_distinct [of item_id "items d" u x]
      by (simp add: schema_ok_def)
    then have "list_all item_ok (items d1)"
      using ok bounds by (auto simp: d1 schema_ok_def list_all_iff item_ok_def)
    moreover have "list_all reservation_ok (reservations d1)"
      using ok by (simp add: d1 schema_ok_def)
    ultimately show ?thesis by (intro schema_ok_same_keys [OF ok ids]) (simp_all add: d1)
  qed
  moreover have "find_item w d1 = (if w = u then map_option ?g (find_item w d) else find_item w d)"
    by (simp add: d1 find_map_update)
  ultimately show "catalogue d1 = catalogue d \<and> reservations d1 = reservations d
    \<and> (schema_ok d \<longrightarrow> schema_ok d1)
    \<and> available w d1 = available w d + (if uuid_in S itemID = Some w \<and> find_item w d \<noteq> None then n else 0)"
    using cat u r by (auto simp: available_def d1 split: option.splits)
qed

lemma update_expired_cases:
  assumes "update_expired S e reservationID d = Inr ((itemID, q), d1)"
  obtains u r where "uuid_in S reservationID = Some u" "find_reservation u d = Some r"
    "lapsed (tx_now e) r" "itemID = uuid_out S (res_item r)" "q = res_quantity r"
    "d1 = d\<lparr>reservations := map (\<lambda>x. if res_id x = u then x\<lparr>res_status := Expired\<rparr> else x)
              (reservations d)\<rparr>"
  using assms by (fastforce simp: update_expired_def split: option.splits if_splits)

lemma update_expired_effect:
  assumes "update_expired S e reservationID d = Inr ((itemID, q), d1)" and ok: "schema_ok d"
  shows "catalogue d1 = catalogue d \<and> items d1 = items d \<and> schema_ok d1 \<and> 0 < q \<and> int4 q
    \<and> (\<exists>i. itemID = uuid_out S i \<and> find_item i d \<noteq> None
          \<and> (\<forall>w. held w d1 = held w d - (if w = i then q else 0)))"
  using assms(1)
proof (rule update_expired_cases)
  fix u r
  assume u: "uuid_in S reservationID = Some u" and r: "find_reservation u d = Some r"
    and lapsed: "lapsed (tx_now e) r" and res: "itemID = uuid_out S (res_item r)" "q = res_quantity r"
    and d1: "d1 = d\<lparr>reservations := map (\<lambda>x. if res_id x = u then x\<lparr>res_status := Expired\<rparr> else x)
              (reservations d)\<rparr>"
  let ?f = "\<lambda>x. if res_id x = u then x\<lparr>res_status := Expired\<rparr> else x"
  have rin: "r \<in> set (reservations d)" "res_id r = u" using find_reservation_in [OF r] by auto
  have "held w d1 = held w d - held_by w r + held_by w (r\<lparr>res_status := Expired\<rparr>)" for w
    using sum_list_map_update_one [of res_id "reservations d" r u "held_by w"
        "\<lambda>x. x\<lparr>res_status := Expired\<rparr>"] ok rin
    by (simp add: held_def d1 schema_ok_def)
  then have held: "held w d1 = held w d - (if w = res_item r then q else 0)" for w
    using lapsed by (simp add: held_by_def holds_def lapsed_def res)
  have "map res_id (reservations d1) = map res_id (reservations d)"
    "map res_index (reservations d1) = map res_index (reservations d)"
    "map res_item (reservations d1) = map res_item (reservations d)"
    by (simp_all add: d1 res_index_def)
  moreover have "list_all reservation_ok (reservations d1)"
    using ok by (auto simp: d1 schema_ok_def list_all_iff reservation_ok_def)
  moreover have "map item_id (items d1) = map item_id (items d)" "list_all item_ok (items d1)"
    using ok by (simp_all add: d1 schema_ok_def)
  ultimately have "schema_ok d1" using ok by (intro schema_ok_same_keys [of d d1])
  moreover have "reservation_ok r" "res_item r \<in> item_id ` set (items d)"
    using ok rin by (auto simp: schema_ok_def list_all_iff)
  moreover from this have "find_item (res_item r) d \<noteq> None" by (simp only: find_item_member)
  ultimately show ?thesis using held
    by (auto simp: d1 catalogue_def reservation_ok_def res intro!: exI [of _ "res_item r"])
qed

lemma commit_tx_db: "snd (commit_tx e m old new x) = old \<or> snd (commit_tx e m old new x) = new"
  by (simp add: commit_tx_def split: option.split)

lemma commit_tx_Inr: "commit_tx e m old new x = (Inr y, d') \<Longrightarrow> y = x \<and> d' = new"
  by (simp add: commit_tx_def split: option.splits)

section \<open>The ledger contract\<close>

text \<open>
  What every transaction of the program promises of the stock: the schema stays satisfied, the
  items keep identity and size, and for each item the available and the held units together stay
  the same.  A client may run any number of them in any order.
\<close>

locale ledger =
  fixes step :: "'e \<Rightarrow> db \<Rightarrow> 'r \<times> db"
  assumes step_schema: "schema_ok d \<Longrightarrow> schema_ok (snd (step e d))"
    and step_catalogue: "schema_ok d \<Longrightarrow> catalogue (snd (step e d)) = catalogue d"
    and step_stock: "schema_ok d \<Longrightarrow> stock u (snd (step e d)) = stock u d"
begin

lemma run_invariant:
  assumes "schema_ok d"
  shows "schema_ok (fold (\<lambda>e d. snd (step e d)) es d)
    \<and> catalogue (fold (\<lambda>e d. snd (step e d)) es d) = catalogue d
    \<and> stock u (fold (\<lambda>e d. snd (step e d)) es d) = stock u d"
  using assms
  by (induction es arbitrary: d) (simp_all add: step_schema step_catalogue step_stock)

end

lemma accounted_catalogue:
  assumes "catalogue d' = catalogue d" "\<And>u. stock u d' = stock u d" "accounted d"
  shows "accounted d'"
proof -
  have "list_all (\<lambda>(i, t, s). stock i d \<le> t) (catalogue d)"
    using assms(3) by (simp add: accounted_def catalogue_def list_all_iff)
  then have "list_all (\<lambda>(i, t, s). stock i d' \<le> t) (catalogue d')"
    using assms(1,2) by (simp add: list_all_iff)
  then show ?thesis by (simp add: accounted_def catalogue_def list_all_iff)
qed

lemma accounted_held_le_total:
  assumes "accounted d" "schema_ok d" "find_item u d = Some r"
  shows "held u d \<le> total_inventory r"
proof -
  have "stock u d \<le> total_inventory r"
    using assms(1,3) find_item_in [OF assms(3)] by (auto simp: accounted_def list_all_iff)
  with available_nonneg [OF assms(2), of u] show ?thesis by (simp add: stock_def)
qed

end
