(* ===== verification/Keys.thy ===== *)
theory Keys
  imports GoLib
begin

text \<open>
  \<open>internal/redisx/keys.go\<close>: the key formats the services share.  The lemmas show that the four
  families of keys never meet, and when two keys of one family are equal.
\<close>

section \<open>Key formats\<close>

definition AdmissionKey :: "string \<Rightarrow> string \<Rightarrow> string" where
  "AdmissionKey itemID userID = ''admission:'' @ itemID @ '':'' @ userID"

definition InventoryKey :: "string \<Rightarrow> string" where
  "InventoryKey itemID = ''inventory:'' @ itemID"

definition QueueDepthKey :: "string \<Rightarrow> string" where
  "QueueDepthKey itemID = ''queue_depth:'' @ itemID"

definition RiskScoreKey :: "string \<Rightarrow> string \<Rightarrow> string" where
  "RiskScoreKey itemID userID = ''risk:'' @ itemID @ '':'' @ userID"

lemmas key_defs = AdmissionKey_def InventoryKey_def QueueDepthKey_def RiskScoreKey_def

section \<open>Equality of keys\<close>

lemma key_families_disjoint [simp]:
  "AdmissionKey i u \<noteq> InventoryKey j" "InventoryKey j \<noteq> AdmissionKey i u"
  "AdmissionKey i u \<noteq> QueueDepthKey j" "QueueDepthKey j \<noteq> AdmissionKey i u"
  "AdmissionKey i u \<noteq> RiskScoreKey j v" "RiskScoreKey j v \<noteq> AdmissionKey i u"
  "InventoryKey i \<noteq> QueueDepthKey j" "QueueDepthKey j \<noteq> InventoryKey i"
  "InventoryKey i \<noteq> RiskScoreKey j v" "RiskScoreKey j v \<noteq> InventoryKey i"
  "QueueDepthKey i \<noteq> RiskScoreKey j v" "RiskScoreKey j v \<noteq> QueueDepthKey i"
  by (simp_all add: key_defs)

lemma item_keys_inj [simp]:
  "InventoryKey i = InventoryKey j \<longleftrightarrow> i = j" "QueueDepthKey i = QueueDepthKey j \<longleftrightarrow> i = j"
  by (simp_all add: key_defs)

text \<open>Two texts joined by a separator that neither left part contains.\<close>

lemma append_sep_inj:
  assumes "c \<notin> set xs" "c \<notin> set xs'"
  shows "xs @ c # ys = xs' @ c # ys' \<longleftrightarrow> xs = xs' \<and> ys = ys'"
  using assms
proof (induction xs arbitrary: xs')
  case Nil
  then show ?case by (cases xs') auto
next
  case (Cons x xs)
  then show ?case by (cases xs') auto
qed

lemma pair_keys_inj:
  assumes "CHR '':'' \<notin> set i" "CHR '':'' \<notin> set j"
  shows "AdmissionKey i u = AdmissionKey j v \<longleftrightarrow> i = j \<and> u = v"
    and "RiskScoreKey i u = RiskScoreKey j v \<longleftrightarrow> i = j \<and> u = v"
  using append_sep_inj [OF assms] by (simp_all add: key_defs)

text \<open>
  A colon in an identifier is the only way two admission keys can meet: then an item identifier is
  the other one extended by a colon, and the user identifier of the other begins with the rest.
\<close>

lemma append_sep_collision:
  assumes "xs @ c # ys = xs' @ c # ys'" "xs \<noteq> xs'"
  shows "(\<exists>zs. xs' = xs @ c # zs \<and> ys = zs @ c # ys') \<or> (\<exists>zs. xs = xs' @ c # zs \<and> ys' = zs @ c # ys)"
  using assms by (auto simp: append_eq_append_conv2 Cons_eq_append_conv append_eq_Cons_conv)

section \<open>Properties\<close>

text \<open>
  Two services that build the same admission key mean the same buyer and item, whatever the
  user identifier holds, as long as the item identifiers have no colon (UUIDs have none); when two
  different pairs do share a key, one item identifier is the other one, a colon and the text by
  which the user identifier of the other begins.
\<close>

theorem AdmissionKey_collisions:
  "AdmissionKey i u = AdmissionKey j v \<longleftrightarrow>
     (i = j \<and> u = v)
   \<or> (\<exists>z. j = i @ '':'' @ z \<and> u = z @ '':'' @ v)
   \<or> (\<exists>z. i = j @ '':'' @ z \<and> v = z @ '':'' @ u)"
  using append_sep_collision [of i "CHR '':''" u j v] by (auto simp: AdmissionKey_def)

end
