(* ===== verification/World.thy ===== *)
theory World
  imports Postgres Keys Retry "HOL-Library.State_Monad"
begin

text \<open>
  What the services talk to: Redis, Kafka, Postgres, the random source and the clock.  All of them
  are outside the repository, so they are a parameter (\<open>services\<close>) of every operation that uses
  them, over an opaque state of the world, and the Go code is written in the state monad over it.
  What the code relies on is stated as locales: \<open>lua_numbers\<close> (numbers in the Redis script),
  \<open>redis_service\<close> (the documented effect of each command, applied or not when the answer is an
  error), \<open>kafka_service\<close> (an acknowledged write is in the log) and \<open>postgres_service\<close>.
  \<open>mem_services\<close> is an in-memory instance with scripted faults, on which all are interpreted.
\<close>

section \<open>Requests and replies\<close>

datatype rcmd =
    GET string
  | SET string string int
  | GETDEL string
  | INCRBY string int
  | EVAL_DECREMENT string string

datatype reply =
    RErr goerr
  | RNil
  | RBulk string
  | RInt int
  | ROk

fun failed_reply :: "reply \<Rightarrow> bool" where
  "failed_reply (RErr e) = True"
| "failed_reply _ = False"

text \<open>The error go-redis reports for a nil reply.\<close>

definition RedisNil :: goerr where
  "RedisNil = SentinelErr ''redis: nil''"

record kmsg =
  msg_key :: string
  msg_value :: string

record 'w services =
  redis_cmd :: "rcmd \<Rightarrow> 'w \<Rightarrow> reply \<times> 'w"
  kafka_write :: "string \<Rightarrow> kmsg \<Rightarrow> 'w \<Rightarrow> goerr option \<times> 'w"
  rand_read :: "nat \<Rightarrow> 'w \<Rightarrow> (goerr + nat list) \<times> 'w"
  time_now :: "'w \<Rightarrow> int \<times> 'w"
  pg_begin :: "'w \<Rightarrow> (tx_env \<times> db) \<times> 'w"
  pg_store :: "db \<Rightarrow> 'w \<Rightarrow> 'w"

type_synonym ('w, 'a) io = "('w, 'a) state"

abbreviation ret :: "'a \<Rightarrow> ('w, 'a) io" where
  "ret \<equiv> State_Monad.return"

abbreviation redis :: "'w services \<Rightarrow> rcmd \<Rightarrow> ('w, reply) io" where
  "redis V c \<equiv> State (redis_cmd V c)"

abbreviation kafka :: "'w services \<Rightarrow> string \<Rightarrow> kmsg \<Rightarrow> ('w, goerr option) io" where
  "kafka V t m \<equiv> State (kafka_write V t m)"

abbreviation rand :: "'w services \<Rightarrow> nat \<Rightarrow> ('w, goerr + nat list) io" where
  "rand V n \<equiv> State (rand_read V n)"

abbreviation now :: "'w services \<Rightarrow> ('w, int) io" where
  "now V \<equiv> State (time_now V)"

text \<open>
  A statement or transaction of \<open>database/sql\<close>: it runs on the committed tables of its moment,
  under the faults and clocks the world gives it, and leaves the tables it committed.
\<close>

definition sql :: "'w services \<Rightarrow> (tx_env \<Rightarrow> db \<Rightarrow> 'a \<times> db) \<Rightarrow> ('w, 'a) io" where
  "sql V f = State (\<lambda>w. case pg_begin V w of ((e, d), w') \<Rightarrow> (case f e d of (r, d') \<Rightarrow> (r, pg_store V d' w')))"

section \<open>Lua numbers\<close>

text \<open>
  The numbers of the Lua interpreter inside Redis: \<open>tonumber\<close> on a string, comparison, the text of a
  number passed to \<open>redis.call\<close>, and an integer reply on its way through a Lua number.  They are
  doubles, so all of it is exact for integers up to \<open>2^53\<close>.
\<close>

record 'n lua =
  tonumber :: "string \<Rightarrow> 'n option"
  lua_lt :: "'n \<Rightarrow> 'n \<Rightarrow> bool"
  lua_text :: "'n \<Rightarrow> string"
  lua_reply :: "int \<Rightarrow> int"

locale lua_numbers =
  fixes L :: "'n lua"
  assumes tonumber_int: "int64 n \<Longrightarrow> tonumber L (int_text n) \<noteq> None"
    and text_exact: "\<bar>n\<bar> \<le> 2 ^ 53 \<Longrightarrow> tonumber L (int_text n) = Some x \<Longrightarrow> lua_text L x = int_text n"
    and lt_exact: "\<bar>m\<bar> < 2 ^ 53 \<Longrightarrow> int64 n \<Longrightarrow> tonumber L (int_text m) = Some x
      \<Longrightarrow> tonumber L (int_text n) = Some y \<Longrightarrow> lua_lt L x y \<longleftrightarrow> m < n"
    and reply_exact: "\<bar>n\<bar> \<le> 2 ^ 53 \<Longrightarrow> lua_reply L n = n"

section \<open>The effect of the commands\<close>

text \<open>Keys with their value and, for keys set with a time to live, the instant they vanish.\<close>

type_synonym store = "string \<Rightarrow> (string \<times> int option) option"

definition live :: "int \<Rightarrow> store \<Rightarrow> store" where
  "live t s = (\<lambda>k. case s k of Some (v, Some dl) \<Rightarrow> if dl \<le> t then None else Some (v, Some dl) | x \<Rightarrow> x)"

text \<open>An integer as Redis stores it: only the decimal text it would print itself.\<close>

definition redis_int :: "string \<Rightarrow> int option" where
  "redis_int v = (case parse_int64 v of None \<Rightarrow> None | Some n \<Rightarrow> if int_text n = v then Some n else None)"

definition not_an_integer :: reply where
  "not_an_integer = RErr (PlainErr ''ERR value is not an integer or out of range'')"

definition incr_by :: "string \<Rightarrow> int \<Rightarrow> store \<Rightarrow> reply \<times> store" where
  "incr_by k n s =
     (case s k of
        None \<Rightarrow> (RInt n, s(k \<mapsto> (int_text n, None)))
      | Some (v, dl) \<Rightarrow>
          (case redis_int v of
             None \<Rightarrow> (not_an_integer, s)
           | Some m \<Rightarrow>
               if int64 (m + n) then (RInt (m + n), s(k \<mapsto> (int_text (m + n), dl)))
               else (RErr (PlainErr ''ERR increment or decrement would overflow''), s)))"

definition decr_by :: "string \<Rightarrow> string \<Rightarrow> store \<Rightarrow> reply \<times> store" where
  "decr_by k arg s =
     (case redis_int arg of
        None \<Rightarrow> (not_an_integer, s)
      | Some n \<Rightarrow> if n = int64_min then (RErr (PlainErr ''ERR decrement would overflow''), s)
                 else incr_by k (- n) s)"

text \<open>
  \<open>decrementScript\<close> of \<open>internal/redisx/inventory.go\<close>, run by the server as one command.  \<open>GET\<close> of a
  missing key is \<open>false\<close> in Lua, and \<open>tonumber(false)\<close> is \<open>nil\<close>.
\<close>

definition decrementScript :: "'n lua \<Rightarrow> string \<Rightarrow> string \<Rightarrow> store \<Rightarrow> reply \<times> store" where
  "decrementScript L key arg s =
     (case (case s key of None \<Rightarrow> None | Some (v, dl) \<Rightarrow> tonumber L v) of
        None \<Rightarrow> (RInt (- 1), s)
      | Some current \<Rightarrow>
          (case tonumber L arg of
             None \<Rightarrow> (RErr (PlainErr ''ERR attempt to compare number with nil''), s)
           | Some qty \<Rightarrow>
               if lua_lt L current qty then (RInt (- 2), s)
               else (case decr_by key (lua_text L qty) s of
                       (RInt n, s') \<Rightarrow> (RInt (lua_reply L n), s')
                     | r \<Rightarrow> r)))"

fun redis_effect :: "'n lua \<Rightarrow> int \<Rightarrow> rcmd \<Rightarrow> store \<Rightarrow> reply \<times> store" where
  "redis_effect L t (GET k) s = (case s k of None \<Rightarrow> RNil | Some (v, dl) \<Rightarrow> RBulk v, s)"
| "redis_effect L t (SET k v ttl) s =
     (ROk, s(k \<mapsto> (v, if ttl = 0 then None else Some (t + max Millisecond ttl))))"
| "redis_effect L t (GETDEL k) s = (case s k of None \<Rightarrow> RNil | Some (v, dl) \<Rightarrow> RBulk v, s(k := None))"
| "redis_effect L t (INCRBY k n) s = incr_by k n s"
| "redis_effect L t (EVAL_DECREMENT k arg) s = decrementScript L k arg s"

section \<open>What the code relies on\<close>

text \<open>
  The errors of a driver are its own: never the nil-reply sentinel (which is a reply of its own
  here) nor an error value of this program's packages.
\<close>

definition driver_err :: "goerr \<Rightarrow> bool" where
  "driver_err e \<longleftrightarrow> \<not> errors_is e RedisNil \<and> (\<forall>s. \<not> errors_is e (SentinelErr (''redisx: '' @ s)))"

lemma driver_err_Plain [simp]: "driver_err (PlainErr s)"
  by (simp add: driver_err_def RedisNil_def)

text \<open>
  Redis, seen by one client while no other one interferes: \<open>keys w\<close> are the live keys.  A command
  that is answered was executed once, on the keys that are left when it runs; one that fails was
  executed or was not.
\<close>

locale redis_service = lua_numbers L
  for L :: "'n lua" +
  fixes V :: "'w services"
    and keys :: "'w \<Rightarrow> store"
    and clock :: "'w \<Rightarrow> int"
  assumes clock_mono: "clock w \<le> clock (snd (redis_cmd V c w))"
    and answered: "redis_cmd V c w = (r, w') \<Longrightarrow> \<not> failed_reply r
      \<Longrightarrow> redis_effect L (clock w') c (live (clock w') (keys w)) = (r, keys w')"
    and unanswered: "redis_cmd V c w = (r, w') \<Longrightarrow> failed_reply r
      \<Longrightarrow> keys w' = live (clock w') (keys w)
        \<or> keys w' = snd (redis_effect L (clock w') c (live (clock w') (keys w)))"
    and driver_errors: "redis_cmd V c w = (RErr e, w') \<Longrightarrow> driver_err e"
    and time_local: "keys (snd (time_now V w)) = keys w \<and> clock w \<le> clock (snd (time_now V w))"
begin

lemma cmd_cases:
  assumes "redis_cmd V c w = (r, w')"
  obtains "redis_effect L (clock w') c (live (clock w') (keys w)) = (r, keys w')" "\<not> failed_reply r"
  | e where "r = RErr e" "driver_err e" "keys w' = live (clock w') (keys w)"
  | e where "r = RErr e" "driver_err e"
      "keys w' = snd (redis_effect L (clock w') c (live (clock w') (keys w)))"
proof (cases r)
  case (RErr e)
  with assms driver_errors [of c w e w'] unanswered [of c w r w'] that(2,3) show ?thesis by auto
qed (use assms answered [of c w r w'] that(1) in auto)

end

text \<open>
  Kafka: an acknowledged message is appended to its topic, more than once when the producer's own
  retries repeated it; a failed write may have appended it too.
\<close>

locale kafka_service =
  fixes V :: "'w services"
    and topic :: "string \<Rightarrow> 'w \<Rightarrow> kmsg list"
  assumes acknowledged: "kafka_write V t m w = (None, w')
      \<Longrightarrow> \<exists>n. topic t w' = topic t w @ replicate (Suc n) m"
    and unacknowledged: "kafka_write V t m w = (Some er, w')
      \<Longrightarrow> \<exists>n. topic t w' = topic t w @ replicate n m"
    and other_topics: "t' \<noteq> t \<Longrightarrow> topic t' (snd (kafka_write V t m w)) = topic t' w"

locale postgres_service =
  fixes V :: "'w services"
    and tables :: "'w \<Rightarrow> db"
  assumes begin_tables: "pg_begin V w = ((e, d), w') \<Longrightarrow> d = tables w \<and> tables w' = tables w"
    and store_tables: "tables (pg_store V d w) = d"
begin

lemma sql_tables:
  assumes "run_state (sql V f) w = (r, w')"
  shows "\<exists>e. f e (tables w) = (r, tables w')"
  using assms begin_tables store_tables
  by (auto simp: sql_def split: prod.splits)

lemma sql_read:
  assumes "run_state (sql V (\<lambda>e d. (f e d, d))) w = (r, w')"
  shows "\<exists>e. f e (tables w) = r \<and> tables w' = tables w"
proof -
  from sql_tables [OF assms] obtain e where "(f e (tables w), tables w) = (r, tables w')" by (rule exE)
  then have "f e (tables w) = r \<and> tables w = tables w'" by (rule prod.inject [THEN iffD1])
  then show ?thesis by metis
qed

end

text \<open>
  The services together, seen by one request while nothing else runs: each call changes the part of
  the world that belongs to its service only.
\<close>

locale platform =
  redis_service L V keys clock + kafka_service V topic + postgres_service V tables
  for L :: "'n lua" and V :: "'w services" and keys :: "'w \<Rightarrow> store" and clock :: "'w \<Rightarrow> int"
    and topic :: "string \<Rightarrow> 'w \<Rightarrow> kmsg list" and tables :: "'w \<Rightarrow> db" +
  assumes redis_frame: "redis_cmd V c w = (r, w') \<Longrightarrow> topic t w' = topic t w \<and> tables w' = tables w"
    and kafka_frame: "kafka_write V t m w = (ke, w') \<Longrightarrow> keys w' = keys w \<and> clock w \<le> clock w' \<and> tables w' = tables w"
    and rand_frame: "rand_read V n w = (rr, w') \<Longrightarrow> keys w' = keys w \<and> clock w \<le> clock w'
      \<and> topic t w' = topic t w \<and> tables w' = tables w"
    and time_frame: "time_now V w = (now', w') \<Longrightarrow> topic t w' = topic t w \<and> tables w' = tables w"
    and begin_frame: "pg_begin V w = (ed, w') \<Longrightarrow> keys w' = keys w \<and> clock w \<le> clock w' \<and> topic t w' = topic t w"
    and store_frame: "keys (pg_store V d w) = keys w \<and> clock w \<le> clock (pg_store V d w)
      \<and> topic t (pg_store V d w) = topic t w"
begin

lemma sql_frame:
  assumes "run_state (sql V f) w = (r, w')"
  shows "keys w' = keys w \<and> clock w \<le> clock w' \<and> topic t w' = topic t w"
proof -
  obtain e d w1 where "pg_begin V w = ((e, d), w1)" "w' = pg_store V (snd (f e d)) w1"
    using assms by (auto simp: sql_def split: prod.splits)
  with begin_frame [OF this(1), of t] store_frame [of "snd (f e d)" w1 t] show ?thesis by auto
qed

end

text \<open>
  The consumer side of Kafka and the shutdown signal: fetching the next message of the group,
  committing an offset, and which comes first, the end of the context or that of a duration.
\<close>

record kafka_message =
  km_Topic :: string
  km_Partition :: int
  km_Offset :: int
  km_Key :: string
  km_Value :: string

datatype wake_up = CtxDone | TimerFired

record 'w consumer =
  fetch_message :: "'w \<Rightarrow> (goerr + kafka_message) \<times> 'w"
  commit_message :: "kafka_message \<Rightarrow> 'w \<Rightarrow> goerr option \<times> 'w"
  wait_first :: "int \<Rightarrow> 'w \<Rightarrow> wake_up \<times> 'w"

locale consumer_platform = platform L V keys clock topic tables
  for L :: "'n lua" and V :: "'w services" and keys :: "'w \<Rightarrow> store" and clock :: "'w \<Rightarrow> int"
    and topic :: "string \<Rightarrow> 'w \<Rightarrow> kmsg list" and tables :: "'w \<Rightarrow> db" +
  fixes R :: "'w consumer"
    and committed :: "'w \<Rightarrow> kafka_message list"
  assumes fetch_frame: "fetch_message R w = (fr, w') \<Longrightarrow> tables w' = tables w \<and> topic t w' = topic t w \<and> committed w' = committed w"
    and commit_ok: "commit_message R m w = (None, w') \<Longrightarrow> committed w' = committed w @ [m]"
    and commit_err: "commit_message R m w = (Some er, w') \<Longrightarrow> committed w' = committed w \<or> committed w' = committed w @ [m]"
    and commit_frame: "commit_message R m w = (cr, w') \<Longrightarrow> tables w' = tables w \<and> topic t w' = topic t w"
    and wait_frame: "wait_first R dur w = (sr, w') \<Longrightarrow> tables w' = tables w \<and> topic t w' = topic t w \<and> committed w' = committed w"
    and committed_kafka: "kafka_write V t km w = (ke, w') \<Longrightarrow> committed w' = committed w"
    and committed_time: "time_now V w = (tm, w') \<Longrightarrow> committed w' = committed w \<and> tables w' = tables w"
    and committed_begin: "pg_begin V w = (ed, w') \<Longrightarrow> committed w' = committed w"
    and committed_store: "committed (pg_store V d w) = committed w"
begin

lemma sql_committed: "run_state (sql V f) w = (r, w') \<Longrightarrow> committed w' = committed w"
  using committed_begin committed_store by (auto simp: sql_def split: prod.splits)

end

text \<open>A platform whose Redis answers every command; an error is then the command's own.\<close>

locale reliable_platform = platform +
  assumes reachable: "redis_cmd V c w = (r, w') \<Longrightarrow> failed_reply r
    \<Longrightarrow> failed_reply (fst (redis_effect L (clock w') c (live (clock w') (keys w))))"
begin

lemma executed:
  assumes "redis_cmd V c w = (r, w')"
    and "redis_effect L (clock w') c (live (clock w') (keys w)) = (x, s)" "\<not> failed_reply x"
  shows "r = x \<and> keys w' = s"
  using reachable [OF assms(1)] answered [OF assms(1)] assms(2,3) by auto

end

section \<open>Facts on live keys\<close>

lemma live_idem [simp]: "live t (live t s) = live t s"
  by (rule ext) (auto simp: live_def split: option.splits)

lemma live_None [simp]: "s k = None \<Longrightarrow> live t s k = None"
  by (simp add: live_def)

lemma live_persistent [simp]: "s k = Some (v, None) \<Longrightarrow> live t s k = Some (v, None)"
  by (simp add: live_def)

lemma live_deadline [simp]:
  "s k = Some (v, Some dl) \<Longrightarrow> live t s k = (if dl \<le> t then None else Some (v, Some dl))"
  by (simp add: live_def)

lemma redis_int_text [simp]: "int64 n \<Longrightarrow> redis_int (int_text n) = Some n"
  by (simp add: redis_int_def parse_int64_int_text)

lemma redis_int_Some: "redis_int v = Some n \<Longrightarrow> v = int_text n \<and> int64 n"
  by (auto simp: redis_int_def parse_int64_def Let_def split: option.splits if_splits prod.splits)

lemma incr_by_driver_err: "incr_by k n s = (RErr e, s') \<Longrightarrow> driver_err e"
  by (auto simp: incr_by_def not_an_integer_def split: option.splits prod.splits if_splits)

lemma decr_by_driver_err: "decr_by k a s = (RErr e, s') \<Longrightarrow> driver_err e"
  by (auto simp: decr_by_def not_an_integer_def split: option.splits if_splits dest: incr_by_driver_err)

lemma redis_effect_driver_err: "redis_effect L t c s = (RErr e, s') \<Longrightarrow> driver_err e"
  by (cases c)
    (auto simp: decrementScript_def split: option.splits prod.splits if_splits reply.splits
      dest: incr_by_driver_err decr_by_driver_err)

context lua_numbers
begin

text \<open>The script on a counter below \<open>2^53\<close>: compare and decrement, exactly, in one step.\<close>

lemma decrementScript_exact:
  assumes "s k = Some (int_text m, dl)" "\<bar>m\<bar> < 2 ^ 53" "0 < q" "int64 q"
  shows "decrementScript L k (int_text q) s =
    (if m < q then (RInt (- 2), s) else (RInt (m - q), s(k \<mapsto> (int_text (m - q), dl))))"
proof -
  have m: "int64 m" using assms(2) by (auto simp: int64_def int64_min_def int64_max_def)
  obtain x y where xy: "tonumber L (int_text m) = Some x" "tonumber L (int_text q) = Some y"
    using tonumber_int [OF m] tonumber_int [OF assms(4)] by auto
  have lt: "lua_lt L x y \<longleftrightarrow> m < q" using lt_exact [OF assms(2,4) xy] .
  show ?thesis
  proof (cases "m < q")
    case True
    then show ?thesis by (simp add: decrementScript_def assms(1) xy lt)
  next
    case False
    then have "\<bar>q\<bar> \<le> 2 ^ 53" "\<bar>m - q\<bar> \<le> 2 ^ 53" "int64 (m - q)"
      using assms(2,3) by (auto simp: int64_def int64_min_def int64_max_def)
    with False show ?thesis
      using text_exact [OF _ xy(2)] reply_exact [of "m - q"] assms(3,4) m
      by (simp add: decrementScript_def assms(1) xy lt decr_by_def incr_by_def int64_min_def)
  qed
qed

lemma decrementScript_missing: "s k = None \<Longrightarrow> decrementScript L k arg s = (RInt (- 1), s)"
  by (simp add: decrementScript_def)

end

end
