(* ===== verification/MemWorld.thy ===== *)
theory MemWorld
  imports World
begin

text \<open>
  An instance of the service interfaces: IEEE doubles on integer texts for Lua, and a world in
  memory with a key store, topics, tables, a clock and scripts of faults.  It shows that the laws of
  \<open>World\<close> can hold together, and it is what the witnesses run on.
\<close>

section \<open>Doubles\<close>

text \<open>The integers a double can hold: 53 significant bits, ties to even.\<close>

function excess_bits :: "int \<Rightarrow> nat" where
  "excess_bits m = (if m < 2 ^ 53 then 0 else Suc (excess_bits (m div 2)))"
  by pat_completeness auto
termination
  by (relation "measure nat") auto

declare excess_bits.simps [simp del]

definition round_div :: "int \<Rightarrow> int \<Rightarrow> int" where
  "round_div a b = (let q = a div b; r = a mod b in if 2 * r < b \<or> (2 * r = b \<and> even q) then q else q + 1)"

definition dbl :: "int \<Rightarrow> int" where
  "dbl n = (let k = excess_bits \<bar>n\<bar> in sgn n * (round_div \<bar>n\<bar> (2 ^ k) * 2 ^ k))"

definition double_lua :: "int lua" where
  "double_lua = \<lparr> tonumber = (\<lambda>s. map_option dbl (parse_int64 s)), lua_lt = (<), lua_text = int_text,
     lua_reply = dbl \<rparr>"

lemma excess_bits_small: "m < 2 ^ 53 \<Longrightarrow> excess_bits m = 0"
  by (subst excess_bits.simps) simp

lemma excess_bits_quotient: "2 ^ 53 \<le> m \<Longrightarrow> \<exists>k. excess_bits m = Suc k \<and> 2 ^ 52 \<le> m div 2 ^ Suc k"
proof (induction m rule: excess_bits.induct)
  case (1 m)
  show ?case
  proof (cases "m div 2 < 2 ^ 53")
    case True
    with 1 have "excess_bits m = Suc 0" by (subst excess_bits.simps) (simp add: excess_bits_small)
    with 1 show ?thesis by simp
  next
    case False
    with 1 obtain k where k: "excess_bits (m div 2) = Suc k" "2 ^ 52 \<le> m div 2 div 2 ^ Suc k" by force
    then have "excess_bits m = Suc (Suc k)" using 1 by (subst excess_bits.simps) simp
    moreover have "m div 2 div 2 ^ Suc k = m div 2 ^ Suc (Suc k)" using zdiv_zmult2_eq [of "2 ^ Suc k" m 2] by simp
    ultimately show ?thesis using k by simp
  qed
qed

lemma round_div_1 [simp]: "round_div m 1 = m"
  by (simp add: round_div_def)

lemma dbl_exact: "\<bar>n\<bar> < 2 ^ 53 \<Longrightarrow> dbl n = n"
  unfolding dbl_def by (simp only: excess_bits_small Let_def power_0 round_div_1 mult_1_right sgn_mult_abs)

lemma dbl_exact_limit: "\<bar>n\<bar> = 2 ^ 53 \<Longrightarrow> dbl n = n"
proof -
  assume n: "\<bar>n\<bar> = 2 ^ 53"
  have "excess_bits (2 ^ 53) = 1"
    by (simp add: excess_bits.simps [of "9007199254740992"] excess_bits_small)
  moreover have "round_div (2 ^ 53) 2 = 2 ^ 52" by (simp add: round_div_def)
  ultimately have "dbl n = sgn n * \<bar>n\<bar>" by (simp add: dbl_def n)
  then show ?thesis by (simp only: sgn_mult_abs)
qed

lemma dbl_exact_le: "\<bar>n\<bar> \<le> 2 ^ 53 \<Longrightarrow> dbl n = n"
  using dbl_exact [of n] dbl_exact_limit [of n] by (cases "\<bar>n\<bar> = 2 ^ 53") auto

lemma dbl_large:
  assumes "2 ^ 53 \<le> \<bar>n\<bar>"
  shows "2 ^ 53 \<le> sgn n * dbl n"
proof -
  obtain k where k: "excess_bits \<bar>n\<bar> = Suc k" "2 ^ 52 \<le> \<bar>n\<bar> div 2 ^ Suc k"
    using excess_bits_quotient [OF assms] by blast
  have "2 ^ 52 \<le> round_div \<bar>n\<bar> (2 ^ Suc k)"
    using k(2) by (auto simp: round_div_def Let_def)
  then have "2 ^ 52 * 2 ^ Suc k \<le> round_div \<bar>n\<bar> (2 ^ Suc k) * 2 ^ Suc k" by (intro mult_right_mono) auto
  moreover have "(2 :: int) ^ 53 \<le> 2 ^ 52 * 2 ^ Suc k" by simp
  moreover have "sgn n * dbl n = round_div \<bar>n\<bar> (2 ^ Suc k) * 2 ^ Suc k"
    using assms by (auto simp: dbl_def k(1) sgn_if)
  ultimately show ?thesis by linarith
qed

interpretation double_lua: lua_numbers double_lua
proof
  show "tonumber double_lua (int_text n) \<noteq> None" if "int64 n" for n
    using that by (simp add: double_lua_def parse_int64_int_text)
  have i64: "int64 n" if "\<bar>n\<bar> \<le> 2 ^ 53" for n
    using that by (auto simp: int64_def int64_min_def int64_max_def)
  show "lua_text double_lua x = int_text n"
    if "\<bar>n\<bar> \<le> 2 ^ 53" "tonumber double_lua (int_text n) = Some x" for n x
    using that i64 [OF that(1)] by (auto simp: double_lua_def parse_int64_int_text dbl_exact_le)
  show "lua_reply double_lua n = n" if "\<bar>n\<bar> \<le> 2 ^ 53" for n
    using that by (simp add: double_lua_def dbl_exact_le)
  show "lua_lt double_lua x y \<longleftrightarrow> m < n"
    if "\<bar>m\<bar> < 2 ^ 53" "int64 n" "tonumber double_lua (int_text m) = Some x"
      "tonumber double_lua (int_text n) = Some y" for m n x y
  proof -
    have "x = m" "y = dbl n"
      using that i64 [of m] by (auto simp: double_lua_def parse_int64_int_text dbl_exact)
    moreover have "m < dbl n \<longleftrightarrow> m < n"
      using that(1) dbl_exact [of n] dbl_large [of n] by (cases "\<bar>n\<bar> < 2 ^ 53") (auto simp: sgn_if split: if_splits)
    ultimately show ?thesis by (simp add: double_lua_def)
  qed
qed

section \<open>A world in memory\<close>

text \<open>
  Each script entry is the error of one call and what happened nevertheless: whether the Redis
  command was executed, how often the Kafka message was appended.
\<close>

record mem =
  m_store :: store
  m_clock :: int
  m_topics :: "string \<Rightarrow> kmsg list"
  m_db :: db
  m_redis_faults :: "(string \<times> bool) option list"
  m_kafka_faults :: "(goerr \<times> nat) option list"
  m_tx :: "tx_env list"
  m_rand :: "nat list"
  m_inbox :: "(goerr + kafka_message) list"
  m_committed :: "kafka_message list"
  m_commit_faults :: "(goerr \<times> bool) option list"
  m_sleeps :: "nat option"

definition pop :: "'a \<Rightarrow> 'a list \<Rightarrow> 'a \<times> 'a list" where
  "pop x xs = (case xs of [] \<Rightarrow> (x, []) | y # ys \<Rightarrow> (y, ys))"

definition quiet_env :: "int \<Rightarrow> tx_env" where
  "quiet_env t = \<lparr> new_uuid = 100, tx_now = t, go_now = t, fault = (\<lambda>_. None), commit_applied = False \<rparr>"

definition mem_redis :: "rcmd \<Rightarrow> mem \<Rightarrow> reply \<times> mem" where
  "mem_redis c w =
     (let t = m_clock w + Millisecond;
          s = live t (m_store w);
          (f, fs) = pop None (m_redis_faults w);
          (r, s') = redis_effect double_lua t c s;
          w' = w\<lparr>m_clock := t, m_redis_faults := fs\<rparr>
      in case f of
           None \<Rightarrow> (r, w'\<lparr>m_store := s'\<rparr>)
         | Some (er, applied) \<Rightarrow> (RErr (PlainErr er), w'\<lparr>m_store := if applied then s' else s\<rparr>))"

definition mem_kafka :: "string \<Rightarrow> kmsg \<Rightarrow> mem \<Rightarrow> goerr option \<times> mem" where
  "mem_kafka t m w =
     (let (f, fs) = pop None (m_kafka_faults w);
          n = (case f of None \<Rightarrow> 1 | Some (er, n) \<Rightarrow> n)
      in (map_option fst f,
          w\<lparr>m_kafka_faults := fs, m_topics := (m_topics w)(t := m_topics w t @ replicate n m)\<rparr>))"

definition mem_services :: "mem services" where
  "mem_services =
     \<lparr> redis_cmd = mem_redis,
       kafka_write = mem_kafka,
       rand_read = (\<lambda>n w. (if n \<le> length (m_rand w) then Inr (take n (m_rand w)) else Inl (PlainErr ''rand: read failed''),
                           w\<lparr>m_rand := drop n (m_rand w)\<rparr>)),
       time_now = (\<lambda>w. (m_clock w, w)),
       pg_begin = (\<lambda>w. let (e, es) = pop (quiet_env (m_clock w)) (m_tx w) in ((e, m_db w), w\<lparr>m_tx := es\<rparr>)),
       pg_store = (\<lambda>d w. w\<lparr>m_db := d\<rparr>) \<rparr>"

lemma mem_services_sel [simp]:
  "redis_cmd mem_services = mem_redis" "kafka_write mem_services = mem_kafka"
  "pg_store mem_services d w = w\<lparr>m_db := d\<rparr>" "time_now mem_services w = (m_clock w, w)"
  by (simp_all add: mem_services_def)

lemma mem_sql:
  "run_state (sql mem_services f) w =
     (let (e, es) = pop (quiet_env (m_clock w)) (m_tx w); (r, d) = f e (m_db w)
      in (r, w\<lparr>m_tx := es, m_db := d\<rparr>))"
  by (simp add: sql_def mem_services_def Let_def split: prod.split)

interpretation mem: redis_service double_lua mem_services m_store m_clock
proof
  show "m_clock w \<le> m_clock (snd (redis_cmd mem_services c w))" for c w
    by (simp add: mem_redis_def Let_def duration_defs split: prod.split option.split)
  show "redis_effect double_lua (m_clock w') c (live (m_clock w') (m_store w)) = (r, m_store w')"
    if "redis_cmd mem_services c w = (r, w')" "\<not> failed_reply r" for c w r w'
    using that by (auto simp: mem_redis_def Let_def split: prod.splits option.splits)
  show "m_store w' = live (m_clock w') (m_store w)
      \<or> m_store w' = snd (redis_effect double_lua (m_clock w') c (live (m_clock w') (m_store w)))"
    if "redis_cmd mem_services c w = (r, w')" "failed_reply r" for c w r w'
    using that by (auto simp: mem_redis_def Let_def split: prod.splits option.splits)
  show "driver_err e" if "redis_cmd mem_services c w = (RErr e, w')" for c w e w'
    using that by (auto simp: mem_redis_def Let_def split: prod.splits option.splits dest: redis_effect_driver_err)
  show "m_store (snd (time_now mem_services w)) = m_store w
      \<and> m_clock w \<le> m_clock (snd (time_now mem_services w))" for w
    by simp
qed

interpretation mem: kafka_service mem_services "\<lambda>t w. m_topics w t"
proof
  show "\<exists>n. m_topics w' t = m_topics w t @ replicate (Suc n) m"
    if "kafka_write mem_services t m w = (None, w')" for t m w w'
    using that by (intro exI [of _ 0]) (auto simp: mem_kafka_def Let_def split: prod.splits option.splits)
  show "\<exists>n. m_topics w' t = m_topics w t @ replicate n m"
    if "kafka_write mem_services t m w = (Some er, w')" for t m w er w'
    using that by (auto simp: mem_kafka_def Let_def split: prod.splits option.splits)
  show "m_topics (snd (kafka_write mem_services t m w)) t' = m_topics w t'" if "t' \<noteq> t" for t t' m w
    using that by (auto simp: mem_kafka_def Let_def split: prod.splits)
qed

interpretation mem: postgres_service mem_services m_db
  by unfold_locales (auto simp: mem_services_def Let_def split: prod.splits)

interpretation mem: platform double_lua mem_services m_store m_clock "\<lambda>t w. m_topics w t" m_db
  by unfold_locales
    (auto simp: mem_redis_def mem_kafka_def mem_services_def Let_def split: prod.splits option.splits)

text \<open>
  Its consumer: messages are fetched from a list, then fetching is cancelled; a sleep takes its time,
  and the context is done after \<open>m_sleeps\<close> of them when that is given.
\<close>

definition mem_consumer :: "mem consumer" where
  "mem_consumer =
     \<lparr> fetch_message = (\<lambda>w. case m_inbox w of [] \<Rightarrow> (Inl ErrCanceled, w) | x # xs \<Rightarrow> (x, w\<lparr>m_inbox := xs\<rparr>)),
       commit_message = (\<lambda>m w. let (f, fs) = pop None (m_commit_faults w); w' = w\<lparr>m_commit_faults := fs\<rparr> in
          case f of None \<Rightarrow> (None, w'\<lparr>m_committed := m_committed w @ [m]\<rparr>)
          | Some (er, applied) \<Rightarrow> (Some er, if applied then w'\<lparr>m_committed := m_committed w @ [m]\<rparr> else w')),
       wait_first = (\<lambda>dur w. case m_sleeps w of
            None \<Rightarrow> (TimerFired, w\<lparr>m_clock := m_clock w + max 0 dur\<rparr>)
          | Some 0 \<Rightarrow> (CtxDone, w)
          | Some (Suc n) \<Rightarrow> (TimerFired, w\<lparr>m_clock := m_clock w + max 0 dur, m_sleeps := Some n\<rparr>)) \<rparr>"

interpretation mem: consumer_platform double_lua mem_services m_store m_clock "\<lambda>t w. m_topics w t" m_db
    mem_consumer m_committed
  by unfold_locales
    (auto simp: mem_consumer_def mem_kafka_def mem_services_def Let_def split: prod.splits option.splits list.splits nat.splits if_splits)

text \<open>The same world with a Redis that never fails.\<close>

definition calm_services :: "mem services" where
  "calm_services = mem_services\<lparr>redis_cmd := (\<lambda>c w. mem_redis c (w\<lparr>m_redis_faults := []\<rparr>))\<rparr>"

interpretation calm: reliable_platform double_lua calm_services m_store m_clock "\<lambda>t w. m_topics w t" m_db
proof
  have calm: "redis_cmd calm_services c w = redis_cmd mem_services c (w\<lparr>m_redis_faults := []\<rparr>)" for c w
    by (simp add: calm_services_def)
  have same: "kafka_write calm_services = kafka_write mem_services" "rand_read calm_services = rand_read mem_services"
    "time_now calm_services = time_now mem_services" "pg_begin calm_services = pg_begin mem_services"
    "pg_store calm_services = pg_store mem_services"
    by (simp_all add: calm_services_def)
  fix c w r w' e
  show "m_clock w \<le> m_clock (snd (redis_cmd calm_services c w))"
    using mem.clock_mono [of "w\<lparr>m_redis_faults := []\<rparr>" c] by (simp add: calm)
  show "redis_effect double_lua (m_clock w') c (live (m_clock w') (m_store w)) = (r, m_store w')"
    if "redis_cmd calm_services c w = (r, w')" "\<not> failed_reply r"
    using mem.answered [OF that(1) [unfolded calm] that(2)] by simp
  show "m_store w' = live (m_clock w') (m_store w)
      \<or> m_store w' = snd (redis_effect double_lua (m_clock w') c (live (m_clock w') (m_store w)))"
    if "redis_cmd calm_services c w = (r, w')" "failed_reply r"
    using mem.unanswered [OF that(1) [unfolded calm] that(2)] by simp
  show "driver_err e" if "redis_cmd calm_services c w = (RErr e, w')"
    using mem.driver_errors [OF that [unfolded calm]] .
  show "m_store (snd (time_now calm_services w)) = m_store w \<and> m_clock w \<le> m_clock (snd (time_now calm_services w))"
    by (simp add: same)
  fix t m n d t' ke rr now' ed er
  show "m_topics w' t = m_topics w t \<and> m_db w' = m_db w" if "redis_cmd calm_services c w = (r, w')"
    using mem.redis_frame [OF that [unfolded calm]] by simp
  show "\<exists>n. m_topics w' t = m_topics w t @ replicate (Suc n) m" if "kafka_write calm_services t m w = (None, w')"
    using mem.acknowledged [OF that [unfolded same]] .
  show "failed_reply (fst (redis_effect double_lua (m_clock w') c (live (m_clock w') (m_store w))))"
    if "redis_cmd calm_services c w = (r, w')" "failed_reply r"
    using that by (auto simp: calm mem_redis_def pop_def Let_def split: prod.splits)
qed (simp_all add: calm_services_def mem.unacknowledged mem.other_topics mem.begin_tables
      mem.store_tables mem.kafka_frame mem.rand_frame mem.time_frame mem.begin_frame mem.store_frame
      del: mem_services_sel)

text \<open>The world in memory with a broker that takes every message, and a clock of this age.\<close>

definition steady_services :: "mem services" where
  "steady_services = mem_services\<lparr>kafka_write := (\<lambda>t m w. mem_kafka t m (w\<lparr>m_kafka_faults := []\<rparr>)),
     time_now := (\<lambda>w. (max 0 (min (m_clock w) (10 ^ 20)), w))\<rparr>"

lemma steady_same [simp]:
  "redis_cmd steady_services = mem_redis" "rand_read steady_services = rand_read mem_services"
  "time_now steady_services w = (max 0 (min (m_clock w) (10 ^ 20)), w)" "pg_begin steady_services = pg_begin mem_services"
  "pg_store steady_services = pg_store mem_services"
  "kafka_write steady_services t m w = (None, w\<lparr>m_kafka_faults := [], m_topics := (m_topics w)(t := m_topics w t @ [m])\<rparr>)"
  by (simp_all add: steady_services_def mem_kafka_def pop_def)

interpretation steady: consumer_platform double_lua steady_services m_store m_clock "\<lambda>t w. m_topics w t" m_db
    mem_consumer m_committed
proof
  fix c w r w' e d t m n rr now' ed tm t' er ke
  show "m_clock w \<le> m_clock (snd (redis_cmd steady_services c w))"
    using mem.clock_mono [of w c] by simp
  show "redis_effect double_lua (m_clock w') c (live (m_clock w') (m_store w)) = (r, m_store w')"
    if "redis_cmd steady_services c w = (r, w')" "\<not> failed_reply r"
    using mem.answered [of c w r w'] that by simp
  show "m_store w' = live (m_clock w') (m_store w)
      \<or> m_store w' = snd (redis_effect double_lua (m_clock w') c (live (m_clock w') (m_store w)))"
    if "redis_cmd steady_services c w = (r, w')" "failed_reply r"
    using mem.unanswered [of c w r w'] that by simp
  show "driver_err e" if "redis_cmd steady_services c w = (RErr e, w')"
    using mem.driver_errors [of c w e w'] that by simp
  show "m_topics w' t = m_topics w t \<and> m_db w' = m_db w" if "redis_cmd steady_services c w = (r, w')"
    using mem.redis_frame [of c w r w' t] that by simp
  show "\<exists>n. m_topics w' t = m_topics w t @ replicate (Suc n) m"
    if "kafka_write steady_services t m w = (None, w')" using that by (auto intro: exI [of _ 0])
  show "m_store w' = m_store w \<and> m_clock w \<le> m_clock w' \<and> m_db w' = m_db w"
    if "kafka_write steady_services t m w = (ke, w')" using that by auto
  show "m_committed w' = m_committed w" if "kafka_write steady_services t m w = (ke, w')" using that by auto
qed (simp_all add: mem.begin_tables mem.store_tables mem.rand_frame mem.time_frame mem.begin_frame mem.store_frame
      mem.time_local mem.fetch_frame mem.commit_ok mem.commit_err mem.commit_frame mem.wait_frame
      mem.committed_time mem.committed_begin mem.committed_store del: mem_services_sel)

end
