(* ===== verification/KafkaX.thy ===== *)
theory KafkaX
  imports MemWorld
begin

text \<open>
  Package \<open>internal/kafkax\<close>: the topics and their events (\<open>event.go\<close>, \<open>waitingroom_event.go\<close>,
  \<open>dlq.go\<close>), the writers (\<open>producer.go\<close>, \<open>waitingroom_producer.go\<close>, \<open>dlq.go\<close>), the decoder
  (\<open>consumer.go\<close>) and the idempotency key.  The bytes of \<open>encoding/json\<close> are a parameter, the record
  \<open>codec\<close>.  The lemmas show what an acknowledged publication leaves in its topic, and that distinct
  random draws give distinct idempotency keys.
\<close>

section \<open>Topics and events\<close>

definition CheckoutAttemptsTopic :: string where
  "CheckoutAttemptsTopic = ''checkout-attempts''"

definition DeadLetterTopic :: string where
  "DeadLetterTopic = ''checkout-attempts-dlq''"

definition WaitingRoomJoinsTopic :: string where
  "WaitingRoomJoinsTopic = ''waiting-room-joins''"

record purchase_attempted =
  pa_ItemID :: string
  pa_UserID :: string
  pa_Quantity :: int
  pa_IdempotencyKey :: string
  pa_AttemptedAt :: int

record buyer_joined =
  bj_ItemID :: string
  bj_UserID :: string
  bj_RemoteAddr :: string
  bj_JoinedAt :: int

record dead_letter =
  dl_OriginalTopic :: string
  dl_OriginalPartition :: int
  dl_OriginalOffset :: int
  dl_OriginalKey :: string
  dl_OriginalValue :: string
  dl_Reason :: string
  dl_AttemptCount :: int
  dl_FailedAt :: int

text \<open>\<open>json.Marshal\<close> and \<open>json.Unmarshal\<close> at the event types.\<close>

record codec =
  marshal_attempt :: "purchase_attempted \<Rightarrow> goerr + string"
  unmarshal_attempt :: "string \<Rightarrow> goerr + purchase_attempted"
  marshal_joined :: "buyer_joined \<Rightarrow> goerr + string"
  unmarshal_joined :: "string \<Rightarrow> goerr + buyer_joined"
  marshal_dead :: "dead_letter \<Rightarrow> goerr + string"

section \<open>Writers\<close>

datatype balancer = HashBalancer | DefaultBalancer

datatype acks = DefaultAcks | RequireOne | RequireAll

record writer =
  w_Addr :: "string list"
  w_Topic :: string
  w_Balancer :: balancer
  w_RequiredAcks :: acks
  w_Async :: bool
  w_MaxAttempts :: int
  w_WriteBackoffMin :: int
  w_WriteBackoffMax :: int

definition NewWriter :: "string list \<Rightarrow> writer" where
  "NewWriter brokers =
     \<lparr> w_Addr = brokers, w_Topic = CheckoutAttemptsTopic, w_Balancer = HashBalancer,
       w_RequiredAcks = RequireOne, w_Async = False, w_MaxAttempts = 5,
       w_WriteBackoffMin = 100 * Millisecond, w_WriteBackoffMax = 2 * Second \<rparr>"

definition NewWaitingRoomWriter :: "string list \<Rightarrow> writer" where
  "NewWaitingRoomWriter brokers =
     \<lparr> w_Addr = brokers, w_Topic = WaitingRoomJoinsTopic, w_Balancer = HashBalancer,
       w_RequiredAcks = RequireOne, w_Async = False, w_MaxAttempts = 5,
       w_WriteBackoffMin = 100 * Millisecond, w_WriteBackoffMax = 2 * Second \<rparr>"

text \<open>Fields the Go literal leaves out are zero, which the library reads as its default.\<close>

definition NewDLQWriter :: "string list \<Rightarrow> writer" where
  "NewDLQWriter brokers =
     \<lparr> w_Addr = brokers, w_Topic = DeadLetterTopic, w_Balancer = DefaultBalancer,
       w_RequiredAcks = RequireOne, w_Async = False, w_MaxAttempts = 0,
       w_WriteBackoffMin = 0, w_WriteBackoffMax = 0 \<rparr>"

record reader_config =
  rd_Brokers :: "string list"
  rd_Topic :: string
  rd_GroupID :: string
  rd_MinBytes :: int
  rd_MaxBytes :: int

definition NewReader :: "string list \<Rightarrow> string \<Rightarrow> reader_config" where
  "NewReader brokers groupID =
     \<lparr> rd_Brokers = brokers, rd_Topic = CheckoutAttemptsTopic, rd_GroupID = groupID,
       rd_MinBytes = 1, rd_MaxBytes = 10000000 \<rparr>"

section \<open>Publishing and decoding\<close>

definition PublishAttempt ::
  "codec \<Rightarrow> 'w services \<Rightarrow> writer \<Rightarrow> purchase_attempted \<Rightarrow> ('w, goerr option) io" where
  "PublishAttempt C V w attempt =
     (case marshal_attempt C attempt of
        Inl err \<Rightarrow> ret (Some (wrap_err ''kafkax: marshaling attempt: '' err))
      | Inr value \<Rightarrow> do {
          r \<leftarrow> kafka V (w_Topic w) \<lparr> msg_key = pa_ItemID attempt, msg_value = value \<rparr>;
          ret (map_option (wrap_err (''kafkax: publishing attempt for item '' @ pa_ItemID attempt @ '': '')) r)
        })"

definition PublishBuyerJoined ::
  "codec \<Rightarrow> 'w services \<Rightarrow> writer \<Rightarrow> buyer_joined \<Rightarrow> ('w, goerr option) io" where
  "PublishBuyerJoined C V w event =
     (case marshal_joined C event of
        Inl err \<Rightarrow> ret (Some (wrap_err ''kafkax: marshaling buyer-joined event: '' err))
      | Inr value \<Rightarrow> do {
          r \<leftarrow> kafka V (w_Topic w) \<lparr> msg_key = bj_UserID event, msg_value = value \<rparr>;
          ret (map_option (wrap_err (''kafkax: publishing buyer-joined event for user ''
            @ bj_UserID event @ '': '')) r)
        })"

definition PublishDeadLetter ::
  "codec \<Rightarrow> 'w services \<Rightarrow> writer \<Rightarrow> dead_letter \<Rightarrow> ('w, goerr option) io" where
  "PublishDeadLetter C V w dl =
     (case marshal_dead C dl of
        Inl err \<Rightarrow> ret (Some (wrap_err ''kafkax: marshaling dead letter: '' err))
      | Inr value \<Rightarrow> do {
          r \<leftarrow> kafka V (w_Topic w) \<lparr> msg_key = dl_OriginalKey dl, msg_value = value \<rparr>;
          ret (map_option (wrap_err ''kafkax: publishing dead letter: '') r)
        })"

definition DecodeAttempt :: "codec \<Rightarrow> string \<Rightarrow> goerr + purchase_attempted" where
  "DecodeAttempt C value =
     (case unmarshal_attempt C value of
        Inl err \<Rightarrow> Inl (wrap_err ''kafkax: decoding attempt: '' err)
      | Inr attempt \<Rightarrow> Inr attempt)"

definition DecodeBuyerJoined :: "codec \<Rightarrow> string \<Rightarrow> goerr + buyer_joined" where
  "DecodeBuyerJoined C value =
     (case unmarshal_joined C value of
        Inl err \<Rightarrow> Inl (wrap_err ''kafkax: decoding buyer-joined event: '' err)
      | Inr event \<Rightarrow> Inr event)"

section \<open>Idempotency keys\<close>

text \<open>\<open>%x\<close> of a byte slice: two lower-case hexadecimal digits per byte.\<close>

definition hex_bytes :: "nat list \<Rightarrow> string" where
  "hex_bytes bs = concat (map (hex_text 2) bs)"

definition idempotency_key :: "nat list \<Rightarrow> string" where
  "idempotency_key b =
     hex_bytes (take 4 b) @ ''-'' @ hex_bytes (take 2 (drop 4 b)) @ ''-'' @ hex_bytes (take 2 (drop 6 b))
     @ ''-'' @ hex_bytes (take 2 (drop 8 b)) @ ''-'' @ hex_bytes (take 6 (drop 10 b))"

definition NewIdempotencyKey :: "'w services \<Rightarrow> ('w, goerr + string) io" where
  "NewIdempotencyKey V = do {
     r \<leftarrow> rand V 16;
     ret (case r of
            Inl err \<Rightarrow> Inl (wrap_err ''kafkax: generating idempotency key: '' err)
          | Inr b \<Rightarrow> Inr (idempotency_key b))
   }"

lemmas kafkax_defs [go_defs] =
  PublishAttempt_def PublishBuyerJoined_def PublishDeadLetter_def DecodeAttempt_def
  DecodeBuyerJoined_def NewIdempotencyKey_def

section \<open>Facts\<close>

lemma length_hex_bytes [simp]: "length (hex_bytes bs) = 2 * length bs"
  by (induction bs) (simp_all add: hex_bytes_def)

lemma hex_text_2_inj:
  assumes "a < 256" "b < 256" "hex_text 2 a = hex_text 2 b"
  shows "a = b"
proof -
  have "read_hex 0 (hex_text 2 n) = Some n" if "n < 256" for n
  proof -
    have "n mod 16 ^ 2 = n" using that by simp
    then show ?thesis by (simp only: read_hex_text)
  qed
  then have "Some a = Some b" using assms by metis
  then show ?thesis by (rule option.inject [THEN iffD1])
qed

lemma hex_bytes_inj:
  assumes "length as = length bs" "\<forall>a\<in>set as. a < 256" "\<forall>b\<in>set bs. b < 256" "hex_bytes as = hex_bytes bs"
  shows "as = bs"
  using assms
proof (induction as bs rule: list_induct2)
  case Nil
  then show ?case by simp
next
  case (Cons a as b bs)
  have "hex_text 2 a @ hex_bytes as = hex_text 2 b @ hex_bytes bs"
    using Cons.prems(3) by (simp only: hex_bytes_def list.map concat.simps)
  then have "hex_text 2 a = hex_text 2 b \<and> hex_bytes as = hex_bytes bs"
    by (rule append_eq_append_conv [THEN iffD1, rotated]) (simp only: length_hex_text simp_thms)
  moreover from this have "a = b" using Cons.prems(1,2) by (intro hex_text_2_inj) auto
  ultimately show ?case using Cons.IH Cons.prems(1,2) by simp
qed

lemma split_16:
  "length b = 16 \<Longrightarrow> take 4 b @ take 2 (drop 4 b) @ take 2 (drop 6 b) @ take 2 (drop 8 b) @ take 6 (drop 10 b) = b"
  by (simp flip: take_add add: append_assoc [symmetric] del: append_assoc)

context kafka_service
begin

lemma PublishAttempt_acknowledged:
  assumes "run_state (PublishAttempt C V wr a) w = (None, w')"
  shows "\<exists>v n. marshal_attempt C a = Inr v
    \<and> topic (w_Topic wr) w' = topic (w_Topic wr) w @ replicate (Suc n) \<lparr> msg_key = pa_ItemID a, msg_value = v \<rparr>"
  using assms acknowledged
  by (auto simp: PublishAttempt_def split: sum.splits prod.splits)

end

lemma idempotency_key_inj:
  assumes "length a = 16" "length b = 16" "\<forall>x\<in>set a. x < 256" "\<forall>x\<in>set b. x < 256"
    and eq: "idempotency_key a = idempotency_key b"
  shows "a = b"
proof -
  have part: "take k (drop m a) = take k (drop m b)"
    if "hex_bytes (take k (drop m a)) = hex_bytes (take k (drop m b))" for k m
    using that assms(1-4) by (intro hex_bytes_inj) (auto dest!: in_set_takeD in_set_dropD)
  define h where "h = (\<lambda>k m b. hex_bytes (take k (drop m b)))"
  have len: "length (h k m a) = length (h k m b)" for k m
    unfolding h_def using assms(1,2) by simp
  have "h 4 0 a @ ''-'' @ h 2 4 a @ ''-'' @ h 2 6 a @ ''-'' @ h 2 8 a @ ''-'' @ h 6 10 a
    = h 4 0 b @ ''-'' @ h 2 4 b @ ''-'' @ h 2 6 b @ ''-'' @ h 2 8 b @ ''-'' @ h 6 10 b"
    using eq unfolding idempotency_key_def h_def drop_0 .
  then have "h 4 0 a = h 4 0 b \<and> h 2 4 a = h 2 4 b \<and> h 2 6 a = h 2 6 b \<and> h 2 8 a = h 2 8 b \<and> h 6 10 a = h 6 10 b"
    using len [of 4 0] len [of 2 4] len [of 2 6] len [of 2 8] by simp
  then have "take 4 (drop 0 a) @ take 2 (drop 4 a) @ take 2 (drop 6 a) @ take 2 (drop 8 a) @ take 6 (drop 10 a)
    = take 4 (drop 0 b) @ take 2 (drop 4 b) @ take 2 (drop 6 b) @ take 2 (drop 8 b) @ take 6 (drop 10 b)"
    unfolding h_def by (elim conjE) (intro arg_cong2 [where f = "(@)"] part; assumption)
  then show ?thesis
    unfolding drop_0 split_16 [OF assms(1)] split_16 [OF assms(2)] .
qed

section \<open>Properties\<close>

text \<open>
  Two idempotency keys are equal only if the random source returned the same 16 bytes twice: the
  printed form loses nothing, so keys collide no more often than 128 random bits do.
\<close>

theorem NewIdempotencyKey_injective:
  assumes "rand_read V 16 w1 = (Inr b1, w1')" "rand_read V 16 w2 = (Inr b2, w2')"
    and "length b1 = 16" "length b2 = 16" "\<forall>x\<in>set b1. x < 256" "\<forall>x\<in>set b2. x < 256"
  shows "fst (run_state (NewIdempotencyKey V) w1) = fst (run_state (NewIdempotencyKey V) w2) \<longleftrightarrow> b1 = b2"
  using assms idempotency_key_inj by (auto simp: NewIdempotencyKey_def)

theorem NewIdempotencyKey_injective_witness:
  "\<exists>w1 w2 :: mem. fst (run_state (NewIdempotencyKey mem_services) w1)
      \<noteq> fst (run_state (NewIdempotencyKey mem_services) w2)"
proof -
  define w :: "nat \<Rightarrow> mem" where "w = (\<lambda>x.
     \<lparr> m_store = Map.empty, m_clock = 0, m_topics = (\<lambda>t. []), m_db = \<lparr> items = [], reservations = [] \<rparr>,
       m_redis_faults = [], m_kafka_faults = [], m_tx = [], m_rand = replicate 16 x,
       m_inbox = [], m_committed = [], m_commit_faults = [], m_sleeps = None \<rparr>)"
  have r: "rand_read mem_services 16 (w x) = (Inr (replicate 16 x), w x\<lparr>m_rand := []\<rparr>)" for x
    by (simp add: mem_services_def w_def)
  have "fst (run_state (NewIdempotencyKey mem_services) (w 0)) = fst (run_state (NewIdempotencyKey mem_services) (w 1))
      \<longleftrightarrow> replicate 16 (0::nat) = replicate 16 1"
    by (rule NewIdempotencyKey_injective [OF r r]) auto
  moreover have "replicate 16 (0::nat) \<noteq> replicate 16 1" by simp
  ultimately show ?thesis by blast
qed

end
