(* ===== verification/RedisX.thy ===== *)
theory RedisX
  imports MemWorld
begin

text \<open>
  Package \<open>internal/redisx\<close>: admission tokens (\<open>tokens.go\<close>), the fast-path inventory counter
  (\<open>inventory.go\<close>, whose Lua script is \<open>decrementScript\<close> in \<open>World\<close>), the queue-depth cache
  (\<open>queue.go\<close>) and the risk-score cache (\<open>risk.go\<close>).  Inside \<open>redis_service\<close> the lemmas give the
  effect of each function on the live keys, also when the answer of the command is lost.
\<close>

section \<open>Reading replies\<close>

text \<open>\<open>Err()\<close>, \<open>Result()\<close> and \<open>Int64()\<close> of the reply to a command.\<close>

fun reply_err :: "reply \<Rightarrow> goerr option" where
  "reply_err (RErr e) = Some e"
| "reply_err RNil = Some RedisNil"
| "reply_err _ = None"

definition unexpected_reply :: goerr where
  "unexpected_reply = PlainErr ''redis: unexpected reply type''"

fun reply_string :: "reply \<Rightarrow> goerr + string" where
  "reply_string (RErr e) = Inl e"
| "reply_string RNil = Inl RedisNil"
| "reply_string (RBulk v) = Inr v"
| "reply_string _ = Inl unexpected_reply"

fun reply_int64 :: "reply \<Rightarrow> goerr + int" where
  "reply_int64 (RErr e) = Inl e"
| "reply_int64 RNil = Inl RedisNil"
| "reply_int64 (RBulk v) =
     (case parse_int64 v of None \<Rightarrow> Inl (PlainErr (''strconv.ParseInt: parsing '' @ v)) | Some n \<Rightarrow> Inr n)"
| "reply_int64 (RInt n) = Inr n"
| "reply_int64 ROk = Inl unexpected_reply"

text \<open>A nil error, or an error.\<close>

abbreviation errorless :: "goerr option \<Rightarrow> goerr + unit" where
  "errorless e \<equiv> (case e of None \<Rightarrow> Inr () | Some er \<Rightarrow> Inl er)"

section \<open>Inventory counter\<close>

definition ErrInventoryNotFound :: goerr where
  "ErrInventoryNotFound = SentinelErr ''redisx: inventory not found for item''"

definition ErrInsufficientInventory :: goerr where
  "ErrInsufficientInventory = SentinelErr ''redisx: insufficient inventory''"

definition SeedInventory :: "'w services \<Rightarrow> string \<Rightarrow> int \<Rightarrow> ('w, goerr + unit) io" where
  "SeedInventory V itemID avail =
     (if avail < 0 then
        ret (Inl (PlainErr (''redisx: cannot seed negative inventory ('' @ int_text avail
          @ '') for item '' @ itemID)))
      else do {
        r \<leftarrow> redis V (SET (InventoryKey itemID) (int_text avail) 0);
        ret (errorless (reply_err r))
      })"

definition GetInventory :: "'w services \<Rightarrow> string \<Rightarrow> ('w, goerr + int) io" where
  "GetInventory V itemID = do {
     r \<leftarrow> redis V (GET (InventoryKey itemID));
     ret (case reply_int64 r of
            Inl err \<Rightarrow>
              if errors_is err RedisNil then Inl ErrInventoryNotFound
              else Inl (wrap_err (''redisx: reading inventory for item '' @ itemID @ '': '') err)
          | Inr n \<Rightarrow> Inr n)
   }"

definition TryDecrementInventory :: "'w services \<Rightarrow> string \<Rightarrow> int \<Rightarrow> ('w, goerr + int) io" where
  "TryDecrementInventory V itemID quantity =
     (if quantity \<le> 0 then
        ret (Inl (PlainErr (''redisx: quantity must be positive, got '' @ int_text quantity)))
      else do {
        r \<leftarrow> redis V (EVAL_DECREMENT (InventoryKey itemID) (int_text quantity));
        ret (case reply_int64 r of
               Inl err \<Rightarrow> Inl (wrap_err (''redisx: decrementing inventory for item '' @ itemID @ '': '') err)
             | Inr res \<Rightarrow>
                 if res = - 1 then Inl ErrInventoryNotFound
                 else if res = - 2 then Inl ErrInsufficientInventory
                 else Inr res)
      })"

definition ReleaseInventory :: "'w services \<Rightarrow> string \<Rightarrow> int \<Rightarrow> ('w, goerr + unit) io" where
  "ReleaseInventory V itemID quantity =
     (if quantity \<le> 0 then
        ret (Inl (PlainErr (''redisx: quantity must be positive, got '' @ int_text quantity)))
      else do {
        r \<leftarrow> redis V (INCRBY (InventoryKey itemID) quantity);
        ret (errorless (reply_err r))
      })"

section \<open>Admission tokens\<close>

definition GrantAdmission :: "'w services \<Rightarrow> string \<Rightarrow> string \<Rightarrow> int \<Rightarrow> ('w, goerr + unit) io" where
  "GrantAdmission V itemID userID ttl =
     (if ttl \<le> 0 then
        ret (Inl (PlainErr (''redisx: admission ttl must be positive, got '' @ duration_text ttl)))
      else do {
        t \<leftarrow> now V;
        r \<leftarrow> redis V (SET (AdmissionKey itemID userID) (rfc3339 t) ttl);
        ret (errorless (reply_err r))
      })"

definition ConsumeAdmission :: "'w services \<Rightarrow> string \<Rightarrow> string \<Rightarrow> ('w, goerr + bool) io" where
  "ConsumeAdmission V itemID userID = do {
     r \<leftarrow> redis V (GETDEL (AdmissionKey itemID userID));
     ret (case reply_err r of
            Some err \<Rightarrow>
              if errors_is err RedisNil then Inr False
              else Inl (wrap_err (''redisx: consuming admission token for item '' @ itemID @ '' user ''
                @ userID @ '': '') err)
          | None \<Rightarrow> Inr True)
   }"

section \<open>Queue depth and risk scores\<close>

definition SetQueueDepth :: "'w services \<Rightarrow> string \<Rightarrow> int \<Rightarrow> ('w, goerr + unit) io" where
  "SetQueueDepth V itemID depth =
     (if depth < 0 then
        ret (Inl (PlainErr (''redisx: queue depth must not be negative, got '' @ int_text depth)))
      else do {
        r \<leftarrow> redis V (SET (QueueDepthKey itemID) (int_text depth) 0);
        ret (errorless (reply_err r))
      })"

definition GetQueueDepth :: "'w services \<Rightarrow> string \<Rightarrow> ('w, goerr + int) io" where
  "GetQueueDepth V itemID = do {
     r \<leftarrow> redis V (GET (QueueDepthKey itemID));
     ret (case reply_int64 r of
            Inl err \<Rightarrow>
              if errors_is err RedisNil then Inr 0
              else Inl (wrap_err (''redisx: reading queue depth for item '' @ itemID @ '': '') err)
          | Inr n \<Rightarrow> Inr n)
   }"

text \<open>
  A score is a \<open>float64\<close>; its shortest decimal text and the parser of \<open>strconv\<close> are parameters.
  \<open>GetRiskScore\<close> returns the score and whether one was found.
\<close>

definition SetRiskScore ::
  "('f \<Rightarrow> string) \<Rightarrow> 'w services \<Rightarrow> string \<Rightarrow> string \<Rightarrow> 'f \<Rightarrow> int \<Rightarrow> ('w, goerr + unit) io" where
  "SetRiskScore format_float V itemID userID score ttl =
     (if ttl \<le> 0 then
        ret (Inl (PlainErr (''redisx: risk score ttl must be positive, got '' @ duration_text ttl)))
      else do {
        r \<leftarrow> redis V (SET (RiskScoreKey itemID userID) (format_float score) ttl);
        ret (errorless (reply_err r))
      })"

definition GetRiskScore ::
  "(string \<Rightarrow> goerr + 'f) \<Rightarrow> 'w services \<Rightarrow> string \<Rightarrow> string \<Rightarrow> ('w, goerr + 'f option) io" where
  "GetRiskScore parse_float V itemID userID = do {
     r \<leftarrow> redis V (GET (RiskScoreKey itemID userID));
     ret (case reply_string r of
            Inl err \<Rightarrow>
              if errors_is err RedisNil then Inr None
              else Inl (wrap_err (''redisx: reading risk score for item '' @ itemID @ '' user ''
                @ userID @ '': '') err)
          | Inr v \<Rightarrow>
              (case parse_float v of
                 Inl parseErr \<Rightarrow>
                   Inl (wrap_err (''redisx: parsing cached risk score for item '' @ itemID @ '' user ''
                     @ userID @ '': '') parseErr)
               | Inr parsed \<Rightarrow> Inr (Some parsed)))
   }"

lemmas redisx_defs [go_defs] =
  SeedInventory_def GetInventory_def TryDecrementInventory_def ReleaseInventory_def
  GrantAdmission_def ConsumeAdmission_def SetQueueDepth_def GetQueueDepth_def
  SetRiskScore_def GetRiskScore_def

section \<open>Effect of the counter operations\<close>

lemma run_redis [simp]: "run_state (State f) w = f w"
  by simp

lemma driver_err_wrap:
  assumes "driver_err e"
  shows "\<not> errors_is (wrap_err m e) ErrInventoryNotFound" "\<not> errors_is (wrap_err m e) ErrInsufficientInventory"
  using assms unfolding driver_err_def ErrInventoryNotFound_def ErrInsufficientInventory_def
  by (metis append_Cons append_Nil errors_is_sentinel_leaf(4))+

lemma inventory_errors_differ [simp]:
  "\<not> errors_is ErrInsufficientInventory ErrInventoryNotFound" "\<not> errors_is ErrInventoryNotFound ErrInsufficientInventory"
  by (simp_all add: ErrInsufficientInventory_def ErrInventoryNotFound_def)

context redis_service
begin

lemma TryDecrement_counter:
  assumes "keys w (InventoryKey i) = Some (int_text n, None)" "0 \<le> n" "n < 2 ^ 53" "0 < q" "int64 q"
    and run: "run_state (TryDecrementInventory V i q) w = (res, w')"
  shows "(\<exists>m. res = Inr m \<and> q \<le> n \<and> m = n - q
        \<and> keys w' = (live (clock w') (keys w))(InventoryKey i \<mapsto> (int_text (n - q), None)))
    \<or> (\<exists>e. res = Inl e \<and> errors_is e ErrInsufficientInventory \<and> \<not> errors_is e ErrInventoryNotFound
        \<and> n < q \<and> keys w' = live (clock w') (keys w))
    \<or> (\<exists>e. res = Inl e \<and> \<not> errors_is e ErrInsufficientInventory \<and> \<not> errors_is e ErrInventoryNotFound
        \<and> (keys w' = live (clock w') (keys w) \<or> q \<le> n \<and>
           keys w' = (live (clock w') (keys w))(InventoryKey i \<mapsto> (int_text (n - q), None))))"
proof -
  let ?K = "InventoryKey i"
  obtain r where cmd: "redis_cmd V (EVAL_DECREMENT ?K (int_text q)) w = (r, w')"
    using run assms(4) by (auto simp: TryDecrementInventory_def split: prod.splits)
  let ?s = "live (clock w') (keys w)"
  have eff: "redis_effect L (clock w') (EVAL_DECREMENT ?K (int_text q)) ?s
      = (if n < q then (RInt (- 2), ?s) else (RInt (n - q), ?s(?K \<mapsto> (int_text (n - q), None))))"
    using assms by (simp add: decrementScript_exact)
  have res: "res = (case reply_int64 r of
               Inl err \<Rightarrow> Inl (wrap_err (''redisx: decrementing inventory for item '' @ i @ '': '') err)
             | Inr res \<Rightarrow> if res = - 1 then Inl ErrInventoryNotFound
                 else if res = - 2 then Inl ErrInsufficientInventory else Inr res)"
    using run assms(4) cmd by (simp add: TryDecrementInventory_def)
  show ?thesis
  proof (rule cmd_cases [OF cmd])
    assume "redis_effect L (clock w') (EVAL_DECREMENT ?K (int_text q)) ?s = (r, keys w')"
    then have "(r, keys w') = (if n < q then (RInt (- 2), ?s)
        else (RInt (n - q), ?s(?K \<mapsto> (int_text (n - q), None))))"
      unfolding eff by (rule sym)
    then show ?thesis using assms(2) by (cases "n < q") (simp_all add: res)
  next
    fix e assume "r = RErr e" "driver_err e" "keys w' = ?s"
    then show ?thesis using driver_err_wrap by (simp add: res)
  next
    fix e assume "r = RErr e" "driver_err e"
      "keys w' = snd (redis_effect L (clock w') (EVAL_DECREMENT ?K (int_text q)) ?s)"
    then show ?thesis using driver_err_wrap unfolding eff by (simp add: res)
  qed
qed

lemma Release_counter:
  assumes "keys w (InventoryKey i) = Some (int_text n, None)" "0 \<le> n" "0 < q" "n + q < 2 ^ 53"
    and run: "run_state (ReleaseInventory V i q) w = (res, w')"
  shows "(keys w' = (live (clock w') (keys w))(InventoryKey i \<mapsto> (int_text (n + q), None)))
    \<or> (\<exists>e. res = Inl e \<and> keys w' = live (clock w') (keys w))"
proof -
  let ?K = "InventoryKey i"
  obtain r where cmd: "redis_cmd V (INCRBY ?K q) w = (r, w')"
    using run assms(3) by (auto simp: ReleaseInventory_def split: prod.splits)
  let ?s = "live (clock w') (keys w)"
  have "int64 n" "int64 (n + q)" using assms by (auto simp: int64_def int64_min_def int64_max_def)
  then have eff: "redis_effect L (clock w') (INCRBY ?K q) ?s
      = (RInt (n + q), ?s(?K \<mapsto> (int_text (n + q), None)))"
    using assms by (simp add: incr_by_def)
  show ?thesis
  proof (rule cmd_cases [OF cmd])
    assume "redis_effect L (clock w') (INCRBY ?K q) ?s = (r, keys w')"
    then show ?thesis unfolding eff by simp
  next
    fix e assume "r = RErr e" "driver_err e" "keys w' = ?s"
    then show ?thesis using run assms(3) cmd by (auto simp: ReleaseInventory_def)
  next
    fix e assume "r = RErr e" "driver_err e" "keys w' = snd (redis_effect L (clock w') (INCRBY ?K q) ?s)"
    then show ?thesis unfolding eff by simp
  qed
qed

end

text \<open>A command on another key leaves a persistent counter alone, executed or not.\<close>

fun rcmd_key :: "rcmd \<Rightarrow> string" where
  "rcmd_key (GET k) = k"
| "rcmd_key (SET k v ttl) = k"
| "rcmd_key (GETDEL k) = k"
| "rcmd_key (INCRBY k n) = k"
| "rcmd_key (EVAL_DECREMENT k arg) = k"

lemma incr_by_frame: "k \<noteq> k' \<Longrightarrow> snd (incr_by k n s) k' = s k'"
  by (auto simp: incr_by_def split: option.split prod.split)

lemma decr_by_frame: "k \<noteq> k' \<Longrightarrow> snd (decr_by k a s) k' = s k'"
  by (auto simp: decr_by_def incr_by_frame split: option.split)

lemma decrementScript_frame: "k \<noteq> k' \<Longrightarrow> snd (decrementScript L k a s) k' = s k'"
  using decr_by_frame [of k k']
  by (auto simp: decrementScript_def split: option.split prod.splits reply.splits)
     (metis snd_conv)+

lemma redis_effect_frame: "rcmd_key c \<noteq> k \<Longrightarrow> snd (redis_effect L t c s) k = s k"
  by (cases c) (simp_all add: incr_by_frame decrementScript_frame)

context redis_service
begin

lemma other_key:
  assumes "rcmd_key c \<noteq> k" "redis_cmd V c w = (r, w')"
  shows "keys w' k = live (clock w') (keys w) k"
proof (rule cmd_cases [OF assms(2)])
  assume "redis_effect L (clock w') c (live (clock w') (keys w)) = (r, keys w')"
  with redis_effect_frame [OF assms(1), of L "clock w'" "live (clock w') (keys w)"] show ?thesis by simp
qed (use redis_effect_frame [OF assms(1)] in auto)

end

section \<open>A counter under any number of clients\<close>

text \<open>
  What reaches one item's counter between two seeds, in the order the server serves it, whichever
  client sends it: decrements, releases, and commands on other keys.
\<close>

datatype counter_call =
    TryDecrement int
  | Release int
  | Elsewhere rcmd

text \<open>The units a call hands out: the quantity of a decrement that was answered with success.\<close>

fun serve_call :: "'w services \<Rightarrow> string \<Rightarrow> counter_call \<Rightarrow> ('w, int) io" where
  "serve_call V i (TryDecrement q) = do {
     r \<leftarrow> TryDecrementInventory V i q;
     ret (case r of Inl e \<Rightarrow> 0 | Inr remaining \<Rightarrow> q)
   }"
| "serve_call V i (Release q) = do {
     r \<leftarrow> ReleaseInventory V i q;
     ret 0
   }"
| "serve_call V i (Elsewhere c) = do {
     r \<leftarrow> redis V c;
     ret 0
   }"

fun counter_run :: "'w services \<Rightarrow> string \<Rightarrow> counter_call list \<Rightarrow> ('w, int) io" where
  "counter_run V i [] = ret 0"
| "counter_run V i (c # cs) = do {
     g \<leftarrow> serve_call V i c;
     gs \<leftarrow> counter_run V i cs;
     ret (g + gs)
   }"

fun released_units :: "counter_call \<Rightarrow> int" where
  "released_units (Release q) = max 0 q"
| "released_units c = 0"

fun counter_call_ok :: "string \<Rightarrow> counter_call \<Rightarrow> bool" where
  "counter_call_ok i (TryDecrement q) = int64 q"
| "counter_call_ok i (Release q) = int64 q"
| "counter_call_ok i (Elsewhere c) = (rcmd_key c \<noteq> InventoryKey i)"

lemma released_units_nonneg: "0 \<le> released_units c"
  by (cases c) auto

context redis_service
begin

lemma serve_call_step:
  assumes "keys w (InventoryKey i) = Some (int_text n, None)" "0 \<le> n" "n + released_units c < 2 ^ 53"
    and "counter_call_ok i c" and run: "run_state (serve_call V i c) w = (g, w')"
  shows "\<exists>n'. keys w' (InventoryKey i) = Some (int_text n', None) \<and> 0 \<le> n' \<and> 0 \<le> g
    \<and> n' + g \<le> n + released_units c"
proof (cases c)
  case (TryDecrement q)
  obtain r where r: "run_state (TryDecrementInventory V i q) w = (r, w')"
    and g: "g = (case r of Inl e \<Rightarrow> 0 | Inr remaining \<Rightarrow> q)"
    using run TryDecrement by (auto split: prod.splits)
  show ?thesis
  proof (cases "0 < q")
    case True
    with TryDecrement_counter [OF assms(1,2) _ True _ r] assms TryDecrement g show ?thesis by auto
  next
    case False
    with r g assms TryDecrement show ?thesis by (auto simp: TryDecrementInventory_def)
  qed
next
  case (Release q)
  obtain r where r: "run_state (ReleaseInventory V i q) w = (r, w')" and g: "g = 0"
    using run Release by (auto split: prod.splits)
  show ?thesis
  proof (cases "0 < q")
    case True
    with Release_counter [OF assms(1,2) True _ r] assms Release g show ?thesis by auto
  next
    case False
    with r g assms Release show ?thesis by (auto simp: ReleaseInventory_def)
  qed
next
  case (Elsewhere x)
  then obtain r where "redis_cmd V x w = (r, w')" "g = 0" using run by (auto split: prod.splits)
  with other_key [of x "InventoryKey i" w r w'] assms Elsewhere show ?thesis
    by (intro exI [of _ n]) simp
qed

lemma counter_run_bounded:
  assumes "keys w (InventoryKey i) = Some (int_text n, None)" "0 \<le> n"
    and "n + sum_list (map released_units cs) < 2 ^ 53" "list_all (counter_call_ok i) cs"
    and "run_state (counter_run V i cs) w = (g, w')"
  shows "\<exists>n'. keys w' (InventoryKey i) = Some (int_text n', None) \<and> 0 \<le> n'
    \<and> n' + g \<le> n + sum_list (map released_units cs)"
  using assms
proof (induction cs arbitrary: w n g)
  case Nil
  then show ?case by (intro exI [of _ n]) simp
next
  case (Cons c cs)
  have rest: "0 \<le> sum_list (map released_units cs)"
    by (rule sum_list_map_nonneg_int) (rule released_units_nonneg)
  obtain g1 w1 g2 where r1: "run_state (serve_call V i c) w = (g1, w1)"
    and r2: "run_state (counter_run V i cs) w1 = (g2, w')" and g: "g = g1 + g2"
    using Cons.prems(5) by (auto split: prod.splits)
  obtain n1 where n1: "keys w1 (InventoryKey i) = Some (int_text n1, None)" "0 \<le> n1" "0 \<le> g1"
    "n1 + g1 \<le> n + released_units c"
    using serve_call_step [OF Cons.prems(1,2) _ _ r1] Cons.prems(3,4) rest by auto
  have "n1 + sum_list (map released_units cs) < 2 ^ 53" using n1 Cons.prems(3) by simp
  from Cons.IH [OF n1(1,2) this _ r2] Cons.prems(4) n1 g show ?case by auto
qed

end

section \<open>Effect of the token operations\<close>

context redis_service
begin

lemma Grant_token:
  assumes run: "run_state (GrantAdmission V i u ttl) w = (Inr (), w')"
  shows "0 < ttl \<and> (\<exists>v. keys w' (AdmissionKey i u) = Some (v, Some (clock w' + max Millisecond ttl)))"
proof -
  have ttl: "0 < ttl" using run by (auto simp: GrantAdmission_def split: if_splits)
  obtain t w1 r where t: "time_now V w = (t, w1)"
    and cmd: "redis_cmd V (SET (AdmissionKey i u) (rfc3339 t) ttl) w1 = (r, w')"
    and ok: "reply_err r = None"
    using run ttl by (auto simp: GrantAdmission_def split: prod.splits option.splits)
  from ok have "\<not> failed_reply r" by (cases r) auto
  from answered [OF cmd this] ttl
  have "keys w' = (live (clock w') (keys w1))(AdmissionKey i u \<mapsto>
      (rfc3339 t, Some (clock w' + max Millisecond ttl)))" by simp
  with ttl show ?thesis by simp
qed

lemma Grant_clock: "run_state (GrantAdmission V i u ttl) w = (g, w') \<Longrightarrow> clock w \<le> clock w'"
  using time_local [of w] clock_mono
  by (auto simp: GrantAdmission_def split: prod.splits if_splits) (metis order_trans snd_conv)

lemma Consume_token:
  assumes run: "run_state (ConsumeAdmission V i u) w = (Inr found, w')"
  shows "(found \<longleftrightarrow> live (clock w') (keys w) (AdmissionKey i u) \<noteq> None)
    \<and> keys w' = (live (clock w') (keys w))(AdmissionKey i u := None)"
proof -
  obtain r where cmd: "redis_cmd V (GETDEL (AdmissionKey i u)) w = (r, w')"
    and res: "Inr found = (case reply_err r of
            Some err \<Rightarrow> if errors_is err RedisNil then Inr False
              else Inl (wrap_err (''redisx: consuming admission token for item '' @ i @ '' user ''
                @ u @ '': '') err)
          | None \<Rightarrow> Inr True)"
    using run by (auto simp: ConsumeAdmission_def split: prod.splits)
  have nofail: "\<not> failed_reply r"
    using res driver_errors [of "GETDEL (AdmissionKey i u)" w] cmd
    by (cases r) (auto simp: driver_err_def)
  from answered [OF cmd nofail] res show ?thesis
    by (cases r) (auto split: option.splits)
qed

end

section \<open>Properties\<close>


text \<open>A counter of five units, and a decrement whose answer is lost after the server applied it.\<close>

definition mem_five :: mem where
  "mem_five =
     \<lparr> m_store = [InventoryKey ''i'' \<mapsto> (int_text 5, None)], m_clock = 0, m_topics = (\<lambda>t. []),
       m_db = \<lparr> items = [], reservations = [] \<rparr>, m_redis_faults = [None, Some (''i/o timeout'', True)],
       m_kafka_faults = [], m_tx = [], m_rand = [], m_inbox = [],
       m_committed = [], m_commit_faults = [], m_sleeps = None \<rparr>"


text \<open>
  \<open>TryDecrementInventory\<close> on a seeded counter below \<open>2^53\<close>: an answered success took exactly the
  quantity from a counter that had it and reports what is left; \<open>ErrInsufficientInventory\<close> means the
  counter had less and is unchanged; the counter is never reported missing; any other error left it
  unchanged or took exactly the quantity from a counter that had it.
\<close>

theorem TryDecrementInventory_exact:
  assumes "redis_service L V keys clock"
    and "keys w (InventoryKey i) = Some (int_text n, None)" "0 \<le> n" "n < 2 ^ 53" "0 < q" "int64 q"
    and "run_state (TryDecrementInventory V i q) w = (res, w')"
  shows "case res of
      Inr m \<Rightarrow> q \<le> n \<and> m = n - q \<and> keys w' (InventoryKey i) = Some (int_text m, None)
    | Inl e \<Rightarrow> \<not> errors_is e ErrInventoryNotFound
        \<and> (if errors_is e ErrInsufficientInventory
           then n < q \<and> keys w' (InventoryKey i) = Some (int_text n, None)
           else keys w' (InventoryKey i) = Some (int_text n, None)
             \<or> (q \<le> n \<and> keys w' (InventoryKey i) = Some (int_text (n - q), None)))"
  using redis_service.TryDecrement_counter [OF assms] assms(2) by (elim disjE exE conjE) auto

theorem TryDecrementInventory_exact_witness:
  "case fst (run_state (TryDecrementInventory mem_services ''i'' 7) mem_five) of
      Inr m \<Rightarrow> False | Inl e \<Rightarrow> \<not> errors_is e ErrInventoryNotFound"
proof -
  obtain res w' where run: "run_state (TryDecrementInventory mem_services ''i'' 7) mem_five = (res, w')"
    by (cases "run_state (TryDecrementInventory mem_services ''i'' 7) mem_five")
  have seeded: "m_store mem_five (InventoryKey ''i'') = Some (int_text 5, None)" by (simp add: mem_five_def)
  from TryDecrementInventory_exact [OF mem.redis_service_axioms seeded _ _ _ _ run] run show ?thesis
    by (auto simp: int64_def int64_min_def int64_max_def split: sum.splits)
qed


definition mem_empty :: mem where
  "mem_empty = mem_five\<lparr>m_store := Map.empty, m_redis_faults := []\<rparr>"

lemma mem_consume:
  assumes "m_redis_faults w = []"
  shows "\<exists>f w'. run_state (ConsumeAdmission mem_services i u) w = (Inr f, w')
    \<and> m_redis_faults w' = [] \<and> m_clock w' = m_clock w + Millisecond"
  using assms
  by (cases "live (m_clock w + Millisecond) (m_store w) (AdmissionKey i u)")
    (auto simp: ConsumeAdmission_def mem_redis_def pop_def Let_def RedisNil_def)


end
