(* ===== verification/Decision.thy ===== *)
theory Decision
  imports Postgres
begin

text \<open>
  Package \<open>internal/decision\<close> (\<open>processor.go\<close>): \<open>ProcessAttempt\<close>, the authoritative decision on a
  purchase attempt, as one transaction on the tables.  The abstract contract is \<open>decide\<close> on a
  \<open>shop\<close>: remaining units per item and one verdict per item and idempotency key.  The lemmas show
  that \<open>ProcessAttempt\<close> implements \<open>decide\<close> when nothing fails, that under any fault it does all of
  it or nothing, that redelivery never decides twice, and that it keeps the ledger contract.
\<close>

section \<open>Data\<close>

definition ErrItemNotFound :: goerr where
  "ErrItemNotFound = SentinelErr ''decision: item not found''"

definition ErrInvalidQuantity :: goerr where
  "ErrInvalidQuantity = SentinelErr ''decision: quantity must be positive''"

record attempt =
  ItemID :: string
  UserID :: string
  Quantity :: int
  IdempotencyKey :: string

record outcome =
  ReservationID :: string
  Status :: res_status
  Replayed :: bool

section \<open>The transaction\<close>

definition ProcessAttempt ::
  "pg_server \<Rightarrow> tx_env \<Rightarrow> attempt \<Rightarrow> int \<Rightarrow> db \<Rightarrow> (goerr + outcome) \<times> db" where
  "ProcessAttempt S e a reservationTTL d =
     (if Quantity a \<le> 0 then
        (Inl (WrapErr [] ErrInvalidQuantity ('': got '' @ int_text (Quantity a))), d)
      else case fault e AtBegin of
        Some er \<Rightarrow> (Inl (wrap_err ''decision: beginning transaction: '' er), d)
      | None \<Rightarrow>
      (case select_available S e (ItemID a) d of
        Inl er \<Rightarrow>
          if errors_is er ErrNoRows
          then (Inl (WrapErr [] ErrItemNotFound ('': '' @ ItemID a)), d)
          else (Inl (wrap_err (''decision: locking item '' @ ItemID a @ '': '') er), d)
      | Inr avail \<Rightarrow>
        let status = (if avail \<ge> Quantity a then Reserved else Rejected);
            expiresAt = (if avail \<ge> Quantity a then Some (go_now e + reservationTTL) else None)
        in (case insert_reservation S e (ItemID a) (UserID a) (Quantity a) status
                   (IdempotencyKey a) expiresAt d of
            Inl er \<Rightarrow>
              if errors_is er ErrNoRows then
                (case select_reservation S e (ItemID a) (IdempotencyKey a) d of
                   Inl lookupErr \<Rightarrow>
                     (Inl (wrap_err ''decision: looking up existing reservation for replayed attempt: ''
                        lookupErr), d)
                 | Inr (rid, st) \<Rightarrow>
                     commit_tx e ''decision: committing replayed attempt: '' d d
                       \<lparr> ReservationID = uuid_out S rid, Status = st, Replayed = True \<rparr>)
              else (Inl (wrap_err ''decision: inserting reservation: '' er), d)
          | Inr ((rid, insertedStatus), d1) \<Rightarrow>
              (case (if insertedStatus = Reserved
                     then update_available S e (- Quantity a) (ItemID a) d1 else Inr d1) of
                 Inl er \<Rightarrow>
                   (Inl (wrap_err (''decision: decrementing inventory for item '' @ ItemID a @ '': '') er), d)
               | Inr d2 \<Rightarrow>
                   commit_tx e ''decision: committing: '' d d2
                     \<lparr> ReservationID = uuid_out S rid, Status = insertedStatus, Replayed = False \<rparr>))))"

section \<open>Where a call can leave the tables\<close>

text \<open>
  The working copy that a call commits, when it commits one, with the outcome it reports: the
  unchanged tables for an attempt already recorded, else the tables with the new row.
\<close>

inductive attempt_work ::
  "pg_server \<Rightarrow> tx_env \<Rightarrow> attempt \<Rightarrow> int \<Rightarrow> db \<Rightarrow> db \<Rightarrow> outcome \<Rightarrow> bool"
  for S e a ttl d where
  replayed:
    "0 < Quantity a \<Longrightarrow> select_available S e (ItemID a) d = Inr avail \<Longrightarrow>
     insert_reservation S e (ItemID a) (UserID a) (Quantity a)
       (if avail \<ge> Quantity a then Reserved else Rejected) (IdempotencyKey a)
       (if avail \<ge> Quantity a then Some (go_now e + ttl) else None) d = Inl er \<Longrightarrow>
     errors_is er ErrNoRows \<Longrightarrow>
     select_reservation S e (ItemID a) (IdempotencyKey a) d = Inr (rid, st) \<Longrightarrow>
     attempt_work S e a ttl d d \<lparr> ReservationID = uuid_out S rid, Status = st, Replayed = True \<rparr>"
| reserved:
    "0 < Quantity a \<Longrightarrow> select_available S e (ItemID a) d = Inr avail \<Longrightarrow> Quantity a \<le> avail \<Longrightarrow>
     insert_reservation S e (ItemID a) (UserID a) (Quantity a) Reserved (IdempotencyKey a)
       (Some (go_now e + ttl)) d = Inr ((rid, Reserved), d1) \<Longrightarrow>
     update_available S e (- Quantity a) (ItemID a) d1 = Inr d2 \<Longrightarrow>
     attempt_work S e a ttl d d2 \<lparr> ReservationID = uuid_out S rid, Status = Reserved, Replayed = False \<rparr>"
| rejected:
    "0 < Quantity a \<Longrightarrow> select_available S e (ItemID a) d = Inr avail \<Longrightarrow> avail < Quantity a \<Longrightarrow>
     insert_reservation S e (ItemID a) (UserID a) (Quantity a) Rejected (IdempotencyKey a)
       None d = Inr ((rid, Rejected), d1) \<Longrightarrow>
     attempt_work S e a ttl d d1 \<lparr> ReservationID = uuid_out S rid, Status = Rejected, Replayed = False \<rparr>"

lemma insert_reservation_status:
  "insert_reservation S e i u q st k ex d = Inr ((rid, st'), d1) \<Longrightarrow> st' = st"
  using insert_reservation_effect by blast

text \<open>A call whose insertion found the idempotency key taken, and one whose insertion went through.\<close>

lemma ProcessAttempt_conflict:
  assumes "\<not> (Quantity a \<le> 0 \<or> fault e AtBegin \<noteq> None)" "select_available S e (ItemID a) d = Inr avail"
    and "insert_reservation S e (ItemID a) (UserID a) (Quantity a) (if avail \<ge> Quantity a then Reserved else Rejected)
      (IdempotencyKey a) (if avail \<ge> Quantity a then Some (go_now e + ttl) else None) d = Inl er" "errors_is er ErrNoRows"
  obtains er' where "ProcessAttempt S e a ttl d = (Inl er', d)"
  | out m where "attempt_work S e a ttl d d out" "ProcessAttempt S e a ttl d = commit_tx e m d d out"
proof (cases "select_reservation S e (ItemID a) (IdempotencyKey a) d")
  case (Inl er')
  with assms show thesis using that(1) by (simp add: ProcessAttempt_def Let_def)
next
  case (Inr p)
  obtain rid st where "p = (rid, st)" by (cases p)
  with Inr have look: "select_reservation S e (ItemID a) (IdempotencyKey a) d = Inr (rid, st)" by simp
  let ?out = "\<lparr> ReservationID = uuid_out S rid, Status = st, Replayed = True \<rparr>"
  have "attempt_work S e a ttl d d ?out" using assms look by (intro attempt_work.replayed) auto
  moreover have "ProcessAttempt S e a ttl d = commit_tx e ''decision: committing replayed attempt: '' d d ?out"
    using assms look by (simp add: ProcessAttempt_def Let_def)
  ultimately show thesis by (rule that(2))
qed

lemma ProcessAttempt_inserted:
  assumes "\<not> (Quantity a \<le> 0 \<or> fault e AtBegin \<noteq> None)" "select_available S e (ItemID a) d = Inr avail"
    and "insert_reservation S e (ItemID a) (UserID a) (Quantity a) (if avail \<ge> Quantity a then Reserved else Rejected)
      (IdempotencyKey a) (if avail \<ge> Quantity a then Some (go_now e + ttl) else None) d = Inr ((rid, st), d1)"
  obtains er where "ProcessAttempt S e a ttl d = (Inl er, d)"
  | d' out m where "attempt_work S e a ttl d d' out" "ProcessAttempt S e a ttl d = commit_tx e m d d' out"
proof -
  have st: "st = (if avail \<ge> Quantity a then Reserved else Rejected)" using assms(3) insert_reservation_status by blast
  show thesis
  proof (cases "if st = Reserved then update_available S e (- Quantity a) (ItemID a) d1 else Inr d1")
    case (Inl er)
    with assms show thesis using that(1) by (simp add: ProcessAttempt_def Let_def)
  next
    case upd: (Inr d2)
    let ?out = "\<lparr> ReservationID = uuid_out S rid, Status = st, Replayed = False \<rparr>"
    have "ProcessAttempt S e a ttl d = commit_tx e ''decision: committing: '' d d2 ?out"
      using assms upd by (simp add: ProcessAttempt_def Let_def)
    moreover have "attempt_work S e a ttl d d2 ?out"
      using assms upd st by (cases "avail \<ge> Quantity a") (auto intro: attempt_work.reserved attempt_work.rejected)
    ultimately show thesis by (intro that(2))
  qed
qed

lemma ProcessAttempt_cases:
  obtains er where "ProcessAttempt S e a ttl d = (Inl er, d)"
  | d' out m where "attempt_work S e a ttl d d' out" "ProcessAttempt S e a ttl d = commit_tx e m d d' out"
proof (cases "Quantity a \<le> 0 \<or> fault e AtBegin \<noteq> None")
  case True
  then show thesis using that(1) by (fastforce simp: ProcessAttempt_def)
next
  case begun: False
  show thesis
  proof (cases "select_available S e (ItemID a) d")
    case (Inl er)
    with begun show thesis using that(1) by (cases "errors_is er ErrNoRows") (auto simp: ProcessAttempt_def)
  next
    case found: (Inr avail)
    show thesis
    proof (cases "insert_reservation S e (ItemID a) (UserID a) (Quantity a) (if avail \<ge> Quantity a then Reserved else Rejected)
        (IdempotencyKey a) (if avail \<ge> Quantity a then Some (go_now e + ttl) else None) d")
      case (Inl er)
      show thesis
      proof (cases "errors_is er ErrNoRows")
        case True
        with begun found Inl show thesis using that by (metis ProcessAttempt_conflict)
      next
        case False
        with begun found Inl show thesis using that(1) by (simp add: ProcessAttempt_def Let_def)
      qed
    next
      case (Inr p)
      obtain rid st d1 where "p = ((rid, st), d1)" by (metis surj_pair)
      with begun found Inr show thesis using that by (metis ProcessAttempt_inserted)
    qed
  qed
qed

lemma ProcessAttempt_Inr:
  assumes "ProcessAttempt S e a ttl d = (Inr out, d')"
  shows "attempt_work S e a ttl d d' out"
proof (rule ProcessAttempt_cases [of S e a ttl d])
  fix er assume "ProcessAttempt S e a ttl d = (Inl er, d)"
  with assms show ?thesis by simp
next
  fix d'' out' m
  assume "attempt_work S e a ttl d d'' out'" "ProcessAttempt S e a ttl d = commit_tx e m d d'' out'"
  with assms show ?thesis by (metis commit_tx_Inr)
qed

lemma ProcessAttempt_db:
  "snd (ProcessAttempt S e a ttl d) = d
     \<or> (\<exists>out. attempt_work S e a ttl d (snd (ProcessAttempt S e a ttl d)) out)"
proof (rule ProcessAttempt_cases [of S e a ttl d])
  fix d' out m
  assume "attempt_work S e a ttl d d' out" "ProcessAttempt S e a ttl d = commit_tx e m d d' out"
  with commit_tx_db [of e m d d' out] show ?thesis by auto
qed simp

text \<open>The committed work keeps the ledger contract.\<close>

lemma attempt_work_ledger:
  assumes "attempt_work S e a ttl d d' out" "schema_ok d"
  shows "schema_ok d' \<and> catalogue d' = catalogue d \<and> stock u d' = stock u d"
  using assms(1)
proof cases
  case (replayed avail er rid st)
  then show ?thesis using assms(2) by simp
next
  case (reserved avail rid d1)
  note ins = insert_reservation_effect [OF reserved(5), of u]
    and upd = update_available_effect [OF reserved(6), of u]
  have "uuid_in S (ItemID a) = Some w \<Longrightarrow> find_item w d1 \<noteq> None" for w
    using reserved(5) by (auto elim!: insert_reservation_cases)
  moreover have "available u d1 = available u d" using ins by (simp add: available_def)
  moreover have "held u d' = held u d1" using upd by (simp add: held_def)
  ultimately show ?thesis using ins upd assms(2) by (auto simp: stock_def holds_def)
next
  case (rejected avail rid)
  from insert_reservation_effect [OF rejected(5), of u] assms(2) show ?thesis
    by (simp add: stock_def available_def holds_def)
qed

lemma ProcessAttempt_ledger:
  assumes "schema_ok d"
  shows "schema_ok (snd (ProcessAttempt S e a ttl d))
    \<and> catalogue (snd (ProcessAttempt S e a ttl d)) = catalogue d
    \<and> stock u (snd (ProcessAttempt S e a ttl d)) = stock u d"
proof (cases "snd (ProcessAttempt S e a ttl d) = d")
  case True
  with assms show ?thesis by simp
next
  case False
  with ProcessAttempt_db [of S e a ttl d] obtain out
    where "attempt_work S e a ttl d (snd (ProcessAttempt S e a ttl d)) out" by blast
  then show ?thesis using assms by (rule attempt_work_ledger)
qed

text \<open>A delivery is one call with its server, environment, message and reservation lifetime.\<close>

interpretation decision: ledger "\<lambda>(S, e, a, ttl). ProcessAttempt S e a ttl"
  by unfold_locales (auto simp: ProcessAttempt_ledger)

section \<open>The contract: a shop decides each attempt once\<close>

record shop =
  remaining :: "uuid \<Rightarrow> int option"
  verdict :: "uuid \<times> string \<Rightarrow> res_status option"

text \<open>
  Deciding an attempt: a recorded verdict stands and changes nothing; a new attempt on a known item
  takes its units if enough remain, else it is rejected and takes none.
\<close>

definition decide :: "uuid \<Rightarrow> string \<Rightarrow> int \<Rightarrow> shop \<Rightarrow> (res_status \<times> shop) option" where
  "decide u k q s =
     (case remaining s u of None \<Rightarrow> None
      | Some n \<Rightarrow> (case verdict s (u, k) of
          Some st \<Rightarrow> Some (st, s)
        | None \<Rightarrow>
            if q \<le> n
            then Some (Reserved, s\<lparr>remaining := (remaining s)(u \<mapsto> n - q),
                                    verdict := (verdict s)((u, k) \<mapsto> Reserved)\<rparr>)
            else Some (Rejected, s\<lparr>verdict := (verdict s)((u, k) \<mapsto> Rejected)\<rparr>)))"

text \<open>What the tables say as a shop.\<close>

definition shop_of :: "db \<Rightarrow> shop" where
  "shop_of d = \<lparr> remaining = (\<lambda>u. map_option available_inventory (find_item u d)),
                 verdict = (\<lambda>(u, k). map_option res_status (find_attempt u k d)) \<rparr>"

lemma decide_again: "decide u k q s = Some (st, s') \<Longrightarrow> decide u k q' s' = Some (st, s')"
  by (auto simp: decide_def split: option.splits if_splits)

lemma decide_again_iff:
  "decide u k q s = Some (st, s') \<Longrightarrow> decide u k q' s' = Some (st'', s'') \<longleftrightarrow> st'' = st \<and> s'' = s'"
  using decide_again by fastforce

lemma shop_of_insert:
  assumes "insert_reservation S e itemID userID q st k ex d = Inr ((rid, st'), d1)"
    and "uuid_in S itemID = Some u"
  shows "shop_of d1 = (shop_of d)\<lparr>verdict := (verdict (shop_of d))((u, k) \<mapsto> st)\<rparr>
    \<and> verdict (shop_of d) (u, k) = None"
  using assms(1)
proof (rule insert_reservation_cases)
  fix v
  assume "uuid_in S itemID = Some v" "find_attempt v k d = None"
    and d1: "d1 = d\<lparr>reservations := reservations d @
        [\<lparr> res_id = new_uuid e, res_item = v, res_user = userID, res_quantity = q,
           res_status = st, res_key = k, expires_at = map_option (timestamptz_in S) ex,
           decided_at = Some (tx_now e) \<rparr>]\<rparr>"
  with assms(2) show ?thesis
    by (auto simp: shop_of_def d1 find_snoc res_index_def fun_eq_iff split: option.split)
qed

lemma shop_of_update:
  assumes "update_available S e n itemID d = Inr d1" "uuid_in S itemID = Some u"
    and "remaining (shop_of d) u = Some v"
  shows "shop_of d1 = (shop_of d)\<lparr>remaining := (remaining (shop_of d))(u \<mapsto> v + n)\<rparr>"
  using assms(1)
proof (rule update_available_cases)
  fix w assume "uuid_in S itemID = Some w" "find_item w d = None" "d1 = d"
  with assms show ?thesis by (simp add: shop_of_def)
next
  fix w r
  assume "uuid_in S itemID = Some w" "find_item w d = Some r"
    and d1: "d1 = d\<lparr>items := map (\<lambda>x. if item_id x = w
              then x\<lparr>available_inventory := available_inventory x + n\<rparr> else x) (items d)\<rparr>"
  with assms(2,3) show ?thesis
    by (auto simp: shop_of_def d1 find_map_update fun_eq_iff)
qed

lemma attempt_work_decides:
  assumes "attempt_work S e a ttl d d' out"
  shows "\<exists>u. uuid_in S (ItemID a) = Some u
    \<and> decide u (IdempotencyKey a) (Quantity a) (shop_of d) = Some (Status out, shop_of d')
    \<and> (Replayed out \<longleftrightarrow> verdict (shop_of d) (u, IdempotencyKey a) \<noteq> None)"
  using assms
proof cases
  case (replayed avail er rid st)
  then show ?thesis
    by (auto simp: select_available_def select_reservation_def decide_def shop_of_def split: option.splits)
next
  case (reserved avail rid d1)
  obtain u where u: "uuid_in S (ItemID a) = Some u" "remaining (shop_of d) u = Some avail"
    using reserved(3) by (auto simp: select_available_def shop_of_def split: option.splits)
  note ins = shop_of_insert [OF reserved(5) u(1)]
  with u have "remaining (shop_of d1) u = Some avail" by simp
  from shop_of_update [OF reserved(6) u(1) this] ins u reserved(4) show ?thesis
    by (simp add: reserved(1) decide_def)
next
  case (rejected avail rid)
  obtain u where u: "uuid_in S (ItemID a) = Some u" "remaining (shop_of d) u = Some avail"
    using rejected(3) by (auto simp: select_available_def shop_of_def split: option.splits)
  with shop_of_insert [OF rejected(5) u(1)] rejected(4) show ?thesis
    by (simp add: rejected(1) decide_def)
qed

section \<open>Progress: without a fault every attempt is decided\<close>

lemma update_available_ok:
  assumes "fault e AtUpdate = None" "uuid_in S itemID = Some u" "int4 n"
    and "find_item u d = Some r" "item_ok r" "0 \<le> available_inventory r + n"
    and "available_inventory r + n \<le> total_inventory r"
  shows "\<exists>d1. update_available S e n itemID d = Inr d1"
  using assms by (auto simp: update_available_def Let_def int4_def item_ok_def)

lemma attempt_work_exists:
  assumes "no_fault e" "uuid_in S (ItemID a) = Some u" "schema_ok d" "find_item u d = Some r"
    and "0 < Quantity a" "int4 (Quantity a)" "find_reservation (new_uuid e) d = None"
  shows "\<exists>d' out. ProcessAttempt S e a ttl d = (Inr out, d') \<and> attempt_work S e a ttl d d' out"
proof -
  have ok: "item_ok r" using assms(3,4) by (rule schema_ok_item)
  have sel: "select_available S e (ItemID a) d = Inr (available_inventory r)"
    using assms by (simp add: select_available_def no_fault_def)
  have "\<exists>d' out. ProcessAttempt S e a ttl d = (Inr out, d')"
  proof (cases "find_attempt u (IdempotencyKey a) d")
    case (Some p)
    with assms sel show ?thesis
      by (simp add: ProcessAttempt_def no_fault_def insert_reservation_def select_reservation_def
          commit_tx_def ErrNoRows_def)
  next
    case None
    show ?thesis
    proof (cases "Quantity a \<le> available_inventory r")
      case True
      obtain d1 where d1: "insert_reservation S e (ItemID a) (UserID a) (Quantity a) Reserved
          (IdempotencyKey a) (Some (go_now e + ttl)) d = Inr ((new_uuid e, Reserved), d1)"
        "items d1 = items d"
        using assms None by (simp add: insert_reservation_def no_fault_def)
      have "\<exists>d2. update_available S e (- Quantity a) (ItemID a) d1 = Inr d2"
        using assms True ok
        by (intro update_available_ok [where u = u and r = r]) (auto simp: no_fault_def int4_def d1(2) item_ok_def)
      with assms sel True d1 show ?thesis
        by (auto simp: ProcessAttempt_def no_fault_def commit_tx_def)
    next
      case False
      with assms sel None show ?thesis
        by (simp add: ProcessAttempt_def no_fault_def insert_reservation_def commit_tx_def)
    qed
  qed
  then show ?thesis using ProcessAttempt_Inr by metis
qed

section \<open>Example tables\<close>

text \<open>One item of ten units, all available, on the canonical server; used by the witnesses.\<close>

definition demo_item :: item where
  "demo_item = \<lparr> item_id = 7, total_inventory = 10, available_inventory = 10, item_status = On_sale \<rparr>"

definition demo_db :: db where
  "demo_db = \<lparr> items = [demo_item], reservations = [] \<rparr>"

definition demo_env :: tx_env where
  "demo_env = \<lparr> new_uuid = 100, tx_now = 5000, go_now = 5000, fault = (\<lambda>_. None), commit_applied = False \<rparr>"

definition demo_attempt :: attempt where
  "demo_attempt = \<lparr> ItemID = uuid_out canonical_server 7, UserID = ''alice'', Quantity = 3,
     IdempotencyKey = ''k1'' \<rparr>"

lemmas demo_defs = demo_item_def demo_db_def demo_env_def demo_attempt_def

lemma demo_facts:
  "schema_ok demo_db" "no_fault demo_env" "find_item 7 demo_db = Some demo_item"
  "uuid_in canonical_server (ItemID demo_attempt) = Some 7"
  "find_reservation (new_uuid demo_env) demo_db = None"
  by (simp_all add: demo_defs schema_ok_def item_ok_def int4_def no_fault_def canonical.uuid_in_out)

section \<open>Properties\<close>

text \<open>
  C17.  When no statement fails, \<open>ProcessAttempt\<close> on a well-formed attempt for a known item decides it
  exactly as the contract says: a recorded attempt is answered from its row and changes nothing, a
  new one is reserved and takes its units if enough remain, else rejected taking none.
\<close>

theorem ProcessAttempt_refines_decide:
  assumes "no_fault e" "uuid_in S (ItemID a) = Some u" "schema_ok d" "find_item u d \<noteq> None"
    and "0 < Quantity a" "int4 (Quantity a)" "find_reservation (new_uuid e) d = None"
  shows "\<exists>out d'. ProcessAttempt S e a ttl d = (Inr out, d')
    \<and> decide u (IdempotencyKey a) (Quantity a) (shop_of d) = Some (Status out, shop_of d')
    \<and> (Replayed out \<longleftrightarrow> verdict (shop_of d) (u, IdempotencyKey a) \<noteq> None)"
proof -
  obtain r where "find_item u d = Some r" using assms(4) by blast
  from attempt_work_exists [OF assms(1-3) this assms(5-7), of ttl]
  obtain d' out where call: "ProcessAttempt S e a ttl d = (Inr out, d')"
    and work: "attempt_work S e a ttl d d' out" by blast
  from attempt_work_decides [OF work] assms(2) call show ?thesis by auto
qed

theorem ProcessAttempt_refines_decide_witness:
  "\<exists>out d'. ProcessAttempt canonical_server demo_env demo_attempt 120 demo_db = (Inr out, d')
    \<and> decide 7 ''k1'' 3 (shop_of demo_db) = Some (Status out, shop_of d') \<and> \<not> Replayed out"
proof -
  have "0 < Quantity demo_attempt" "int4 (Quantity demo_attempt)" "find_item 7 demo_db \<noteq> None"
    by (simp_all add: demo_defs int4_def)
  from ProcessAttempt_refines_decide
    [OF demo_facts(2,4,1) this(3,1,2) demo_facts(5), of 120]
  show ?thesis by (simp add: demo_attempt_def shop_of_def demo_db_def)
qed

text \<open>
  C18.  Whatever fails, and wherever, one call does all of its decision or none of it.  A success is
  the decision the contract makes on the tables it started from.  An error leaves the tables as they
  were, unless the COMMIT itself was the call that failed and had been applied, and then they hold
  the whole decision.
\<close>

theorem ProcessAttempt_all_or_nothing:
  "case ProcessAttempt S e a ttl d of
     (Inr out, d') \<Rightarrow>
       (\<exists>u. uuid_in S (ItemID a) = Some u
          \<and> decide u (IdempotencyKey a) (Quantity a) (shop_of d) = Some (Status out, shop_of d'))
   | (Inl er, d') \<Rightarrow>
       d' = d \<or> (fault e AtCommit \<noteq> None \<and> commit_applied e
          \<and> (\<exists>u st. uuid_in S (ItemID a) = Some u
               \<and> decide u (IdempotencyKey a) (Quantity a) (shop_of d) = Some (st, shop_of d')))"
proof (rule ProcessAttempt_cases [of S e a ttl d])
  fix er assume "ProcessAttempt S e a ttl d = (Inl er, d)"
  then show ?thesis by simp
next
  fix d' out m
  assume "attempt_work S e a ttl d d' out" "ProcessAttempt S e a ttl d = commit_tx e m d d' out"
  with attempt_work_decides [of S e a ttl d d' out] show ?thesis
    by (auto simp: commit_tx_def split: option.split)
qed

text \<open>
  Deliveries of one message: the broker may hand it over any number of times, and each delivery may
  be retried; every call meets its own faults.
\<close>

definition deliver_all :: "pg_server \<Rightarrow> attempt \<Rightarrow> int \<Rightarrow> tx_env list \<Rightarrow> db \<Rightarrow> db" where
  "deliver_all S a ttl es d = fold (\<lambda>e d. snd (ProcessAttempt S e a ttl d)) es d"

definition decided_or_untouched :: "pg_server \<Rightarrow> attempt \<Rightarrow> shop \<Rightarrow> shop \<Rightarrow> bool" where
  "decided_or_untouched S a s s' \<longleftrightarrow> s' = s
     \<or> (\<exists>u st. uuid_in S (ItemID a) = Some u \<and> decide u (IdempotencyKey a) (Quantity a) s = Some (st, s'))"

lemma decided_or_untouched_trans:
  "decided_or_untouched S a s s' \<Longrightarrow> decided_or_untouched S a s' s'' \<Longrightarrow> decided_or_untouched S a s s''"
  by (auto simp: decided_or_untouched_def decide_again_iff)

lemma ProcessAttempt_decided_or_untouched:
  "decided_or_untouched S a (shop_of d) (shop_of (snd (ProcessAttempt S e a ttl d)))"
  using ProcessAttempt_db [of S e a ttl d] attempt_work_decides
  by (fastforce simp: decided_or_untouched_def)

lemma deliver_all_decided_or_untouched:
  "decided_or_untouched S a (shop_of d) (shop_of (deliver_all S a ttl es d))"
proof (induction es arbitrary: d)
  case Nil
  then show ?case by (simp add: deliver_all_def decided_or_untouched_def)
next
  case (Cons e es)
  from decided_or_untouched_trans [OF ProcessAttempt_decided_or_untouched Cons.IH]
  show ?case by (simp add: deliver_all_def)
qed

text \<open>
  C1.  Exactly-once effect over at-least-once delivery.  However often a message is delivered and
  retried, and whatever fails in between (commits whose answer was lost included), a call that
  succeeds reports the verdict of deciding the message once on the tables before the first delivery,
  and the tables then hold that one decision, before and after any further delivery.
\<close>

theorem redelivery_decides_once:
  assumes "ProcessAttempt S e a ttl (deliver_all S a ttl before d) = (Inr out, d1)"
  shows "\<exists>u. uuid_in S (ItemID a) = Some u
    \<and> decide u (IdempotencyKey a) (Quantity a) (shop_of d) = Some (Status out, shop_of d1)
    \<and> shop_of (deliver_all S a ttl after d1) = shop_of d1"
proof -
  let ?k = "IdempotencyKey a" and ?q = "Quantity a"
  obtain u where u: "uuid_in S (ItemID a) = Some u"
    and now: "decide u ?k ?q (shop_of (deliver_all S a ttl before d)) = Some (Status out, shop_of d1)"
    using ProcessAttempt_Inr [OF assms] attempt_work_decides by blast
  have "decided_or_untouched S a (shop_of d) (shop_of (deliver_all S a ttl before d))"
    by (rule deliver_all_decided_or_untouched)
  then have "decide u ?k ?q (shop_of d) = Some (Status out, shop_of d1)"
    using u now by (auto simp: decided_or_untouched_def decide_again_iff)
  moreover have "shop_of (deliver_all S a ttl after d1) = shop_of d1"
    using deliver_all_decided_or_untouched [where S = S and a = a and d = d1 and ttl = ttl and es = "after"] decide_again [OF now] u
    by (auto simp: decided_or_untouched_def)
  ultimately show ?thesis using u by blast
qed


theorem redelivery_decides_once_witness:
  "\<exists>out d1. ProcessAttempt canonical_server demo_env demo_attempt 120
      (deliver_all canonical_server demo_attempt 120
        [demo_env\<lparr>fault := (\<lambda>p. if p = AtCommit then Some (PlainErr ''EOF'') else None),
                  commit_applied := True\<rparr>] demo_db) = (Inr out, d1)
    \<and> Replayed out
    \<and> decide 7 ''k1'' 3 (shop_of demo_db) = Some (Status out, shop_of d1)"
proof -
  let ?e = "demo_env\<lparr>fault := (\<lambda>p. if p = AtCommit then Some (PlainErr ''EOF'') else None),
                  commit_applied := True\<rparr>"
  have first: "\<exists>out d1. ProcessAttempt canonical_server demo_env demo_attempt 120
      (deliver_all canonical_server demo_attempt 120 [?e] demo_db) = (Inr out, d1) \<and> Replayed out"
    by (simp add: deliver_all_def ProcessAttempt_def demo_defs canonical.uuid_in_out res_index_def
        sql_defs int4_def ErrNoRows_def)
  then obtain out d1 where call: "ProcessAttempt canonical_server demo_env demo_attempt 120
      (deliver_all canonical_server demo_attempt 120 [?e] demo_db) = (Inr out, d1)" "Replayed out"
    by blast
  from redelivery_decides_once [OF call(1)] call show ?thesis
    by (auto simp: demo_attempt_def canonical.uuid_in_out)
qed

text \<open>
  Without a fault, the error of a call says what is wrong with the message: \<open>ErrInvalidQuantity\<close>
  exactly for a quantity that is not positive, \<open>ErrItemNotFound\<close> exactly for a well-formed identifier
  of no item, and the tables stay as they were.
\<close>

theorem ProcessAttempt_error_classes:
  assumes "no_fault e"
  shows "case ProcessAttempt S e a ttl d of
     (Inr out, d') \<Rightarrow> 0 < Quantity a \<and> (\<exists>u. uuid_in S (ItemID a) = Some u \<and> find_item u d \<noteq> None)
   | (Inl er, d') \<Rightarrow> d' = d
       \<and> (errors_is er ErrInvalidQuantity \<longleftrightarrow> Quantity a \<le> 0)
       \<and> (errors_is er ErrItemNotFound \<longleftrightarrow>
            0 < Quantity a \<and> (\<exists>u. uuid_in S (ItemID a) = Some u \<and> find_item u d = None))"
  using assms
  by (auto simp: ProcessAttempt_def no_fault_def sql_defs Let_def ErrInvalidQuantity_def
      ErrItemNotFound_def ErrNoRows_def split: option.splits if_splits)

theorem ProcessAttempt_error_classes_witness:
  "\<exists>er. fst (ProcessAttempt canonical_server demo_env
        (demo_attempt\<lparr>ItemID := uuid_out canonical_server 8\<rparr>) 120 demo_db) = Inl er
    \<and> errors_is er ErrItemNotFound \<and> \<not> errors_is er ErrInvalidQuantity"
proof -
  let ?a = "demo_attempt\<lparr>ItemID := uuid_out canonical_server 8\<rparr>"
  have "find_item 8 demo_db = None" "0 < Quantity ?a"
    by (simp_all add: demo_defs)
  with ProcessAttempt_error_classes
    [OF demo_facts(2), where S = canonical_server and a = ?a and d = demo_db and ttl = 120]
  show ?thesis by (auto simp: canonical.uuid_in_out split: prod.splits sum.splits)
qed

end
