(* ===== verification/Reconcile.thy ===== *)
theory Reconcile
  imports RedisX Decision
begin

text \<open>
  Package \<open>internal/reconcile\<close>: reading an item's authoritative count from Postgres and overwriting
  the Redis counter with it, for one item or for every active one.  The lemmas show that an item
  without an error holds in Redis what Postgres held when it was read, and that one item's failure
  leaves the others alone.
\<close>

section \<open>Operations\<close>

definition rec_ErrItemNotFound :: goerr where
  "rec_ErrItemNotFound = SentinelErr ''reconcile: item not found''"

text \<open>\<open>Item\<close>; its query has the text of \<open>select_available\<close> without the row lock.\<close>

definition reconcile_Item :: "pg_server \<Rightarrow> 'w services \<Rightarrow> string \<Rightarrow> ('w, goerr + int) io" where
  "reconcile_Item S V itemID = do {
     q \<leftarrow> sql V (\<lambda>e d. (select_available S e itemID d, d));
     (case q of
        Inl err \<Rightarrow>
          ret (if errors_is err ErrNoRows then Inl rec_ErrItemNotFound
               else Inl (wrap_err (''reconcile: reading item '' @ itemID @ '': '') err))
      | Inr avail \<Rightarrow> do {
          s \<leftarrow> SeedInventory V itemID avail;
          ret (case s of
                 Inl err \<Rightarrow> Inl (wrap_err (''reconcile: seeding redis for item '' @ itemID @ '': '') err)
               | Inr _ \<Rightarrow> Inr avail)
        })
   }"

text \<open>
  \<open>SELECT id FROM items WHERE status IN ('scheduled', 'on_sale') ORDER BY id\<close>.  \<open>AtSelect\<close> is an
  error of the query, \<open>AtLookup\<close> one of reading its rows.
\<close>

definition active :: "item \<Rightarrow> bool" where
  "active r \<longleftrightarrow> item_status r = Scheduled \<or> item_status r = On_sale"

definition select_active :: "pg_server \<Rightarrow> tx_env \<Rightarrow> db \<Rightarrow> goerr + string list" where
  "select_active S e d =
     (case fault e AtSelect of
        Some err \<Rightarrow> Inl (wrap_err ''reconcile: listing active items: '' err)
      | None \<Rightarrow> (case fault e AtLookup of
          Some err \<Rightarrow> Inl (wrap_err ''reconcile: reading active item ids: '' err)
        | None \<Rightarrow> Inr (map (\<lambda>r. uuid_out S (item_id r)) (sort_key item_id (filter active (items d))))))"

definition ActiveItemIDs :: "pg_server \<Rightarrow> 'w services \<Rightarrow> ('w, goerr + string list) io" where
  "ActiveItemIDs S V = sql V (\<lambda>e d. (select_active S e d, d))"

record rec_outcome =
  rec_ItemID :: string
  rec_Available :: int
  rec_Err :: "goerr option"

fun reconcile_each :: "pg_server \<Rightarrow> 'w services \<Rightarrow> string list \<Rightarrow> ('w, rec_outcome list) io" where
  "reconcile_each S V [] = ret []"
| "reconcile_each S V (itemID # ids) = do {
     r \<leftarrow> reconcile_Item S V itemID;
     rest \<leftarrow> reconcile_each S V ids;
     ret ((case r of
             Inl err \<Rightarrow> \<lparr> rec_ItemID = itemID, rec_Available = 0, rec_Err = Some err \<rparr>
           | Inr avail \<Rightarrow> \<lparr> rec_ItemID = itemID, rec_Available = avail, rec_Err = None \<rparr>) # rest)
   }"

definition reconcile_All :: "pg_server \<Rightarrow> 'w services \<Rightarrow> ('w, goerr + rec_outcome list) io" where
  "reconcile_All S V = do {
     r \<leftarrow> ActiveItemIDs S V;
     (case r of
        Inl err \<Rightarrow> ret (Inl err)
      | Inr ids \<Rightarrow> do {
          outcomes \<leftarrow> reconcile_each S V ids;
          ret (Inr outcomes)
        })
   }"

lemmas reconcile_defs [go_defs] =
  reconcile_Item_def ActiveItemIDs_def reconcile_All_def select_active_def

section \<open>Effect\<close>

lemma select_available_Inr:
  "select_available S e itemID d = Inr n \<Longrightarrow> \<exists>u r. uuid_in S itemID = Some u \<and> find_item u d = Some r
     \<and> n = available_inventory r"
  by (auto simp: select_available_def split: option.splits)

text \<open>What an outcome says of the live keys and the tables: the counter of an item without error is Postgres's.\<close>

definition synced :: "pg_server \<Rightarrow> store \<Rightarrow> db \<Rightarrow> rec_outcome \<Rightarrow> bool" where
  "synced S ks d o' \<longleftrightarrow> (rec_Err o' = None \<longrightarrow>
     ks (InventoryKey (rec_ItemID o')) = Some (int_text (rec_Available o'), None)
     \<and> (\<exists>u it. uuid_in S (rec_ItemID o') = Some u \<and> find_item u d = Some it
          \<and> rec_Available o' = available_inventory it))"

context platform
begin

lemma Seed_counter:
  assumes "run_state (SeedInventory V i n) w = (r, w')"
  shows "tables w' = tables w \<and> (\<forall>k. k \<noteq> InventoryKey i \<longrightarrow> (\<forall>v. keys w k = Some (v, None) \<longrightarrow> keys w' k = Some (v, None)))
    \<and> (r = Inr () \<longrightarrow> keys w' (InventoryKey i) = Some (int_text n, None))"
proof (cases "n < 0")
  case True
  with assms show ?thesis by (auto simp: SeedInventory_def)
next
  case False
  let ?c = "SET (InventoryKey i) (int_text n) 0"
  obtain p where cmd: "redis_cmd V ?c w = (p, w')" and r: "r = errorless (reply_err p)"
    using assms False by (auto simp: SeedInventory_def split: prod.splits)
  have "keys w' (InventoryKey i) = Some (int_text n, None)" if "r = Inr ()"
  proof -
    from that r have "\<not> failed_reply p" by (cases p) auto
    from answered [OF cmd this]
    have "keys w' = (live (clock w') (keys w))(InventoryKey i \<mapsto> (int_text n, None))" by simp
    then show ?thesis by simp
  qed
  moreover have "keys w' k = Some (v, None)" if "k \<noteq> InventoryKey i" "keys w k = Some (v, None)" for k v
    using other_key [OF _ cmd, of k] that by simp
  ultimately show ?thesis using redis_frame [OF cmd] by blast
qed

lemma Item_counter:
  assumes "run_state (reconcile_Item S V i) w = (r, w')"
  shows "tables w' = tables w \<and> (\<forall>k. k \<noteq> InventoryKey i \<longrightarrow> (\<forall>v. keys w k = Some (v, None) \<longrightarrow> keys w' k = Some (v, None)))
    \<and> (\<forall>n. r = Inr n \<longrightarrow> keys w' (InventoryKey i) = Some (int_text n, None)
        \<and> (\<exists>u it. uuid_in S i = Some u \<and> find_item u (tables w) = Some it \<and> n = available_inventory it))"
proof -
  obtain q w1 where q: "run_state (sql V (\<lambda>e d. (select_available S e i d, d))) w = (q, w1)"
    by (cases "run_state (sql V (\<lambda>e d. (select_available S e i d, d))) w")
  obtain e where e: "select_available S e i (tables w) = q" "tables w1 = tables w"
    using sql_read [OF q] by blast
  have k1: "keys w1 = keys w" using sql_frame [OF q] by blast
  show ?thesis
  proof (cases q)
    case (Inl err)
    with assms q have "w' = w1" "\<exists>x. r = Inl x" by (auto simp: reconcile_Item_def split: if_splits)
    then show ?thesis using k1 e(2) by (elim exE) simp
  next
    case (Inr n)
    obtain s where s: "run_state (SeedInventory V i n) w1 = (s, w')"
      and r: "r = (case s of
                 Inl err \<Rightarrow> Inl (wrap_err (''reconcile: seeding redis for item '' @ i @ '': '') err)
               | Inr _ \<Rightarrow> Inr n)"
      using assms q Inr by (auto simp: reconcile_Item_def split: prod.splits)
    note eff = Seed_counter [OF s, unfolded k1 e(2)]
    from select_available_Inr [of S e i "tables w" n] e Inr
    have it: "\<exists>u it. uuid_in S i = Some u \<and> find_item u (tables w) = Some it \<and> n = available_inventory it"
      by simp
    show ?thesis
    proof (cases s)
      case (Inl err)
      with eff r show ?thesis by simp
    next
      case (Inr x)
      then have "s = Inr ()" by simp
      with eff r it show ?thesis by simp
    qed
  qed
qed

lemma each_synced:
  assumes "run_state (reconcile_each S V ids) w = (os, w')" "distinct ids"
  shows "tables w' = tables w \<and> map rec_ItemID os = ids \<and> list_all (synced S (keys w') (tables w)) os
    \<and> (\<forall>k. k \<notin> InventoryKey ` set ids \<longrightarrow> (\<forall>v. keys w k = Some (v, None) \<longrightarrow> keys w' k = Some (v, None)))"
  using assms
proof (induction ids arbitrary: w os)
  case Nil
  then show ?case by simp
next
  case (Cons i ids)
  obtain r w1 os' where i: "run_state (reconcile_Item S V i) w = (r, w1)"
    and rest: "run_state (reconcile_each S V ids) w1 = (os', w')"
    and os: "os = (case r of
             Inl err \<Rightarrow> \<lparr> rec_ItemID = i, rec_Available = 0, rec_Err = Some err \<rparr>
           | Inr avail \<Rightarrow> \<lparr> rec_ItemID = i, rec_Available = avail, rec_Err = None \<rparr>) # os'"
    using Cons.prems(1) by (auto split: prod.splits)
  note one = Item_counter [OF i]
  have ih: "tables w' = tables w1" "map rec_ItemID os' = ids" "list_all (synced S (keys w') (tables w1)) os'"
    "\<And>k v. k \<notin> InventoryKey ` set ids \<Longrightarrow> keys w1 k = Some (v, None) \<Longrightarrow> keys w' k = Some (v, None)"
    using Cons.IH [OF rest] Cons.prems(2) by simp_all
  have "InventoryKey i \<notin> InventoryKey ` set ids" using Cons.prems(2) by auto
  with one ih(4) have "keys w' (InventoryKey i) = Some (int_text n, None)" if "r = Inr n" for n
    using that by blast
  with one have "synced S (keys w') (tables w) (hd os)"
    by (cases r) (simp_all add: os synced_def)
  with one ih os show ?case by (auto split: sum.splits)
qed

end

section \<open>A whole pass\<close>

lemma reconcile_All_synced:
  assumes "platform L V keys clock topic tables" "uuid_io S" "schema_ok (tables w)"
    and run: "run_state (reconcile_All S V) w = (Inr os, w')"
  shows "map rec_ItemID os = map (\<lambda>r. uuid_out S (item_id r)) (sort_key item_id (filter active (items (tables w))))
    \<and> tables w' = tables w
    \<and> (\<forall>x\<in>set os. rec_Err x = None \<longrightarrow>
         keys w' (InventoryKey (rec_ItemID x)) = Some (int_text (rec_Available x), None)
       \<and> (\<exists>u it. uuid_in S (rec_ItemID x) = Some u \<and> find_item u (tables w) = Some it
            \<and> rec_Available x = available_inventory it))"
proof -
  let ?ids = "map (\<lambda>r. uuid_out S (item_id r)) (sort_key item_id (filter active (items (tables w))))"
  obtain q w1 where q: "run_state (sql V (\<lambda>e d. (select_active S e d, d))) w = (q, w1)"
    by (cases "run_state (sql V (\<lambda>e d. (select_active S e d, d))) w")
  obtain ids where ids: "q = Inr ids" "run_state (reconcile_each S V ids) w1 = (os, w')"
    using run q by (auto simp: reconcile_All_def ActiveItemIDs_def split: sum.splits prod.splits)
  note pf = assms(1)
  have "postgres_service V tables" using pf by (simp add: platform_def)
  from postgres_service.sql_read [OF this q] ids
  obtain e where "select_active S e (tables w) = Inr ids" and t1: "tables w1 = tables w" by auto
  then have eq: "ids = ?ids" by (auto simp: select_active_def split: option.splits)
  have "distinct (map item_id (sort_key item_id (filter active (items (tables w)))))"
    using assms(3) by (auto simp: schema_ok_def distinct_map intro: inj_on_subset)
  then have "distinct (map (uuid_out S) (map item_id (sort_key item_id (filter active (items (tables w))))))"
    using uuid_io.uuid_out_inj [OF assms(2)] by (simp only: distinct_map) (auto simp: inj_on_def)
  then have "distinct ids" unfolding eq map_map comp_def .
  from platform.each_synced [OF pf ids(2) this] t1 eq show ?thesis
    by (simp add: list_all_iff synced_def)
qed

section \<open>Properties\<close>

text \<open>
  C21.  A pass over the active items reports exactly the scheduled and on-sale items, each once and in
  order of their identifiers, whatever fails for some of them; the tables stay as they are, and the
  Redis counter of every item reported without error holds what Postgres holds for it.
\<close>

theorem reconcile_All_syncs:
  assumes "platform L V keys clock topic tables" "uuid_io S" "schema_ok (tables w)"
    and run: "run_state (reconcile_All S V) w = (Inr os, w')"
  shows "map rec_ItemID os = map (\<lambda>r. uuid_out S (item_id r)) (sort_key item_id (filter active (items (tables w))))
    \<and> tables w' = tables w
    \<and> (\<forall>x\<in>set os. rec_Err x = None \<longrightarrow>
         keys w' (InventoryKey (rec_ItemID x)) = Some (int_text (rec_Available x), None)
       \<and> (\<exists>u it. uuid_in S (rec_ItemID x) = Some u \<and> find_item u (tables w) = Some it
            \<and> rec_Available x = available_inventory it))"
  by (rule reconcile_All_synced [OF assms])

definition mem_demo :: mem where
  "mem_demo = mem_five\<lparr>m_db := demo_db, m_redis_faults := []\<rparr>"

theorem reconcile_All_syncs_witness:
  "\<exists>os w'. run_state (reconcile_All canonical_server mem_services) mem_demo = (Inr os, w')
    \<and> map rec_ItemID os = [uuid_out canonical_server 7] \<and> m_db w' = demo_db"
proof -
  have "\<exists>os w'. run_state (reconcile_All canonical_server mem_services) mem_demo = (Inr os, w')"
    by (simp add: reconcile_All_def ActiveItemIDs_def mem_sql select_active_def mem_demo_def mem_five_def
        pop_def quiet_env_def Let_def split: prod.split)
  then obtain os w' where run: "run_state (reconcile_All canonical_server mem_services) mem_demo = (Inr os, w')"
    by blast
  have db: "m_db mem_demo = demo_db" by (simp add: mem_demo_def)
  have "schema_ok (m_db mem_demo)" unfolding db by (rule demo_facts)
  from reconcile_All_syncs [OF mem.platform_axioms canonical.uuid_io_axioms this run] run db
  show ?thesis by (simp add: demo_db_def demo_item_def active_def)
qed

end
