(* ===== verification/CheckoutApi.thy ===== *)
theory CheckoutApi
  imports Httpx KafkaX Reconcile
begin

text \<open>
  \<open>cmd/checkout-api/main.go\<close>: the synchronous fast path of a purchase (token, counter, publication,
  and the compensation when the publication fails), the inventory endpoints and the reconciler.
  \<open>handleCheckout_cases\<close> lists every path of a checkout; over the laws of the services it gives what
  each response means for the token, the counter and the topic.
\<close>

section \<open>Requests and responses\<close>

record checkoutRequest =
  req_UserID :: string
  req_Quantity :: int

record checkoutResponse =
  cr_ItemID :: string
  cr_UserID :: string
  cr_Quantity :: int
  cr_Remaining :: int
  cr_IdempotencyKey :: string
  cr_Status :: string
  cr_Note :: string

section \<open>Checkout\<close>

definition releaseAndRegrant :: "'w services \<Rightarrow> string \<Rightarrow> string \<Rightarrow> int \<Rightarrow> int \<Rightarrow> ('w, unit) io" where
  "releaseAndRegrant V itemID userID quantity admissionTTL = do {
     r \<leftarrow> ReleaseInventory V itemID quantity;
     g \<leftarrow> GrantAdmission V itemID userID admissionTTL;
     ret ()
   }"

text \<open>The request body is the decoded JSON, or \<open>None\<close> when decoding it failed.\<close>

definition handleCheckout ::
  "codec \<Rightarrow> 'w services \<Rightarrow> writer \<Rightarrow> int \<Rightarrow> string \<Rightarrow> checkoutRequest option
     \<Rightarrow> ('w, checkoutResponse response) io" where
  "handleCheckout C V wr admissionTTL itemID body =
     (if itemID = [] then ret (WriteError StatusBadRequest ''item id is required'')
      else case body of
        None \<Rightarrow> ret (WriteError StatusBadRequest ''invalid JSON body'')
      | Some req \<Rightarrow>
        if req_UserID req = [] then ret (WriteError StatusBadRequest ''user_id is required'')
        else if req_Quantity req \<le> 0 then ret (WriteError StatusBadRequest ''quantity must be positive'')
        else do {
          consumed \<leftarrow> ConsumeAdmission V itemID (req_UserID req);
          (case consumed of
             Inl err \<Rightarrow> ret (WriteError StatusInternalServerError ''failed to verify admission'')
           | Inr found \<Rightarrow>
             if \<not> found then
               ret (WriteError StatusForbidden ''not admitted -- join the waiting room for this item first'')
             else do {
               decremented \<leftarrow> TryDecrementInventory V itemID (req_Quantity req);
               (case decremented of
                  Inl err \<Rightarrow>
                    ret (if errors_is err ErrInventoryNotFound
                         then WriteError StatusNotFound ''item not found or not on sale''
                         else if errors_is err ErrInsufficientInventory
                         then WriteError StatusConflict ''sold out''
                         else WriteError StatusInternalServerError ''failed to check inventory'')
                | Inr left_units \<Rightarrow> do {
                    key \<leftarrow> NewIdempotencyKey V;
                    (case key of
                       Inl err \<Rightarrow> do {
                         _ \<leftarrow> releaseAndRegrant V itemID (req_UserID req) (req_Quantity req) admissionTTL;
                         ret (WriteError StatusInternalServerError
                           ''failed to submit purchase attempt -- try again'')
                       }
                     | Inr idempotencyKey \<Rightarrow> do {
                         t \<leftarrow> now V;
                         published \<leftarrow> PublishAttempt C V wr
                           \<lparr> pa_ItemID = itemID, pa_UserID = req_UserID req, pa_Quantity = req_Quantity req,
                             pa_IdempotencyKey = idempotencyKey, pa_AttemptedAt = t \<rparr>;
                         (case published of
                            Some err \<Rightarrow> do {
                              _ \<leftarrow> releaseAndRegrant V itemID (req_UserID req) (req_Quantity req) admissionTTL;
                              ret (WriteError StatusServiceUnavailable
                                ''failed to submit purchase attempt -- try again'')
                            }
                          | None \<Rightarrow>
                              ret (WriteJSON StatusOK (Payload
                                \<lparr> cr_ItemID = itemID, cr_UserID = req_UserID req,
                                  cr_Quantity = req_Quantity req, cr_Remaining = left_units,
                                  cr_IdempotencyKey = idempotencyKey, cr_Status = ''pending_confirmation'',
                                  cr_Note = ''fast path admitted and the attempt was durably recorded -- decision-service decides the actual reservation asynchronously; there'' @ [CHR 0x27] @ ''s no status-check endpoint yet'' \<rparr>)))
                       })
                  })
             })
        })"

section \<open>Inventory endpoints\<close>

record item_available =
  ia_item_id :: string
  ia_available :: int

definition handleReconcileItem ::
  "pg_server \<Rightarrow> 'w services \<Rightarrow> string \<Rightarrow> ('w, item_available response) io" where
  "handleReconcileItem S V itemID =
     (if itemID = [] then ret (WriteError StatusBadRequest ''item id is required'')
      else do {
        r \<leftarrow> reconcile_Item S V itemID;
        ret (case r of
               Inl err \<Rightarrow>
                 if errors_is err rec_ErrItemNotFound then WriteError StatusNotFound ''item not found''
                 else WriteError StatusInternalServerError ''failed to reconcile inventory''
             | Inr avail \<Rightarrow>
                 WriteJSON StatusOK (Payload \<lparr> ia_item_id = itemID, ia_available = avail \<rparr>))
      })"

definition handleGetInventory :: "'w services \<Rightarrow> string \<Rightarrow> ('w, item_available response) io" where
  "handleGetInventory V itemID =
     (if itemID = [] then ret (WriteError StatusBadRequest ''item id is required'')
      else do {
        r \<leftarrow> GetInventory V itemID;
        ret (case r of
               Inl err \<Rightarrow>
                 if errors_is err ErrInventoryNotFound
                 then WriteError StatusNotFound ''item not found or not on sale''
                 else WriteError StatusInternalServerError ''failed to read inventory''
             | Inr n \<Rightarrow> WriteJSON StatusOK (Payload \<lparr> ia_item_id = itemID, ia_available = n \<rparr>))
      })"

section \<open>The reconciler\<close>

text \<open>\<open>reconcileOnce\<close> logs how many items it went over and how many failed, or that listing failed.\<close>

definition reconcileOnce :: "pg_server \<Rightarrow> 'w services \<Rightarrow> ('w, (nat \<times> nat) option) io" where
  "reconcileOnce S V = do {
     r \<leftarrow> reconcile_All S V;
     ret (case r of
            Inl err \<Rightarrow> None
          | Inr outcomes \<Rightarrow> Some (length outcomes, length (filter (\<lambda>x. rec_Err x \<noteq> None) outcomes)))
   }"

text \<open>The loop of \<open>runReconciler\<close> over what its \<open>select\<close> receives.\<close>

datatype loop_event = Tick | CtxDone

fun runReconciler :: "pg_server \<Rightarrow> 'w services \<Rightarrow> loop_event list \<Rightarrow> ('w, unit) io" where
  "runReconciler S V [] = ret ()"
| "runReconciler S V (CtxDone # es) = ret ()"
| "runReconciler S V (Tick # es) = do {
     _ \<leftarrow> reconcileOnce S V;
     runReconciler S V es
   }"

section \<open>Routes\<close>

datatype checkout_route = CheckoutHealth | Checkout string | ReconcileItem string | ItemInventory string

text \<open>A \<open>GET\<close> pattern also serves \<open>HEAD\<close>; a known path with another method is answered 405.\<close>

definition checkout_newServer :: "string \<Rightarrow> string list \<Rightarrow> int + checkout_route" where
  "checkout_newServer meth path =
     (let get = (meth = ''GET'' \<or> meth = ''HEAD''); post = (meth = ''POST'')
      in case path of
           [p] \<Rightarrow> if p = ''healthz'' then (if get then Inr CheckoutHealth else Inl StatusMethodNotAllowed)
                  else Inl StatusNotFound
         | [p, itemID, q] \<Rightarrow>
             if p \<noteq> ''items'' then Inl StatusNotFound
             else if q = ''checkout'' then (if post then Inr (Checkout itemID) else Inl StatusMethodNotAllowed)
             else if q = ''reconcile'' then (if post then Inr (ReconcileItem itemID) else Inl StatusMethodNotAllowed)
             else if q = ''inventory'' then (if get then Inr (ItemInventory itemID) else Inl StatusMethodNotAllowed)
             else Inl StatusNotFound
         | _ \<Rightarrow> Inl StatusNotFound)"

section \<open>The paths of a checkout\<close>

definition attempt_event :: "string \<Rightarrow> checkoutRequest \<Rightarrow> string \<Rightarrow> int \<Rightarrow> purchase_attempted" where
  "attempt_event itemID req key t =
     \<lparr> pa_ItemID = itemID, pa_UserID = req_UserID req, pa_Quantity = req_Quantity req,
       pa_IdempotencyKey = key, pa_AttemptedAt = t \<rparr>"

lemma handleCheckout_cases:
  assumes "run_state (handleCheckout C V wr ttl i body) w = (resp, w')"
  obtains
    (bad) "resp_status resp = 400" "w' = w"
  | (verify) e req where "resp_status resp = 500" "body = Some req"
      "run_state (ConsumeAdmission V i (req_UserID req)) w = (Inl e, w')"
  | (forbidden) req where "resp_status resp = 403" "body = Some req"
      "run_state (ConsumeAdmission V i (req_UserID req)) w = (Inr False, w')"
  | (stock) req w1 e where "body = Some req" "0 < req_Quantity req"
      "run_state (ConsumeAdmission V i (req_UserID req)) w = (Inr True, w1)"
      "run_state (TryDecrementInventory V i (req_Quantity req)) w1 = (Inl e, w')"
      "resp_status resp = (if errors_is e ErrInventoryNotFound then 404
         else if errors_is e ErrInsufficientInventory then 409 else 500)"
  | (nokey) req w1 n w2 w3 e where "body = Some req" "0 < req_Quantity req" "resp_status resp = 500"
      "run_state (ConsumeAdmission V i (req_UserID req)) w = (Inr True, w1)"
      "run_state (TryDecrementInventory V i (req_Quantity req)) w1 = (Inr n, w2)"
      "run_state (NewIdempotencyKey V) w2 = (Inl e, w3)"
      "run_state (releaseAndRegrant V i (req_UserID req) (req_Quantity req) ttl) w3 = ((), w')"
  | (unpublished) req w1 n w2 key w3 t w4 e w5 where "body = Some req" "0 < req_Quantity req"
      "resp_status resp = 503"
      "run_state (ConsumeAdmission V i (req_UserID req)) w = (Inr True, w1)"
      "run_state (TryDecrementInventory V i (req_Quantity req)) w1 = (Inr n, w2)"
      "run_state (NewIdempotencyKey V) w2 = (Inr key, w3)" "time_now V w3 = (t, w4)"
      "run_state (PublishAttempt C V wr (attempt_event i req key t)) w4 = (Some e, w5)"
      "run_state (releaseAndRegrant V i (req_UserID req) (req_Quantity req) ttl) w5 = ((), w')"
  | (published) req w1 n w2 key w3 t w4 txt' where "body = Some req" "0 < req_Quantity req"
      "resp_status resp = 200"
      "run_state (ConsumeAdmission V i (req_UserID req)) w = (Inr True, w1)"
      "run_state (TryDecrementInventory V i (req_Quantity req)) w1 = (Inr n, w2)"
      "run_state (NewIdempotencyKey V) w2 = (Inr key, w3)" "time_now V w3 = (t, w4)"
      "run_state (PublishAttempt C V wr (attempt_event i req key t)) w4 = (None, w')"
      "resp_body resp = Payload \<lparr> cr_ItemID = i, cr_UserID = req_UserID req,
         cr_Quantity = req_Quantity req, cr_Remaining = n, cr_IdempotencyKey = key,
         cr_Status = ''pending_confirmation'', cr_Note = txt' \<rparr>"
proof -
  note run = assms [unfolded handleCheckout_def]
  show thesis
  proof (cases "i = [] \<or> body = None \<or> (\<exists>req. body = Some req \<and> (req_UserID req = [] \<or> req_Quantity req \<le> 0))")
    case True
    with run have "resp_status resp = 400" "w' = w"
      by (auto simp: status_defs split: if_splits)
    then show thesis by (rule bad)
  next
    case False
    then obtain req where req: "i \<noteq> []" "body = Some req" "req_UserID req \<noteq> []" "0 < req_Quantity req"
      by (auto simp: not_le)
    obtain c w1 where c: "run_state (ConsumeAdmission V i (req_UserID req)) w = (c, w1)"
      by (cases "run_state (ConsumeAdmission V i (req_UserID req)) w")
    note run1 = run [unfolded req(2)]
    show thesis
    proof (cases "c = Inr True")
      case False
      with run1 req c show thesis
        by (cases c) (auto simp: status_defs intro: verify forbidden split: if_splits)
    next
      case True
      obtain q w2 where q: "run_state (TryDecrementInventory V i (req_Quantity req)) w1 = (q, w2)"
        by (cases "run_state (TryDecrementInventory V i (req_Quantity req)) w1")
      show thesis
      proof (cases q)
        case (Inl e)
        with run1 req c True q show thesis
          by (intro stock [of req w1 e]) (auto simp: status_defs split: if_splits)
      next
        case (Inr n)
        obtain k w3 where k: "run_state (NewIdempotencyKey V) w2 = (k, w3)"
          by (cases "run_state (NewIdempotencyKey V) w2")
        show thesis
        proof (cases k)
          case (Inl e)
          with run1 req c True q Inr k show thesis
            by (intro nokey [of req w1 n w2 e w3]) (auto simp: status_defs split: prod.splits)
        next
          case key: (Inr key)
          obtain t w4 where t: "time_now V w3 = (t, w4)" by (cases "time_now V w3")
          obtain p w5 where p: "run_state (PublishAttempt C V wr (attempt_event i req key t)) w4 = (p, w5)"
            by (cases "run_state (PublishAttempt C V wr (attempt_event i req key t)) w4")
          show thesis
          proof (cases p)
            case None
            with run1 req c True q Inr k key t p show thesis
              by (intro published [of req w1 n w2 key w3 t w4])
                (auto simp: status_defs attempt_event_def)
          next
            case (Some e)
            with run1 req c True q Inr k key t p show thesis
              by (intro unpublished [of req w1 n w2 key w3 t w4 e w5])
                (auto simp: status_defs attempt_event_def split: prod.splits)
          qed
        qed
      qed
    qed
  qed
qed

section \<open>What the steps leave alone\<close>

context redis_service
begin

lemma Consume_keeps:
  assumes "run_state (ConsumeAdmission V i u) w = (c, w')" "keys w k = Some (v, None)" "k \<noteq> AdmissionKey i u"
  shows "keys w' k = Some (v, None)"
proof -
  obtain r where "redis_cmd V (GETDEL (AdmissionKey i u)) w = (r, w')"
    using assms(1) by (auto simp: ConsumeAdmission_def split: prod.splits)
  from other_key [OF _ this, of k] assms(2,3) show ?thesis by simp
qed

lemma Grant_keeps:
  assumes "run_state (GrantAdmission V i u ttl) w = (g, w')" "keys w k = Some (v, None)" "k \<noteq> AdmissionKey i u"
  shows "keys w' k = Some (v, None)"
proof (cases "ttl \<le> 0")
  case True
  with assms show ?thesis by (auto simp: GrantAdmission_def)
next
  case False
  obtain t w1 r where t: "time_now V w = (t, w1)"
    and "redis_cmd V (SET (AdmissionKey i u) (rfc3339 t) ttl) w1 = (r, w')"
    using assms(1) False by (auto simp: GrantAdmission_def split: prod.splits)
  from other_key [OF _ this(2), of k] assms(2,3) time_local [of w] t show ?thesis by simp
qed

lemma releaseAndRegrant_counter:
  assumes "run_state (releaseAndRegrant V i u q ttl) w = ((), w')"
    and "keys w (InventoryKey i) = Some (int_text n, None)" "0 \<le> n" "0 < q" "n + q < 2 ^ 53"
  shows "keys w' (InventoryKey i) = Some (int_text n, None) \<or> keys w' (InventoryKey i) = Some (int_text (n + q), None)"
proof -
  obtain r w1 g where r: "run_state (ReleaseInventory V i q) w = (r, w1)"
    and g: "run_state (GrantAdmission V i u ttl) w1 = (g, w')"
    using assms(1) by (auto simp: releaseAndRegrant_def split: prod.splits)
  from Release_counter [OF assms(2-5) r] assms(2)
  have "keys w1 (InventoryKey i) = Some (int_text n, None) \<or> keys w1 (InventoryKey i) = Some (int_text (n + q), None)"
    by auto
  then show ?thesis using Grant_keeps [OF g] by auto
qed

end

context platform
begin

lemma Redis_step_topics:
  "run_state (ConsumeAdmission V i u) w = (c, w') \<Longrightarrow> topic t w' = topic t w"
  "run_state (TryDecrementInventory V i q) w = (d, w') \<Longrightarrow> topic t w' = topic t w"
  "run_state (ReleaseInventory V i q) w = (r, w') \<Longrightarrow> topic t w' = topic t w"
  "run_state (GrantAdmission V i u ttl) w = (g, w') \<Longrightarrow> topic t w' = topic t w"
  using redis_frame time_frame
  by (auto simp: ConsumeAdmission_def TryDecrementInventory_def ReleaseInventory_def GrantAdmission_def
      split: prod.splits if_splits)

lemma releaseAndRegrant_topics:
  "run_state (releaseAndRegrant V i u q ttl) w = ((), w') \<Longrightarrow> topic t w' = topic t w"
  using Redis_step_topics(3,4) by (auto simp: releaseAndRegrant_def split: prod.splits)

lemma NewIdempotencyKey_frame:
  "run_state (NewIdempotencyKey V) w = (k, w') \<Longrightarrow> keys w' = keys w \<and> topic t w' = topic t w"
  using rand_frame by (auto simp: NewIdempotencyKey_def split: prod.splits)

lemma PublishAttempt_frame:
  assumes "run_state (PublishAttempt C V wr a) w = (p, w')"
  shows "keys w' = keys w"
proof (cases "marshal_attempt C a")
  case (Inl e)
  with assms show ?thesis by (simp add: PublishAttempt_def)
next
  case (Inr v)
  obtain ke where "kafka_write V (w_Topic wr) \<lparr> msg_key = pa_ItemID a, msg_value = v \<rparr> w = (ke, w')"
    using assms Inr by (auto simp: PublishAttempt_def split: prod.splits)
  from kafka_frame [OF this] show ?thesis by blast
qed

lemma time_keys: "time_now V w = (t, w') \<Longrightarrow> keys w' = keys w"
  using time_local [of w] by auto

end

section \<open>Units along the paths\<close>

context platform
begin

text \<open>Token found and counter decremented: the state in which the attempt is published.\<close>

lemma admitted_and_taken:
  assumes "run_state (ConsumeAdmission V i u) w = (Inr True, w1)"
    and "run_state (TryDecrementInventory V i q) w1 = (Inr m, w2)"
    and "keys w (InventoryKey i) = Some (int_text n, None)" "0 \<le> n" "n < 2 ^ 53" "0 < q" "int64 q"
  shows "q \<le> n \<and> m = n - q \<and> keys w2 (InventoryKey i) = Some (int_text (n - q), None)
    \<and> keys w2 (AdmissionKey i u) = None \<and> keys w (AdmissionKey i u) \<noteq> None"
proof -
  have c1: "keys w1 (InventoryKey i) = Some (int_text n, None)"
    using Consume_keeps [OF assms(1,3)] by simp
  have tok: "live (clock w1) (keys w) (AdmissionKey i u) \<noteq> None" "keys w1 (AdmissionKey i u) = None"
    using Consume_token [OF assms(1)] by simp_all
  have "keys w (AdmissionKey i u) \<noteq> None" using tok(1) by (auto simp: live_def split: option.splits)
  moreover have "q \<le> n \<and> m = n - q \<and> keys w2 = (live (clock w2) (keys w1))(InventoryKey i \<mapsto> (int_text (n - q), None))"
    using TryDecrement_counter [OF c1 assms(4-7,2)] by auto
  ultimately show ?thesis using tok(2) by simp
qed

lemma undone_counter:
  assumes "run_state (releaseAndRegrant V i u q ttl) w = ((), w')"
    and "keys w (InventoryKey i) = Some (int_text (n - q), None)" "q \<le> n" "n < 2 ^ 53" "0 < q"
  shows "keys w' (InventoryKey i) = Some (int_text n, None) \<or> keys w' (InventoryKey i) = Some (int_text (n - q), None)"
  using releaseAndRegrant_counter [OF assms(1,2)] assms(3-5) by auto

lemma checkout_counter:
  assumes run: "run_state (handleCheckout C V wr ttl i body) w = (resp, w')"
    and seeded: "keys w (InventoryKey i) = Some (int_text n, None)" "0 \<le> n" "n < 2 ^ 53"
    and range: "\<And>req. body = Some req \<Longrightarrow> int64 (req_Quantity req)"
  shows "keys w' (InventoryKey i) = Some (int_text n, None)
    \<or> (\<exists>req. body = Some req \<and> 0 < req_Quantity req \<and> req_Quantity req \<le> n
        \<and> keys w' (InventoryKey i) = Some (int_text (n - req_Quantity req), None))"
proof (rule handleCheckout_cases [OF run])
  assume "w' = w"
  with seeded show ?thesis by simp
next
  fix e req assume "run_state (ConsumeAdmission V i (req_UserID req)) w = (Inl e, w')"
  from Consume_keeps [OF this seeded(1)] show ?thesis by simp
next
  fix req assume "run_state (ConsumeAdmission V i (req_UserID req)) w = (Inr False, w')"
  from Consume_keeps [OF this seeded(1)] show ?thesis by simp
next
  fix req w1 e
  assume *: "body = Some req" "0 < req_Quantity req"
    "run_state (ConsumeAdmission V i (req_UserID req)) w = (Inr True, w1)"
    "run_state (TryDecrementInventory V i (req_Quantity req)) w1 = (Inl e, w')"
  have c1: "keys w1 (InventoryKey i) = Some (int_text n, None)"
    using Consume_keeps [OF *(3) seeded(1)] by simp
  from TryDecrement_counter [OF c1 seeded(2,3) *(2) range [OF *(1)] *(4)] c1 *(1,2) show ?thesis by auto
next
  fix req w1 m w2 w3 e
  assume *: "body = Some req" "0 < req_Quantity req"
    "run_state (ConsumeAdmission V i (req_UserID req)) w = (Inr True, w1)"
    "run_state (TryDecrementInventory V i (req_Quantity req)) w1 = (Inr m, w2)"
    "run_state (NewIdempotencyKey V) w2 = (Inl e, w3)"
    "run_state (releaseAndRegrant V i (req_UserID req) (req_Quantity req) ttl) w3 = ((), w')"
  note taken = admitted_and_taken [OF *(3,4) seeded *(2) range [OF *(1)]]
  with NewIdempotencyKey_frame [OF *(5)] undone_counter [OF *(6), of n] seeded(3) *(1,2)
  show ?thesis by auto
next
  fix req w1 m w2 key w3 t w4 e w5
  assume *: "body = Some req" "0 < req_Quantity req"
    "run_state (ConsumeAdmission V i (req_UserID req)) w = (Inr True, w1)"
    "run_state (TryDecrementInventory V i (req_Quantity req)) w1 = (Inr m, w2)"
    "run_state (NewIdempotencyKey V) w2 = (Inr key, w3)" "time_now V w3 = (t, w4)"
    "run_state (PublishAttempt C V wr (attempt_event i req key t)) w4 = (Some e, w5)"
    "run_state (releaseAndRegrant V i (req_UserID req) (req_Quantity req) ttl) w5 = ((), w')"
  note taken = admitted_and_taken [OF *(3,4) seeded *(2) range [OF *(1)]]
  have "keys w5 = keys w2"
    using NewIdempotencyKey_frame [OF *(5)] time_keys [OF *(6)] PublishAttempt_frame [OF *(7)] by simp
  with taken undone_counter [OF *(8), of n] seeded(3) *(1,2) show ?thesis by auto
next
  fix req w1 m w2 key w3 t w4 txt'
  assume *: "body = Some req" "0 < req_Quantity req"
    "run_state (ConsumeAdmission V i (req_UserID req)) w = (Inr True, w1)"
    "run_state (TryDecrementInventory V i (req_Quantity req)) w1 = (Inr m, w2)"
    "run_state (NewIdempotencyKey V) w2 = (Inr key, w3)" "time_now V w3 = (t, w4)"
    "run_state (PublishAttempt C V wr (attempt_event i req key t)) w4 = (None, w')"
  note taken = admitted_and_taken [OF *(3,4) seeded *(2) range [OF *(1)]]
  have "keys w' = keys w2"
    using NewIdempotencyKey_frame [OF *(5)] time_keys [OF *(6)] PublishAttempt_frame [OF *(7)] by simp
  with taken *(1,2) show ?thesis by auto
qed

lemma checkout_accepted:
  assumes run: "run_state (handleCheckout C V wr ttl i body) w = (resp, w')" "resp_status resp = 200"
    and seeded: "keys w (InventoryKey i) = Some (int_text n, None)" "0 \<le> n" "n < 2 ^ 53"
    and range: "\<And>req. body = Some req \<Longrightarrow> int64 (req_Quantity req)"
  shows "\<exists>req key t v k txt'. body = Some req \<and> 0 < req_Quantity req \<and> req_Quantity req \<le> n
    \<and> resp_body resp = Payload \<lparr> cr_ItemID = i, cr_UserID = req_UserID req, cr_Quantity = req_Quantity req,
         cr_Remaining = n - req_Quantity req, cr_IdempotencyKey = key, cr_Status = ''pending_confirmation'',
         cr_Note = txt' \<rparr>
    \<and> keys w (AdmissionKey i (req_UserID req)) \<noteq> None \<and> keys w' (AdmissionKey i (req_UserID req)) = None
    \<and> keys w' (InventoryKey i) = Some (int_text (n - req_Quantity req), None)
    \<and> marshal_attempt C (attempt_event i req key t) = Inr v
    \<and> topic (w_Topic wr) w' = topic (w_Topic wr) w @ replicate (Suc k) \<lparr> msg_key = i, msg_value = v \<rparr>"
  using run(1)
proof (cases rule: handleCheckout_cases)
  case (published req w1 m w2 key w3 t w4 txt')
  note taken = admitted_and_taken [OF published(4,5) seeded published(2) range [OF published(1)]]
  have keys: "keys w' = keys w2"
    using NewIdempotencyKey_frame [OF published(6)] time_keys [OF published(7)]
      PublishAttempt_frame [OF published(8)] by simp
  have top: "topic (w_Topic wr) w4 = topic (w_Topic wr) w"
    using Redis_step_topics(1) [OF published(4)] Redis_step_topics(2) [OF published(5)]
      NewIdempotencyKey_frame [OF published(6)] time_frame [OF published(7)] by simp
  obtain v k where pub: "marshal_attempt C (attempt_event i req key t) = Inr v"
    "topic (w_Topic wr) w' = topic (w_Topic wr) w4 @ replicate (Suc k) \<lparr> msg_key = i, msg_value = v \<rparr>"
    using PublishAttempt_acknowledged [OF published(8)] by (auto simp: attempt_event_def)
  show ?thesis
    using published(1,2,9) taken keys top pub
    by (intro exI [of _ req] exI [of _ key] exI [of _ t] exI [of _ v] exI [of _ k] exI [of _ txt']) simp
qed (use run(2) in \<open>auto split: if_splits\<close>)

end

section \<open>Compensation when Redis answers\<close>

context reliable_platform
begin

lemma Consume_reliable:
  assumes "run_state (ConsumeAdmission V i u) w = (c, w')"
  shows "\<exists>found. c = Inr found"
proof -
  obtain r where cmd: "redis_cmd V (GETDEL (AdmissionKey i u)) w = (r, w')"
    and c: "c = (case reply_err r of
            Some err \<Rightarrow> if errors_is err RedisNil then Inr False
              else Inl (wrap_err (''redisx: consuming admission token for item '' @ i @ '' user ''
                @ u @ '': '') err)
          | None \<Rightarrow> Inr True)"
    using assms by (auto simp: ConsumeAdmission_def split: prod.splits)
  have "r = (case live (clock w') (keys w) (AdmissionKey i u) of None \<Rightarrow> RNil | Some (v, dl) \<Rightarrow> RBulk v)"
    using executed [OF cmd redis_effect.simps(3)] by (auto split: option.splits)
  then show ?thesis using c by (auto split: option.splits)
qed

lemma TryDecrement_reliable:
  assumes "keys w (InventoryKey i) = Some (int_text n, None)" "0 \<le> n" "n < 2 ^ 53" "0 < q" "int64 q"
    and run: "run_state (TryDecrementInventory V i q) w = (Inl e, w')"
  shows "errors_is e ErrInsufficientInventory \<and> \<not> errors_is e ErrInventoryNotFound \<and> n < q
    \<and> keys w' = live (clock w') (keys w)"
proof -
  obtain r where cmd: "redis_cmd V (EVAL_DECREMENT (InventoryKey i) (int_text q)) w = (r, w')"
    using run assms(4) by (auto simp: TryDecrementInventory_def split: prod.splits)
  have "\<not> failed_reply r"
  proof
    assume "failed_reply r"
    from reachable [OF cmd this] assms(1-5) show False
      by (simp add: decrementScript_exact split: if_splits)
  qed
  then have "\<exists>n. r = RInt n"
    using answered [OF cmd] assms(1-5) by (auto simp: decrementScript_exact split: if_splits)
  then have "e = ErrInventoryNotFound \<or> e = ErrInsufficientInventory"
    using run assms(4) cmd by (auto simp: TryDecrementInventory_def split: if_splits)
  with TryDecrement_counter [OF assms] show ?thesis by auto
qed

lemma releaseAndRegrant_reliable:
  assumes "run_state (releaseAndRegrant V i u q ttl) w = ((), w')"
    and "keys w (InventoryKey i) = Some (int_text n, None)" "0 \<le> n" "0 < q" "n + q < 2 ^ 53" "0 < ttl"
  shows "keys w' (InventoryKey i) = Some (int_text (n + q), None)
    \<and> (\<exists>v. keys w' (AdmissionKey i u) = Some (v, Some (clock w' + max Millisecond ttl)))"
proof -
  obtain r w1 g where r: "run_state (ReleaseInventory V i q) w = (r, w1)"
    and g: "run_state (GrantAdmission V i u ttl) w1 = (g, w')"
    using assms(1) by (auto simp: releaseAndRegrant_def split: prod.splits)
  obtain p where cmd: "redis_cmd V (INCRBY (InventoryKey i) q) w = (p, w1)"
    using r assms(4) by (auto simp: ReleaseInventory_def split: prod.splits)
  have "int64 n" "int64 (n + q)" using assms(3-5) by (auto simp: int64_def int64_min_def int64_max_def)
  then have "redis_effect L (clock w1) (INCRBY (InventoryKey i) q) (live (clock w1) (keys w))
      = (RInt (n + q), (live (clock w1) (keys w))(InventoryKey i \<mapsto> (int_text (n + q), None)))"
    using assms(2) by (simp add: incr_by_def)
  from executed [OF cmd this] have c1: "keys w1 (InventoryKey i) = Some (int_text (n + q), None)" by simp
  obtain t w2 p2 where t: "time_now V w1 = (t, w2)"
    and cmd2: "redis_cmd V (SET (AdmissionKey i u) (rfc3339 t) ttl) w2 = (p2, w')"
    and g2: "g = errorless (reply_err p2)"
    using g assms(6) by (auto simp: GrantAdmission_def split: prod.splits)
  from executed [OF cmd2 redis_effect.simps(2)] g2 have "g = Inr ()" by simp
  with Grant_token [of i u ttl w1 w'] g Grant_keeps [OF g c1] show ?thesis by simp
qed

lemma checkout_rejected:
  assumes run: "run_state (handleCheckout C V wr ttl i (Some req)) w = (resp, w')" "resp_status resp \<noteq> 200"
    and seeded: "keys w (InventoryKey i) = Some (int_text n, None)" "0 \<le> n" "n < 2 ^ 53"
    and req: "int64 (req_Quantity req)" "0 < ttl"
  shows "keys w' (InventoryKey i) = Some (int_text n, None)
    \<and> (resp_status resp = 400
       \<or> resp_status resp = 403
       \<or> resp_status resp = 409 \<and> n < req_Quantity req
       \<or> (resp_status resp = 500 \<or> resp_status resp = 503)
          \<and> (\<exists>v. keys w' (AdmissionKey i (req_UserID req)) = Some (v, Some (clock w' + max Millisecond ttl))))"
  using run(1)
proof (cases rule: handleCheckout_cases)
  case bad
  with seeded show ?thesis by simp
next
  case (verify e r)
  with Consume_reliable show ?thesis by blast
next
  case (forbidden r)
  with Consume_keeps [OF forbidden(3) seeded(1)] show ?thesis by simp
next
  case (stock r w1 e)
  have c1: "keys w1 (InventoryKey i) = Some (int_text n, None)"
    using Consume_keeps [OF stock(3) seeded(1)] by simp
  have q: "int64 (req_Quantity r)" using req stock(1) by simp
  from TryDecrement_reliable [OF c1 seeded(2,3) stock(2) q stock(4)] c1 stock(1,5) show ?thesis by auto
next
  case (nokey r w1 m w2 w3 e)
  have q: "int64 (req_Quantity r)" "r = req" using req nokey(1) by simp_all
  note taken = admitted_and_taken [OF nokey(4,5) seeded nokey(2) q(1)]
  then have "keys w3 (InventoryKey i) = Some (int_text (n - req_Quantity r), None)"
    using NewIdempotencyKey_frame [OF nokey(6)] by simp
  from releaseAndRegrant_reliable [OF nokey(7) this] taken nokey(2,3) seeded(3) req(2) q(2) show ?thesis by auto
next
  case (unpublished r w1 m w2 key w3 t w4 e w5)
  have q: "int64 (req_Quantity r)" "r = req" using req unpublished(1) by simp_all
  note taken = admitted_and_taken [OF unpublished(4,5) seeded unpublished(2) q(1)]
  then have "keys w5 (InventoryKey i) = Some (int_text (n - req_Quantity r), None)"
    using NewIdempotencyKey_frame [OF unpublished(6)] time_keys [OF unpublished(7)]
      PublishAttempt_frame [OF unpublished(8)] by simp
  from releaseAndRegrant_reliable [OF unpublished(9) this] taken unpublished(2,3) seeded(3) req(2) q(2)
  show ?thesis by auto
next
  case published
  with run(2) show ?thesis by simp
qed

end

section \<open>Example world\<close>

text \<open>A plain text codec, five units of item \<open>i\<close>, and a token of user \<open>u\<close>; used by the witnesses.\<close>

definition text_codec :: codec where
  "text_codec =
     \<lparr> marshal_attempt = (\<lambda>a. Inr (pa_ItemID a @ '' '' @ pa_UserID a @ '' '' @ pa_IdempotencyKey a)),
       unmarshal_attempt = (\<lambda>s. Inl (PlainErr ''not used'')),
       marshal_joined = (\<lambda>b. Inr (bj_ItemID b @ '' '' @ bj_UserID b)),
       unmarshal_joined = (\<lambda>s. Inl (PlainErr ''not used'')),
       marshal_dead = (\<lambda>d. Inr (dl_OriginalValue d)) \<rparr>"

definition mem_sale :: mem where
  "mem_sale = mem_five\<lparr>m_store := [InventoryKey ''i'' \<mapsto> (int_text 5, None), AdmissionKey ''i'' ''u'' \<mapsto> (''t'', Some Minute)],
     m_redis_faults := [], m_rand := replicate 16 1\<rparr>"

definition demo_request :: checkoutRequest where
  "demo_request = \<lparr> req_UserID = ''u'', req_Quantity = 3 \<rparr>"

lemma mem_sale_seeded: "m_store mem_sale (InventoryKey ''i'') = Some (int_text 5, None)"
  by (simp add: mem_sale_def)

lemma mem_sale_extra [simp]:
  "m_store (mem_sale\<lparr>m_kafka_faults := ks, m_redis_faults := rs\<rparr>) = m_store mem_sale"
  "m_store (mem_sale\<lparr>m_kafka_faults := ks\<rparr>) = m_store mem_sale"
  by simp_all

section \<open>Properties\<close>


lemma demo_checkout_status:
  "resp_status (fst (run_state (handleCheckout text_codec mem_services (NewWriter []) Minute ''i'' (Some demo_request)) mem_sale)) = 200"
proof -
  have texts: "parse_int64 (int_text 3) = Some 3" "parse_int64 (int_text 5) = Some 5" "dbl 3 = 3" "dbl 5 = 5" "dbl 2 = 2"
    "redis_int (int_text 3) = Some 3" "redis_int (int_text 5) = Some 5"
    by (simp_all add: parse_int64_int_text int64_def int64_min_def int64_max_def dbl_exact)
  show ?thesis
    by (simp add: handleCheckout_def go_defs mem_redis_def mem_sale_def mem_five_def demo_request_def
        pop_def Let_def duration_defs decrementScript_def decr_by_def incr_by_def double_lua_def texts
        int64_def int64_min_def int64_max_def mem_kafka_def text_codec_def mem_services_def status_defs)
qed


text \<open>
  C9.  A refused purchase costs nothing while Redis answers.  If Redis itself does not fail, then
  whatever fails elsewhere, after any response other than 200 the counter is what it was, and either
  the request was malformed (400), the buyer had no token (403), the counter really had less than the
  quantity (409), or the attempt could not be submitted (500, 503) and the buyer holds a fresh token.
\<close>

theorem checkout_refused_compensates:
  assumes "reliable_platform L V keys clock topic tables"
    and "run_state (handleCheckout C V wr ttl i (Some req)) w = (resp, w')" "resp_status resp \<noteq> 200"
    and "keys w (InventoryKey i) = Some (int_text n, None)" "0 \<le> n" "n < 2 ^ 53"
    and "int64 (req_Quantity req)" "0 < ttl"
  shows "keys w' (InventoryKey i) = Some (int_text n, None)
    \<and> (resp_status resp = 400
       \<or> resp_status resp = 403
       \<or> resp_status resp = 409 \<and> n < req_Quantity req
       \<or> (resp_status resp = 500 \<or> resp_status resp = 503)
          \<and> (\<exists>v. keys w' (AdmissionKey i (req_UserID req)) = Some (v, Some (clock w' + max Millisecond ttl))))"
  by (rule reliable_platform.checkout_rejected [OF assms])

definition mem_no_broker :: mem where
  "mem_no_broker = mem_sale\<lparr>m_kafka_faults := [Some (PlainErr ''EOF'', 0)]\<rparr>"

lemma no_broker_status:
  "resp_status (fst (run_state (handleCheckout text_codec calm_services (NewWriter []) Minute ''i'' (Some demo_request)) mem_no_broker)) = 503"
proof -
  have texts: "parse_int64 (int_text 3) = Some 3" "parse_int64 (int_text 5) = Some 5" "dbl 3 = 3" "dbl 5 = 5" "dbl 2 = 2"
    "redis_int (int_text 3) = Some 3" "redis_int (int_text 5) = Some 5"
    by (simp_all add: parse_int64_int_text int64_def int64_min_def int64_max_def dbl_exact)
  show ?thesis
    by (simp add: handleCheckout_def go_defs releaseAndRegrant_def calm_services_def mem_redis_def mem_no_broker_def
        mem_sale_def mem_five_def demo_request_def
        pop_def Let_def duration_defs decrementScript_def decr_by_def incr_by_def double_lua_def texts
        int64_def int64_min_def int64_max_def mem_kafka_def text_codec_def mem_services_def status_defs split: prod.split)
qed

theorem checkout_refused_compensates_witness:
  "\<exists>resp w'. run_state (handleCheckout text_codec calm_services (NewWriter []) Minute ''i'' (Some demo_request)) mem_no_broker
      = (resp, w') \<and> resp_status resp = 503 \<and> m_store w' (InventoryKey ''i'') = Some (int_text 5, None)
    \<and> m_store w' (AdmissionKey ''i'' ''u'') \<noteq> None"
proof -
  let ?run = "run_state (handleCheckout text_codec calm_services (NewWriter []) Minute ''i'' (Some demo_request)) mem_no_broker"
  obtain resp w' where run: "?run = (resp, w')" by (cases ?run)
  have st: "resp_status resp = 503" using no_broker_status run by simp
  have seeded: "m_store mem_no_broker (InventoryKey ''i'') = Some (int_text 5, None)"
    using mem_sale_seeded by (simp add: mem_no_broker_def)
  have "int64 (req_Quantity demo_request)" "req_UserID demo_request = ''u''"
    by (simp_all add: demo_request_def int64_def int64_min_def int64_max_def)
  with checkout_refused_compensates [OF calm.reliable_platform_axioms run _ seeded _ _ this(1)] st run
  show ?thesis by (auto simp: duration_defs)
qed


text \<open>A client that disconnects while its attempt is published: every later call of the request fails.\<close>

definition mem_disconnect :: mem where
  "mem_disconnect = mem_sale\<lparr>m_kafka_faults := [Some (ErrCanceled, 0)],
     m_redis_faults := [None, None, Some (''context canceled'', False), Some (''context canceled'', False)]\<rparr>"

lemma mem_disconnect_run:
  "resp_status (fst (run_state (handleCheckout text_codec mem_services (NewWriter []) Minute ''i'' (Some demo_request)) mem_disconnect)) = 503
   \<and> m_store (snd (run_state (handleCheckout text_codec mem_services (NewWriter []) Minute ''i'' (Some demo_request)) mem_disconnect))
       (InventoryKey ''i'') = Some (int_text 2, None)
   \<and> m_store (snd (run_state (handleCheckout text_codec mem_services (NewWriter []) Minute ''i'' (Some demo_request)) mem_disconnect))
       (AdmissionKey ''i'' ''u'') = None
   \<and> m_topics (snd (run_state (handleCheckout text_codec mem_services (NewWriter []) Minute ''i'' (Some demo_request)) mem_disconnect))
       CheckoutAttemptsTopic = []"
proof -
  have texts: "parse_int64 (int_text 3) = Some 3" "parse_int64 (int_text 5) = Some 5" "dbl 3 = 3" "dbl 5 = 5" "dbl 2 = 2"
    "redis_int (int_text 3) = Some 3" "redis_int (int_text 5) = Some 5"
    by (simp_all add: parse_int64_int_text int64_def int64_min_def int64_max_def dbl_exact)
  show ?thesis
    by (simp add: handleCheckout_def go_defs releaseAndRegrant_def mem_redis_def mem_disconnect_def
        mem_sale_def mem_five_def demo_request_def NewWriter_def
        pop_def Let_def duration_defs decrementScript_def decr_by_def incr_by_def double_lua_def texts
        int64_def int64_min_def int64_max_def mem_kafka_def text_codec_def mem_services_def status_defs)
qed



text \<open>
  After the reconcile endpoint answered 200 for an item, the inventory endpoint, asked next, never
  says that the item is unknown, and when it answers 200 it reports the same number.
\<close>

theorem reconcile_then_inventory:
  assumes "platform L V keys clock topic tables" "i \<noteq> []"
    and "run_state (handleReconcileItem S V i) w = (r1, w1)" "resp_body r1 = Payload p1"
    and "int64 (ia_available p1)"
    and "run_state (handleGetInventory V i) w1 = (r2, w2)"
  shows "resp_status r2 \<noteq> 404 \<and> (resp_status r2 = 200 \<longrightarrow> resp_body r2 = resp_body r1)"
proof -
  obtain q where q: "run_state (reconcile_Item S V i) w = (Inr (ia_available p1), w1)" "p1 = \<lparr> ia_item_id = i, ia_available = q \<rparr>"
    using assms(2-4) by (auto simp: handleReconcileItem_def split: prod.splits sum.splits if_splits)
  have held: "keys w1 (InventoryKey i) = Some (int_text (ia_available p1), None)"
    using platform.Item_counter [OF assms(1) q(1)] by blast
  have rs: "redis_service L V keys clock" using assms(1) by (simp add: platform_def)
  obtain r where cmd: "redis_cmd V (GET (InventoryKey i)) w1 = (r, w2)"
    using assms(2,6) by (auto simp: handleGetInventory_def GetInventory_def split: prod.splits)
  show ?thesis
  proof (rule redis_service.cmd_cases [OF rs cmd])
    assume "redis_effect L (clock w2) (GET (InventoryKey i)) (live (clock w2) (keys w1)) = (r, keys w2)"
    then have "r = RBulk (int_text (ia_available p1))" using held by simp
    with assms(2-6) cmd q(2) show ?thesis
      by (auto simp: handleGetInventory_def GetInventory_def parse_int64_int_text handleReconcileItem_def
          status_defs split: prod.splits sum.splits if_splits)
  next
    fix e assume "r = RErr e" "driver_err e"
    with assms(2,6) cmd driver_err_wrap [of e] show ?thesis
      by (auto simp: handleGetInventory_def GetInventory_def driver_err_def status_defs)
  next
    fix e assume "r = RErr e" "driver_err e"
    with assms(2,6) cmd driver_err_wrap [of e] show ?thesis
      by (auto simp: handleGetInventory_def GetInventory_def driver_err_def status_defs)
  qed
qed

lemma canonical_out_nonempty: "canonical_out u \<noteq> []"
  by (simp add: canonical_out_def hyphenate_def)

theorem reconcile_then_inventory_witness:
  "\<exists>r1 w1 r2 w2. run_state (handleReconcileItem canonical_server mem_services (uuid_out canonical_server 7)) mem_demo = (r1, w1)
    \<and> resp_body r1 = Payload \<lparr> ia_item_id = uuid_out canonical_server 7, ia_available = 10 \<rparr>
    \<and> run_state (handleGetInventory mem_services (uuid_out canonical_server 7)) w1 = (r2, w2)
    \<and> resp_status r2 \<noteq> 404"
proof -
  let ?i = "uuid_out canonical_server 7"
  have ne: "?i \<noteq> []" by (simp add: canonical_server_def canonical_out_nonempty)
  have "\<exists>r1 w1. run_state (handleReconcileItem canonical_server mem_services ?i) mem_demo = (r1, w1)
      \<and> resp_body r1 = Payload \<lparr> ia_item_id = ?i, ia_available = 10 \<rparr>"
    using ne by (simp add: handleReconcileItem_def reconcile_Item_def mem_sql mem_demo_def mem_five_def pop_def
        quiet_env_def select_available_def canonical.uuid_in_out demo_db_def demo_item_def SeedInventory_def
        mem_redis_def Let_def)
  then obtain r1 w1 where r1: "run_state (handleReconcileItem canonical_server mem_services ?i) mem_demo = (r1, w1)"
    "resp_body r1 = Payload \<lparr> ia_item_id = ?i, ia_available = 10 \<rparr>" by blast
  obtain r2 w2 where r2: "run_state (handleGetInventory mem_services ?i) w1 = (r2, w2)"
    by (cases "run_state (handleGetInventory mem_services ?i) w1")
  from reconcile_then_inventory [OF mem.platform_axioms ne r1 _ r2] r1 r2 show ?thesis
    by (simp add: int64_def int64_min_def int64_max_def)
qed

end
