(* ===== verification/Frames.thy ===== *)
theory Frames
  imports CheckoutApi
begin

text \<open>
  What programs over the services leave alone.  \<open>keeps P m\<close> says that running \<open>m\<close> keeps \<open>P\<close> of the world;
  its rules follow the structure of a program, so the frame of an operation is found by \<open>auto\<close>.  The
  handlers of \<open>checkout-api\<close> never change a table, a command on another key leaves a counter alone, and
  a counter that is there stays there, in range, through every handler and every reconciliation.
\<close>

section \<open>Programs that keep a fact\<close>

definition keeps :: "('w \<Rightarrow> bool) \<Rightarrow> ('w, 'a) io \<Rightarrow> bool" where
  "keeps P m \<longleftrightarrow> (\<forall>w. P w \<longrightarrow> P (snd (run_state m w)))"

lemma keepsD: "keeps P m \<Longrightarrow> run_state m w = (r, w') \<Longrightarrow> P w \<Longrightarrow> P w'"
  unfolding keeps_def by (metis snd_conv)

lemma keeps_ret [intro!]: "keeps P (ret x)"
  by (simp add: keeps_def)

lemma keeps_bind [intro!]: "keeps P m \<Longrightarrow> (\<And>x. keeps P (f x)) \<Longrightarrow> keeps P (State_Monad.bind m f)"
  by (auto simp: keeps_def split: prod.split)

lemma keeps_State: "(\<And>w r w'. f w = (r, w') \<Longrightarrow> P w \<Longrightarrow> P w') \<Longrightarrow> keeps P (State f)"
  by (simp add: keeps_def) (metis prod.collapse)

section \<open>The tables\<close>

context platform
begin

lemma keeps_tables_calls [intro!]:
  "keeps (\<lambda>w. tables w = d) (redis V c)"
  "keeps (\<lambda>w. tables w = d) (kafka V t m)"
  "keeps (\<lambda>w. tables w = d) (rand V n)"
  "keeps (\<lambda>w. tables w = d) (now V)"
  using redis_frame kafka_frame rand_frame time_frame
  by (auto intro!: keeps_State)

lemma keeps_tables_read [intro!]: "keeps (\<lambda>w. tables w = d) (sql V (\<lambda>e d. (f e d, d)))"
  unfolding keeps_def
proof (intro allI impI)
  fix w assume "tables w = d"
  obtain r w' where run: "run_state (sql V (\<lambda>e d. (f e d, d))) w = (r, w')"
    by (cases "run_state (sql V (\<lambda>e d. (f e d, d))) w")
  from sql_read [OF run] \<open>tables w = d\<close> run show "tables (snd (run_state (sql V (\<lambda>e d. (f e d, d))) w)) = d"
    by simp
qed

lemma keeps_tables_redisx [intro!]:
  "keeps (\<lambda>w. tables w = d) (SeedInventory V i n)"
  "keeps (\<lambda>w. tables w = d) (GetInventory V i)"
  "keeps (\<lambda>w. tables w = d) (TryDecrementInventory V i n)"
  "keeps (\<lambda>w. tables w = d) (ReleaseInventory V i n)"
  "keeps (\<lambda>w. tables w = d) (GrantAdmission V i u ttl)"
  "keeps (\<lambda>w. tables w = d) (ConsumeAdmission V i u)"
  by (auto simp: redisx_defs)

lemma keeps_tables_reconcile [intro!]:
  "keeps (\<lambda>w. tables w = d) (reconcile_Item S V i)"
  "keeps (\<lambda>w. tables w = d) (reconcile_each S V is)"
  "keeps (\<lambda>w. tables w = d) (reconcile_All S V)"
proof -
  show item: "keeps (\<lambda>w. tables w = d) (reconcile_Item S V i)" for i
    by (auto simp: reconcile_Item_def split: sum.split)
  show each: "keeps (\<lambda>w. tables w = d) (reconcile_each S V is)" for "is"
    by (induction "is") (auto intro: item)
  show "keeps (\<lambda>w. tables w = d) (reconcile_All S V)"
    by (auto simp: reconcile_All_def ActiveItemIDs_def intro: each split: sum.split)
qed

lemma keeps_tables_checkout [intro!]: "keeps (\<lambda>w. tables w = d) (handleCheckout C V wr ttl i body)"
proof -
  have undo: "keeps (\<lambda>w. tables w = d) (releaseAndRegrant V i u q ttl)" for u q
    by (auto simp: releaseAndRegrant_def)
  have key: "keeps (\<lambda>w. tables w = d) (NewIdempotencyKey V)"
    by (auto simp: NewIdempotencyKey_def split: sum.split)
  have pub: "keeps (\<lambda>w. tables w = d) (PublishAttempt C V wr a)" for a
    by (auto simp: PublishAttempt_def split: sum.split option.split)
  show ?thesis
    unfolding handleCheckout_def
    by (auto intro!: undo key pub split: option.split sum.split)
qed

end

section \<open>Other keys\<close>

context platform
begin

lemma keeps_key_calls [intro!]:
  "rcmd_key c \<noteq> k \<Longrightarrow> keeps (\<lambda>w. keys w k = Some (v, None)) (redis V c)"
  "keeps (\<lambda>w. keys w k = Some (v, None)) (kafka V t m)"
  "keeps (\<lambda>w. keys w k = Some (v, None)) (rand V n)"
  "keeps (\<lambda>w. keys w k = Some (v, None)) (now V)"
  using other_key [of c k] kafka_frame rand_frame time_keys
  by (auto intro!: keeps_State)

lemma keeps_key_sql [intro!]: "keeps (\<lambda>w. keys w k = Some (v, None)) (sql V f)"
  unfolding keeps_def
proof (intro allI impI)
  fix w assume "keys w k = Some (v, None)"
  moreover obtain r w' where run: "run_state (sql V f) w = (r, w')" by (cases "run_state (sql V f) w")
  ultimately show "keys (snd (run_state (sql V f) w)) k = Some (v, None)" using sql_frame [OF run] by simp
qed

lemma keeps_key_get [intro!]: "keeps (\<lambda>w. keys w k = Some (v, None)) (redis V (GET k'))"
proof (rule keeps_State)
  fix w r w' assume cmd: "redis_cmd V (GET k') w = (r, w')" and k: "keys w k = Some (v, None)"
  have eff: "snd (redis_effect L t (GET k') s) = s" for t s by simp
  have "keys w' = live (clock w') (keys w)"
  proof (rule cmd_cases [OF cmd])
    assume "redis_effect L (clock w') (GET k') (live (clock w') (keys w)) = (r, keys w')"
    with eff show ?thesis by (metis snd_conv)
  qed (simp_all only: eff)
  with k show "keys w' k = Some (v, None)" by simp
qed

lemma keeps_key_redisx:
  "k \<noteq> InventoryKey i \<Longrightarrow> keeps (\<lambda>w. keys w k = Some (v, None)) (SeedInventory V i n)"
  "keeps (\<lambda>w. keys w k = Some (v, None)) (GetInventory V i)"
  "k \<noteq> InventoryKey i \<Longrightarrow> keeps (\<lambda>w. keys w k = Some (v, None)) (TryDecrementInventory V i n)"
  "k \<noteq> InventoryKey i \<Longrightarrow> keeps (\<lambda>w. keys w k = Some (v, None)) (ReleaseInventory V i n)"
  "k \<noteq> AdmissionKey i u \<Longrightarrow> keeps (\<lambda>w. keys w k = Some (v, None)) (GrantAdmission V i u ttl)"
  "k \<noteq> AdmissionKey i u \<Longrightarrow> keeps (\<lambda>w. keys w k = Some (v, None)) (ConsumeAdmission V i u)"
  by (auto simp: redisx_defs)

lemma keeps_key_checkout:
  assumes "i \<noteq> j"
  shows "keeps (\<lambda>w. keys w (InventoryKey j) = Some (v, None)) (handleCheckout C V wr ttl i body)"
proof -
  note own = keeps_key_redisx [where k = "InventoryKey j"]
  have other: "InventoryKey j \<noteq> InventoryKey i" "InventoryKey j \<noteq> AdmissionKey i' u" for i' u
    using assms by auto
  have undo: "keeps (\<lambda>w. keys w (InventoryKey j) = Some (v, None)) (releaseAndRegrant V i u q ttl)" for u q
    by (auto simp: releaseAndRegrant_def intro!: own other)
  have key: "keeps (\<lambda>w. keys w (InventoryKey j) = Some (v, None)) (NewIdempotencyKey V)"
    by (auto simp: NewIdempotencyKey_def split: sum.split)
  have pub: "keeps (\<lambda>w. keys w (InventoryKey j) = Some (v, None)) (PublishAttempt C V wr a)" for a
    by (auto simp: PublishAttempt_def split: sum.split option.split)
  show ?thesis
    unfolding handleCheckout_def
    by (auto intro!: undo key pub own other split: option.split sum.split)
qed

end

section \<open>A counter that is there\<close>

definition stocked :: "store \<Rightarrow> string \<Rightarrow> bool" where
  "stocked ks i \<longleftrightarrow> (\<exists>n. ks (InventoryKey i) = Some (int_text n, None) \<and> 0 \<le> n \<and> n < 2 ^ 53)"

lemma stockedE:
  assumes "stocked ks i"
  obtains n where "ks (InventoryKey i) = Some (int_text n, None)" "0 \<le> n" "n < 2 ^ 53"
  using assms by (auto simp: stocked_def)

context platform
begin

lemma keeps_stocked:
  assumes "\<And>v. keeps (\<lambda>w. keys w (InventoryKey i) = Some (v, None)) m"
  shows "keeps (\<lambda>w. stocked (keys w) i) m"
  unfolding keeps_def
proof (intro allI impI)
  fix w assume "stocked (keys w) i"
  then obtain n where "keys w (InventoryKey i) = Some (int_text n, None)" "0 \<le> n" "n < 2 ^ 53" by (rule stockedE)
  with assms [of "int_text n"] show "stocked (keys (snd (run_state m w))) i"
    unfolding keeps_def stocked_def by blast
qed

lemma checkout_stocked:
  assumes "run_state (handleCheckout C V wr ttl j body) w = (resp, w')" "stocked (keys w) i"
    and "\<And>req. body = Some req \<Longrightarrow> int64 (req_Quantity req)"
  shows "stocked (keys w') i"
proof (cases "j = i")
  case False
  from keepsD [OF keeps_stocked [OF keeps_key_checkout [OF False]] assms(1,2)] show ?thesis .
next
  case True
  from assms(2) obtain n where n: "keys w (InventoryKey i) = Some (int_text n, None)" "0 \<le> n" "n < 2 ^ 53"
    by (rule stockedE)
  have "keys w' (InventoryKey i) = Some (int_text n, None)
    \<or> (\<exists>req. body = Some req \<and> 0 < req_Quantity req \<and> req_Quantity req \<le> n
        \<and> keys w' (InventoryKey i) = Some (int_text (n - req_Quantity req), None))"
    by (rule checkout_counter [OF assms(1) [unfolded True] n]) (rule assms(3))
  then show ?thesis
  proof (elim disjE exE conjE)
    fix req assume "body = Some req" "0 < req_Quantity req" "req_Quantity req \<le> n"
      "keys w' (InventoryKey i) = Some (int_text (n - req_Quantity req), None)"
    then show ?thesis using n unfolding stocked_def by (intro exI [of _ "n - req_Quantity req"]) simp
  qed (use n in \<open>auto simp: stocked_def\<close>)
qed

lemma checkout_found:
  assumes run: "run_state (handleCheckout C V wr ttl i body) w = (resp, w')" and "stocked (keys w) i"
    and range: "\<And>req. body = Some req \<Longrightarrow> int64 (req_Quantity req)"
  shows "resp_status resp \<noteq> 404"
  using run
proof (cases rule: handleCheckout_cases)
  case (stock req w1 e)
  from assms(2) obtain n where n: "keys w (InventoryKey i) = Some (int_text n, None)" "0 \<le> n" "n < 2 ^ 53"
    by (rule stockedE)
  have c1: "keys w1 (InventoryKey i) = Some (int_text n, None)"
    using Consume_keeps [OF stock(3) n(1)] by simp
  from TryDecrement_counter [OF c1 n(2,3) stock(2) range [OF stock(1)] stock(4)] stock(5) show ?thesis by auto
qed auto

lemma inventory_found:
  assumes run: "run_state (handleGetInventory V i) w = (resp, w')" and "stocked (keys w) i"
  shows "resp_status resp \<noteq> 404"
proof (cases "i = []")
  case True
  with run show ?thesis by (auto simp: handleGetInventory_def status_defs)
next
  case False
  from assms(2) obtain n where n: "keys w (InventoryKey i) = Some (int_text n, None)" "0 \<le> n" "n < 2 ^ 53"
    by (rule stockedE)
  then have i64: "int64 n" by (simp add: int64_def int64_min_def int64_max_def)
  obtain r where cmd: "redis_cmd V (GET (InventoryKey i)) w = (r, w')"
    using False run by (auto simp: handleGetInventory_def GetInventory_def split: prod.splits)
  show ?thesis
  proof (rule cmd_cases [OF cmd])
    assume "redis_effect L (clock w') (GET (InventoryKey i)) (live (clock w') (keys w)) = (r, keys w')"
    then have "r = RBulk (int_text n)" using n by simp
    with False run cmd i64 show ?thesis
      by (auto simp: handleGetInventory_def GetInventory_def parse_int64_int_text status_defs)
  qed (use False run cmd driver_err_wrap in \<open>auto simp: handleGetInventory_def GetInventory_def driver_err_def status_defs\<close>)
qed

lemma Seed_stocked:
  assumes "run_state (SeedInventory V j n) w = (r, w')" "stocked (keys w) i" "n < 2 ^ 53"
  shows "stocked (keys w') i"
proof (cases "j = i \<and> 0 \<le> n")
  case False
  then show ?thesis
  proof (cases "j = i")
    case True
    with False assms(1,2) show ?thesis by (auto simp: SeedInventory_def)
  next
    case False
    then have "InventoryKey i \<noteq> InventoryKey j" by simp
    from keepsD [OF keeps_stocked [OF keeps_key_redisx(1) [OF this]] assms(1,2)] show ?thesis .
  qed
next
  case True
  obtain p where cmd: "redis_cmd V (SET (InventoryKey i) (int_text n) 0) w = (p, w')"
    using assms(1) True by (auto simp: SeedInventory_def split: prod.splits)
  from assms(2) obtain m where m: "keys w (InventoryKey i) = Some (int_text m, None)" "0 \<le> m" "m < 2 ^ 53"
    by (rule stockedE)
  have "keys w' (InventoryKey i) = Some (int_text n, None) \<or> keys w' (InventoryKey i) = Some (int_text m, None)"
    using m(1) by (cases rule: cmd_cases [OF cmd]) (auto dest!: sym [of "fun_upd _ _ _"])
  with True m assms(3) show ?thesis by (auto simp: stocked_def)
qed

lemma Item_stocked:
  assumes "run_state (reconcile_Item S V j) w = (r, w')" "stocked (keys w) i" "schema_ok (tables w)"
  shows "stocked (keys w') i"
proof -
  obtain q w1 where q: "run_state (sql V (\<lambda>e d. (select_available S e j d, d))) w = (q, w1)"
    by (cases "run_state (sql V (\<lambda>e d. (select_available S e j d, d))) w")
  obtain e where e: "select_available S e j (tables w) = q" using sql_read [OF q] by blast
  have k1: "stocked (keys w1) i" using sql_frame [OF q] assms(2) by simp
  show ?thesis
  proof (cases q)
    case (Inl err)
    with assms(1) q k1 show ?thesis by (auto simp: reconcile_Item_def)
  next
    case (Inr n)
    obtain u it where it: "find_item u (tables w) = Some it" "n = available_inventory it"
      using select_available_Inr [of S e j "tables w" n] e Inr by auto
    from schema_ok_item [OF assms(3) it(1)] it(2) have "n < 2 ^ 53" by (simp add: item_ok_def int4_def)
    moreover obtain s where "run_state (SeedInventory V j n) w1 = (s, w')"
      using assms(1) q Inr by (auto simp: reconcile_Item_def split: prod.splits)
    ultimately show ?thesis using Seed_stocked k1 by blast
  qed
qed

lemma each_stocked:
  assumes "run_state (reconcile_each S V ids) w = (os, w')" "stocked (keys w) i" "schema_ok (tables w)"
  shows "stocked (keys w') i"
  using assms
proof (induction ids arbitrary: w os)
  case Nil
  then show ?case by simp
next
  case (Cons j ids)
  obtain r w1 os' where j: "run_state (reconcile_Item S V j) w = (r, w1)"
    and rest: "run_state (reconcile_each S V ids) w1 = (os', w')"
    using Cons.prems(1) by (auto split: prod.splits)
  have "tables w1 = tables w" using Item_counter [OF j] by blast
  with Cons.IH [OF rest] Item_stocked [OF j Cons.prems(2,3)] Cons.prems(3) show ?case by simp
qed

lemma reconcileOnce_run:
  assumes "run_state (reconcileOnce S V) w = (r, w')"
  obtains (listing) e where "run_state (reconcile_All S V) w = (Inl e, w')" "r = None"
  | (pass) os where "run_state (reconcile_All S V) w = (Inr os, w')"
      "r = Some (length os, length (filter (\<lambda>x. rec_Err x \<noteq> None) os))"
  using assms by (auto simp: reconcileOnce_def split: prod.splits sum.splits)

lemma reconcileOnce_stocked:
  assumes "run_state (reconcileOnce S V) w = (r, w')" "stocked (keys w) i" "schema_ok (tables w)"
  shows "stocked (keys w') i"
proof -
  obtain x where all: "run_state (reconcile_All S V) w = (x, w')"
    using assms(1) by (rule reconcileOnce_run) blast+
  obtain q w1 where q: "run_state (sql V (\<lambda>e d. (select_active S e d, d))) w = (q, w1)"
    by (cases "run_state (sql V (\<lambda>e d. (select_active S e d, d))) w")
  have w1: "stocked (keys w1) i" "tables w1 = tables w"
    using sql_frame [OF q] sql_read [OF q] assms(2) by (simp, blast)
  show ?thesis
  proof (cases q)
    case (Inl err)
    with all q w1 show ?thesis by (auto simp: reconcile_All_def ActiveItemIDs_def)
  next
    case (Inr ids)
    then obtain os where "run_state (reconcile_each S V ids) w1 = (os, w')"
      using all q by (auto simp: reconcile_All_def ActiveItemIDs_def split: prod.splits)
    from each_stocked [OF this w1(1)] w1(2) assms(3) show ?thesis by simp
  qed
qed

text \<open>A pass without a failure leaves a counter for every active item.\<close>

lemma reconcileOnce_stocks:
  assumes "run_state (reconcileOnce S V) w = (Some (n, 0), w')" "uuid_io S" "schema_ok (tables w)"
    and "it \<in> set (items (tables w))" "active it"
  shows "stocked (keys w') (uuid_out S (item_id it))"
  using assms(1)
proof (cases rule: reconcileOnce_run)
  case (pass os)
  note eff = reconcile_All_synced [OF platform_axioms assms(2,3) pass(1)]
  have "uuid_out S (item_id it) \<in> set (map rec_ItemID os)"
    unfolding conjunct1 [OF eff] using assms(4,5) by auto
  then obtain x where x: "x \<in> set os" "rec_ItemID x = uuid_out S (item_id it)" by auto
  have ok: "\<forall>x\<in>set os. rec_Err x = None" using pass(2) by (auto simp: filter_empty_conv)
  with eff x obtain u it' where c: "keys w' (InventoryKey (uuid_out S (item_id it))) = Some (int_text (rec_Available x), None)"
    "find_item u (tables w) = Some it'" "rec_Available x = available_inventory it'" by fastforce
  from schema_ok_item [OF assms(3) c(2)] c(1,3) show ?thesis
    unfolding stocked_def by (intro exI [of _ "rec_Available x"]) (simp add: item_ok_def int4_def)
qed auto

end

end
