(* ===== verification/Expiry.thy ===== *)
theory Expiry
  imports Postgres
begin

text \<open>
  Package \<open>internal/expiry\<close> (\<open>processor.go\<close>): the scan for lapsed reservations and the compensating
  transaction that expires one and gives its units back.  The lemmas characterise the scan, show
  that a call releases exactly the lapsed reservation it is given, that it cannot fail on
  well-formed tables without a fault, and that however often and however concurrently delivered a
  reservation is released at most once.
\<close>

section \<open>The scan\<close>

text \<open>
  \<open>SELECT id FROM reservations WHERE status = 'reserved' AND expires_at < now() ORDER BY expires_at
  LIMIT $1\<close>.  Reservations with equal \<open>expires_at\<close> come in table order, one of the orders SQL allows.
  \<open>AtSelect\<close> is an error of the query, \<open>AtLookup\<close> one of reading its rows.
\<close>

definition FindExpiredReservations ::
  "pg_server \<Rightarrow> tx_env \<Rightarrow> int \<Rightarrow> db \<Rightarrow> goerr + string list" where
  "FindExpiredReservations S e limit d =
     (if limit \<le> 0 then Inl (PlainErr (''expiry: limit must be positive, got '' @ int_text limit))
      else case fault e AtSelect of
        Some er \<Rightarrow> Inl (wrap_err ''expiry: scanning for expired reservations: '' er)
      | None \<Rightarrow> (case fault e AtLookup of
          Some er \<Rightarrow> Inl (wrap_err ''expiry: reading scan results: '' er)
        | None \<Rightarrow>
            Inr (map (\<lambda>r. uuid_out S (res_id r))
              (take (nat limit) (sort_key expires_at (filter (lapsed (tx_now e)) (reservations d)))))))"

section \<open>The compensating transaction\<close>

record expiry_outcome =
  exp_ReservationID :: string
  exp_ItemID :: string
  exp_Quantity :: int
  Released :: bool

definition ExpireReservation ::
  "pg_server \<Rightarrow> tx_env \<Rightarrow> string \<Rightarrow> db \<Rightarrow> (goerr + expiry_outcome) \<times> db" where
  "ExpireReservation S e reservationID d =
     (case fault e AtBegin of
        Some er \<Rightarrow> (Inl (wrap_err ''expiry: beginning transaction: '' er), d)
      | None \<Rightarrow>
      (case update_expired S e reservationID d of
        Inl er \<Rightarrow>
          if errors_is er ErrNoRows then
            commit_tx e ''expiry: committing no-op: '' d d
              \<lparr> exp_ReservationID = reservationID, exp_ItemID = [], exp_Quantity = 0, Released = False \<rparr>
          else (Inl (wrap_err (''expiry: expiring reservation '' @ reservationID @ '': '') er), d)
      | Inr ((itemID, quantity), d1) \<Rightarrow>
          (case update_available S e quantity itemID d1 of
             Inl er \<Rightarrow>
               (Inl (wrap_err (''expiry: releasing inventory for item '' @ itemID @ '': '') er), d)
           | Inr d2 \<Rightarrow>
               commit_tx e ''expiry: committing: '' d d2
                 \<lparr> exp_ReservationID = reservationID, exp_ItemID = itemID, exp_Quantity = quantity,
                   Released = True \<rparr>)))"

text \<open>
  The tables once reservation \<open>u\<close> is expired and its units are back on its item, whatever the time.
\<close>

definition release :: "uuid \<Rightarrow> db \<Rightarrow> db" where
  "release u d =
     (case find_reservation u d of None \<Rightarrow> d
      | Some r \<Rightarrow> d\<lparr>
          items := map (\<lambda>x. if item_id x = res_item r
                     then x\<lparr>available_inventory := available_inventory x + res_quantity r\<rparr> else x) (items d),
          reservations := map (\<lambda>x. if res_id x = u then x\<lparr>res_status := Expired\<rparr> else x) (reservations d)\<rparr>)"

lemma find_reservation_release:
  "find_reservation u (release u d) = map_option (\<lambda>x. x\<lparr>res_status := Expired\<rparr>) (find_reservation u d)"
proof (cases "find_reservation u d")
  case None
  then show ?thesis by (simp add: release_def)
next
  case (Some r)
  have "find_reservation u (release u d) =
      find (\<lambda>x. res_id x = u) (map (\<lambda>x. if res_id x = u then x\<lparr>res_status := Expired\<rparr> else x) (reservations d))"
    using Some by (simp add: release_def)
  then show ?thesis by (simp add: find_map_update)
qed

lemma not_lapsed_release: "find_reservation u (release u d) = Some r \<Longrightarrow> \<not> lapsed now r"
  by (auto simp: find_reservation_release lapsed_def)

section \<open>Where a call can leave the tables\<close>

context uuid_io
begin

text \<open>What a call commits: nothing for a reservation that is not lapsed, else its release.\<close>

lemma expire_work:
  assumes "update_expired S e rid d = Inr ((itemID, q), d1)" "schema_ok d"
    and "update_available S e' q itemID d1 = Inr d2"
  shows "\<exists>u r. uuid_in S rid = Some u \<and> find_reservation u d = Some r \<and> lapsed (tx_now e) r
    \<and> itemID = uuid_out S (res_item r) \<and> q = res_quantity r \<and> d2 = release u d
    \<and> schema_ok d2 \<and> catalogue d2 = catalogue d \<and> (\<forall>w. stock w d2 = stock w d)"
  using assms(1)
proof (rule update_expired_cases)
  fix u r
  assume u: "uuid_in S rid = Some u" "find_reservation u d = Some r" "lapsed (tx_now e) r"
    and out: "itemID = uuid_out S (res_item r)" "q = res_quantity r"
    and d1: "d1 = d\<lparr>reservations := map (\<lambda>x. if res_id x = u then x\<lparr>res_status := Expired\<rparr> else x)
              (reservations d)\<rparr>"
  have "res_item r \<in> item_id ` set (items d)"
    using find_reservation_in [OF u(2)] assms(2) by (auto simp: schema_ok_def)
  then have "find_item (res_item r) d1 \<noteq> None" unfolding find_item_member by (simp add: d1)
  then have "d2 = release u d"
    using assms(3) u(2) by (auto elim!: update_available_cases simp: out uuid_in_out release_def d1)
  moreover have "schema_ok d2 \<and> catalogue d2 = catalogue d \<and> (\<forall>w. stock w d2 = stock w d)"
    using update_expired_effect [OF assms(1,2)] update_available_effect [OF assms(3)]
    by (auto simp: stock_def available_def held_def uuid_in_out)
  ultimately show ?thesis using u out by blast
qed

lemma ExpireReservation_cases:
  assumes "schema_ok d"
  obtains er where "ExpireReservation S e rid d = (Inl er, d)"
  | m where "ExpireReservation S e rid d = commit_tx e m d d
        \<lparr> exp_ReservationID = rid, exp_ItemID = [], exp_Quantity = 0, Released = False \<rparr>"
  | u r m where "uuid_in S rid = Some u" "find_reservation u d = Some r" "lapsed (tx_now e) r"
      "schema_ok (release u d)" "catalogue (release u d) = catalogue d"
      "\<forall>w. stock w (release u d) = stock w d"
      "ExpireReservation S e rid d = commit_tx e m d (release u d)
        \<lparr> exp_ReservationID = rid, exp_ItemID = uuid_out S (res_item r),
          exp_Quantity = res_quantity r, Released = True \<rparr>"
proof (cases "fault e AtBegin")
  case (Some er)
  then show thesis using that(1) by (simp add: ExpireReservation_def)
next
  case None
  show thesis
  proof (cases "update_expired S e rid d")
    case (Inl er)
    with None show thesis using that(1,2) by (cases "errors_is er ErrNoRows") (auto simp: ExpireReservation_def)
  next
    case (Inr p)
    obtain itemID q d1 where p: "p = ((itemID, q), d1)" by (metis surj_pair)
    show thesis
    proof (cases "update_available S e q itemID d1")
      case (Inl er)
      with None Inr p show thesis using that(1) by (simp add: ExpireReservation_def)
    next
      case upd: (Inr d2)
      with expire_work [of e rid d itemID q d1 e d2] Inr p assms None show thesis
        using that(3) by (fastforce simp: ExpireReservation_def)
    qed
  qed
qed

lemma ExpireReservation_db:
  assumes "schema_ok d"
  shows "snd (ExpireReservation S e rid d) = d
    \<or> (\<exists>u r. uuid_in S rid = Some u \<and> find_reservation u d = Some r \<and> lapsed (tx_now e) r
         \<and> snd (ExpireReservation S e rid d) = release u d)"
proof (rule ExpireReservation_cases [OF assms, of e rid])
  fix u and r :: reservation and m
  let ?out = "\<lparr> exp_ReservationID = rid, exp_ItemID = uuid_out S (res_item r),
      exp_Quantity = res_quantity r, Released = True \<rparr>"
  assume "uuid_in S rid = Some u" "find_reservation u d = Some r" "lapsed (tx_now e) r"
    "ExpireReservation S e rid d = commit_tx e m d (release u d) ?out"
  with commit_tx_db [of e m d "release u d" ?out] show ?thesis by auto
qed (use commit_tx_db in force)+

lemma ExpireReservation_ledger:
  assumes "schema_ok d"
  shows "schema_ok (snd (ExpireReservation S e rid d))
    \<and> catalogue (snd (ExpireReservation S e rid d)) = catalogue d
    \<and> stock w (snd (ExpireReservation S e rid d)) = stock w d"
  by (rule ExpireReservation_cases [OF assms, of e rid])
    (use assms in \<open>auto simp: commit_tx_def split: option.split\<close>)

end

text \<open>Every server that reads back the identifiers it prints gives the ledger contract.\<close>

sublocale uuid_io \<subseteq> expiry: ledger "\<lambda>(e, rid). ExpireReservation S e rid"
  by unfold_locales (auto simp: ExpireReservation_ledger)

section \<open>Progress and at-most-once release\<close>

lemma accounted_room:
  assumes "schema_ok d" "accounted d" "find_reservation u d = Some r" "holds (res_status r)"
  obtains it where "find_item (res_item r) d = Some it" "item_ok it"
    "available_inventory it + res_quantity r \<le> total_inventory it"
proof -
  have r: "r \<in> set (reservations d)" using find_reservation_in [OF assms(3)] by simp
  then have "find_item (res_item r) d \<noteq> None"
    unfolding find_item_member using assms(1) by (auto simp: schema_ok_def)
  then obtain it where it: "find_item (res_item r) d = Some it" by blast
  have "held_by (res_item r) r \<le> held (res_item r) d" using assms(1) r by (rule held_by_le_held)
  then have "res_quantity r \<le> held (res_item r) d" using assms(4) by (simp add: held_by_def)
  moreover have "stock (res_item r) d \<le> total_inventory it"
    using assms(2) find_item_in [OF it] by (auto simp: accounted_def list_all_iff)
  ultimately have "available_inventory it + res_quantity r \<le> total_inventory it"
    using it by (simp add: stock_def available_def)
  with it schema_ok_item [OF assms(1) it] show thesis by (rule that)
qed

context uuid_io
begin

lemma expire_no_constraint_error:
  assumes "no_fault e" "schema_ok d" "accounted d"
    and "update_expired S e rid d = Inr ((itemID, q), d1)"
  shows "\<exists>d2. update_available S e q itemID d1 = Inr d2"
  using assms(4)
proof (rule update_expired_cases)
  fix u r
  assume u: "find_reservation u d = Some r" "lapsed (tx_now e) r"
    and out: "itemID = uuid_out S (res_item r)" "q = res_quantity r"
    and d1: "d1 = d\<lparr>reservations := map (\<lambda>x. if res_id x = u then x\<lparr>res_status := Expired\<rparr> else x)
              (reservations d)\<rparr>"
  have "holds (res_status r)" using u(2) by (simp add: lapsed_def holds_def)
  from accounted_room [OF assms(2,3) u(1) this] obtain it where
    it: "find_item (res_item r) d = Some it" "item_ok it"
      "available_inventory it + res_quantity r \<le> total_inventory it" .
  moreover have "reservation_ok r"
    using find_reservation_in [OF u(1)] assms(2) by (auto simp: schema_ok_def list_all_iff)
  ultimately have "\<exists>d2. update_available S e (res_quantity r) (uuid_out S (res_item r)) d1 = Inr d2"
    using assms(1) uuid_in_out
    by (auto simp: update_available_def Let_def no_fault_def d1 reservation_ok_def item_ok_def int4_def)
  then show ?thesis by (simp add: out)
qed

lemma ExpireReservation_progress:
  assumes "no_fault e" "schema_ok d" "accounted d" "uuid_in S rid = Some u"
  shows "\<exists>out. ExpireReservation S e rid d = (Inr out, if Released out then release u d else d)
    \<and> (Released out \<longleftrightarrow> (\<exists>r. find_reservation u d = Some r \<and> lapsed (tx_now e) r))
    \<and> (Released out \<longrightarrow> (\<exists>r. find_reservation u d = Some r
          \<and> exp_ItemID out = uuid_out S (res_item r) \<and> exp_Quantity out = res_quantity r))"
proof (cases "update_expired S e rid d")
  case (Inl er)
  then show ?thesis using assms(1,4)
    by (auto simp: ExpireReservation_def update_expired_def no_fault_def commit_tx_def ErrNoRows_def
        split: option.splits if_splits)
next
  case (Inr p)
  obtain itemID q d1 where p: "p = ((itemID, q), d1)" by (metis surj_pair)
  with expire_no_constraint_error assms Inr obtain d2
    where upd: "update_available S e q itemID d1 = Inr d2" by blast
  with expire_work [of e rid d itemID q d1 e d2] Inr p assms show ?thesis
    by (auto simp: ExpireReservation_def no_fault_def commit_tx_def)
qed

end

text \<open>The results of a sequence of calls on one reservation, each with its own faults and clock.\<close>

primrec expire_calls ::
  "pg_server \<Rightarrow> string \<Rightarrow> tx_env list \<Rightarrow> db \<Rightarrow> (goerr + expiry_outcome) list \<times> db" where
  "expire_calls S rid [] d = ([], d)"
| "expire_calls S rid (e # es) d =
     (let (r, d1) = ExpireReservation S e rid d; (rs, d2) = expire_calls S rid es d1 in (r # rs, d2))"

definition released_by :: "goerr + expiry_outcome \<Rightarrow> bool" where
  "released_by r = (case r of Inl _ \<Rightarrow> False | Inr out \<Rightarrow> Released out)"

lemma released_by_simps [simp]:
  "\<not> released_by (Inl er)" "released_by (Inr out) = Released out"
  by (simp_all add: released_by_def)

context uuid_io
begin

lemma expire_calls_settled:
  assumes "schema_ok d" "\<And>u r now. uuid_in S rid = Some u \<Longrightarrow> find_reservation u d = Some r \<Longrightarrow> \<not> lapsed now r"
  shows "snd (expire_calls S rid es d) = d \<and> \<not> list_ex released_by (fst (expire_calls S rid es d))"
  using assms
proof (induction es)
  case Nil
  then show ?case by simp
next
  case (Cons e es)
  have "snd (ExpireReservation S e rid d) = d \<and> \<not> released_by (fst (ExpireReservation S e rid d))"
    by (rule ExpireReservation_cases [OF Cons.prems(1), of e rid])
      (use Cons.prems(2) in \<open>auto simp: commit_tx_def split: option.split\<close>)
  with Cons show ?case by (cases "ExpireReservation S e rid d") (simp add: case_prod_beta)
qed

lemma expire_calls_once:
  assumes "schema_ok d"
  shows "length (filter released_by (fst (expire_calls S rid es d))) \<le> 1
    \<and> (snd (expire_calls S rid es d) = d
       \<or> (\<exists>u. uuid_in S rid = Some u \<and> snd (expire_calls S rid es d) = release u d))
    \<and> (list_ex released_by (fst (expire_calls S rid es d)) \<longrightarrow>
         (\<exists>u. uuid_in S rid = Some u \<and> snd (expire_calls S rid es d) = release u d))"
  using assms
proof (induction es)
  case Nil
  then show ?case by simp
next
  case (Cons e es)
  obtain r d1 where call: "ExpireReservation S e rid d = (r, d1)" by fastforce
  from Cons.prems show ?case
  proof (rule ExpireReservation_cases [of d e rid])
    fix u row m
    assume u: "uuid_in S rid = Some u" and ok: "schema_ok (release u d)"
      and c: "ExpireReservation S e rid d = commit_tx e m d (release u d)
        \<lparr> exp_ReservationID = rid, exp_ItemID = uuid_out S (res_item row),
          exp_Quantity = res_quantity row, Released = True \<rparr>"
    have settled: "snd (expire_calls S rid es (release u d)) = release u d
        \<and> \<not> list_ex released_by (fst (expire_calls S rid es (release u d)))"
      using u not_lapsed_release by (intro expire_calls_settled [OF ok]) auto
    then have "filter released_by (fst (expire_calls S rid es (release u d))) = []"
      by (simp add: filter_empty_conv list_ex_iff)
    with settled c call u Cons.IH [OF Cons.prems] show ?thesis
      by (auto simp: case_prod_beta commit_tx_def split: option.splits if_splits)
  qed (use call Cons in \<open>auto simp: case_prod_beta commit_tx_def split: option.splits\<close>)
qed

end

section \<open>Example tables\<close>

text \<open>
  One item of ten units, three of them reserved until time 1000 and two paid for with the same
  deadline.
\<close>

definition exp_item :: item where
  "exp_item = \<lparr> item_id = 7, total_inventory = 10, available_inventory = 5, item_status = On_sale \<rparr>"

definition exp_reserved :: reservation where
  "exp_reserved = \<lparr> res_id = 100, res_item = 7, res_user = ''alice'', res_quantity = 3,
     res_status = Reserved, res_key = ''k1'', expires_at = Some 1000, decided_at = Some 0 \<rparr>"

definition exp_paid :: reservation where
  "exp_paid = \<lparr> res_id = 101, res_item = 7, res_user = ''bob'', res_quantity = 2,
     res_status = Completed, res_key = ''k2'', expires_at = Some 1000, decided_at = Some 0 \<rparr>"

definition exp_db :: db where
  "exp_db = \<lparr> items = [exp_item], reservations = [exp_paid, exp_reserved] \<rparr>"

definition exp_env :: "int \<Rightarrow> tx_env" where
  "exp_env now = \<lparr> new_uuid = 0, tx_now = now, go_now = now, fault = (\<lambda>_. None), commit_applied = False \<rparr>"

lemmas exp_defs = exp_item_def exp_reserved_def exp_paid_def exp_db_def exp_env_def

lemma exp_facts:
  "schema_ok exp_db" "accounted exp_db" "no_fault (exp_env now)"
  "find_reservation 100 exp_db = Some exp_reserved" "find_reservation 101 exp_db = Some exp_paid"
  by (simp_all add: exp_defs schema_ok_def item_ok_def reservation_ok_def int4_def no_fault_def res_index_def
      accounted_def stock_def available_def held_def held_by_def holds_def)

section \<open>Properties\<close>

text \<open>
  C20.  On well-formed tables whose items account for no more units than they have, a call without a
  fault always succeeds: it releases the reservation exactly when that is reserved and its deadline
  has passed, reports the item and units it gave back, and otherwise changes nothing.  A reservation
  that was paid, expired or is not due is a silent no-op.
\<close>

theorem ExpireReservation_releases_lapsed:
  assumes "uuid_io S" "no_fault e" "schema_ok d" "accounted d" "uuid_in S rid = Some u"
  shows "\<exists>out. ExpireReservation S e rid d = (Inr out, if Released out then release u d else d)
    \<and> (Released out \<longleftrightarrow> (\<exists>r. find_reservation u d = Some r \<and> lapsed (tx_now e) r))
    \<and> (Released out \<longrightarrow> (\<exists>r. find_reservation u d = Some r
          \<and> exp_ItemID out = uuid_out S (res_item r) \<and> exp_Quantity out = res_quantity r))"
  using assms(2-5) by (rule uuid_io.ExpireReservation_progress [OF assms(1)])

theorem ExpireReservation_releases_lapsed_witness:
  "(\<exists>out. ExpireReservation canonical_server (exp_env 2000) (uuid_out canonical_server 100) exp_db
       = (Inr out, release 100 exp_db) \<and> Released out \<and> exp_Quantity out = 3)
   \<and> available 7 (release 100 exp_db) = 8"
proof -
  have "lapsed (tx_now (exp_env 2000)) exp_reserved" by (simp add: exp_defs lapsed_def)
  with ExpireReservation_releases_lapsed
    [OF canonical.uuid_io_axioms exp_facts(3,1,2) canonical.uuid_in_out, of 2000 100] exp_facts(4)
  have "\<exists>out. ExpireReservation canonical_server (exp_env 2000) (uuid_out canonical_server 100) exp_db
       = (Inr out, release 100 exp_db) \<and> Released out \<and> exp_Quantity out = 3"
    by (auto simp: exp_reserved_def split: if_splits)
  then show ?thesis by (simp add: available_def release_def exp_defs)
qed

text \<open>
  C19.  A reservation's units are given back at most once.  However many workers are handed the same
  reservation, whatever their clocks and whatever fails (commits whose answer was lost included), at
  most one call reports a release, and the tables are unchanged or hold exactly one release; a
  reported release is always in the tables.
\<close>

theorem ExpireReservation_at_most_once:
  assumes "uuid_io S" "schema_ok d"
  shows "length (filter released_by (fst (expire_calls S rid es d))) \<le> 1
    \<and> (snd (expire_calls S rid es d) = d
       \<or> (\<exists>u. uuid_in S rid = Some u \<and> snd (expire_calls S rid es d) = release u d))
    \<and> (list_ex released_by (fst (expire_calls S rid es d)) \<longrightarrow>
         (\<exists>u. uuid_in S rid = Some u \<and> snd (expire_calls S rid es d) = release u d))"
  using assms(2) by (rule uuid_io.expire_calls_once [OF assms(1)])

theorem ExpireReservation_at_most_once_witness:
  "length (filter released_by (fst (expire_calls canonical_server (uuid_out canonical_server 100)
      [exp_env 500, exp_env 2000, exp_env 3000] exp_db))) \<le> 1"
  using ExpireReservation_at_most_once [OF canonical.uuid_io_axioms exp_facts(1),
      of "uuid_out canonical_server 100" "[exp_env 500, exp_env 2000, exp_env 3000]"]
  by blast

text \<open>
  C34.  A scan without a fault returns distinct identifiers of reserved reservations whose deadline has
  passed, oldest deadline first and at most \<open>limit\<close> of them; one it leaves out is no older than any it
  returns and is left out only because the batch is full.
\<close>

theorem FindExpiredReservations_oldest_lapsed:
  assumes "no_fault e" "0 < limit" "schema_ok d"
  shows "\<exists>rs. FindExpiredReservations S e limit d = Inr (map (\<lambda>r. uuid_out S (res_id r)) rs)
    \<and> set rs \<subseteq> set (reservations d) \<and> list_all (lapsed (tx_now e)) rs
    \<and> distinct (map res_id rs) \<and> int (length rs) \<le> limit \<and> sorted (map expires_at rs)
    \<and> list_all (\<lambda>r. lapsed (tx_now e) r \<and> r \<notin> set rs \<longrightarrow>
          int (length rs) = limit \<and> list_all (\<lambda>x. expires_at x \<le> expires_at r) rs) (reservations d)"
proof -
  let ?all = "sort_key expires_at (filter (lapsed (tx_now e)) (reservations d))"
  let ?rs = "take (nat limit) ?all"
  have set_all: "set ?all = {r \<in> set (reservations d). lapsed (tx_now e) r}" by auto
  have sub: "set ?rs \<subseteq> set ?all" by (rule set_take_subset)
  have "FindExpiredReservations S e limit d = Inr (map (\<lambda>r. uuid_out S (res_id r)) ?rs)"
    using assms(1,2) by (simp add: FindExpiredReservations_def no_fault_def)
  moreover have "distinct (map res_id ?rs)"
  proof -
    have "distinct (map res_id (filter (lapsed (tx_now e)) (reservations d)))"
      using assms(3) by (simp add: schema_ok_def distinct_map_filter)
    then have "distinct (map res_id ?all)"
      by (simp add: distinct_map)
    then have "distinct (take (nat limit) (map res_id ?all))" by (rule distinct_take)
    then show ?thesis by (simp add: take_map)
  qed
  moreover have "sorted (map expires_at ?rs)"
    using sorted_wrt_take [of "(\<le>)" "map expires_at ?all" "nat limit"] by (simp add: take_map)
  moreover have "int (length ?rs) = limit \<and> list_all (\<lambda>x. expires_at x \<le> expires_at r) ?rs"
    if "r \<in> set (reservations d)" "lapsed (tx_now e) r" "r \<notin> set ?rs" for r
  proof -
    have "r \<in> set ?all" using that set_all by auto
    then have "nat limit < length ?all" using that(3) by (metis not_le take_all)
    then have "int (length ?rs) = limit" using assms(2) by simp
    moreover have "expires_at x \<le> expires_at r" if "x \<in> set ?rs" for x
      using take_sorted_rest [of expires_at ?all x "nat limit" r] that \<open>r \<in> set ?all\<close> \<open>r \<notin> set ?rs\<close> by simp
    ultimately show ?thesis by (simp add: list_all_iff)
  qed
  moreover have "int (length ?rs) \<le> limit" using assms(2) by simp
  moreover have "set ?rs \<subseteq> set (reservations d)" "list_all (lapsed (tx_now e)) ?rs"
    using sub set_all by (auto simp: list_all_iff)
  ultimately show ?thesis by (intro exI [of _ ?rs]) (simp only: list_all_iff, blast)
qed

theorem FindExpiredReservations_oldest_lapsed_witness:
  "FindExpiredReservations canonical_server (exp_env 2000) 5 exp_db = Inr [uuid_out canonical_server 100]
   \<and> (\<exists>rs. FindExpiredReservations canonical_server (exp_env 2000) 5 exp_db
         = Inr (map (\<lambda>r. uuid_out canonical_server (res_id r)) rs) \<and> list_all (lapsed 2000) rs)"
proof -
  have "FindExpiredReservations canonical_server (exp_env 2000) 5 exp_db = Inr [uuid_out canonical_server 100]"
    by (simp add: exp_env_def FindExpiredReservations_def exp_db_def lapsed_def exp_paid_def exp_reserved_def)
  moreover have "tx_now (exp_env 2000) = 2000" by (simp add: exp_env_def)
  moreover obtain rs where
    "FindExpiredReservations canonical_server (exp_env 2000) 5 exp_db
       = Inr (map (\<lambda>r. uuid_out canonical_server (res_id r)) rs)"
    "list_all (lapsed (tx_now (exp_env 2000))) rs"
    using FindExpiredReservations_oldest_lapsed
      [where S = canonical_server and e = "exp_env 2000" and limit = 5, OF exp_facts(3) _ exp_facts(1)]
    by auto
  ultimately show ?thesis by (intro conjI exI [of _ rs]) simp_all
qed

end
