(* ===== verification/Sale.thy ===== *)
theory Sale
  imports Decision Expiry
begin

text \<open>
  decision-service and expiry-worker share the tables: any interleaving of their transactions is a
  list of \<open>sale_op\<close>s.  The locale \<open>ledger_history\<close> adds to the ledger contract how the rows may
  evolve; both transactions satisfy it, so every sale keeps the stock accounting (no item is ever
  oversold), never loses or rewrites a reservation, and only ever moves one from reserved to expired.
\<close>

section \<open>How reservations may evolve\<close>

text \<open>The order of the statuses a transaction of the sale may move a reservation along.\<close>

instantiation res_status :: order
begin

definition less_eq_res_status :: "res_status \<Rightarrow> res_status \<Rightarrow> bool" where
  "s \<le> t \<longleftrightarrow> s = t \<or> s = Reserved \<and> t = Expired"

definition less_res_status :: "res_status \<Rightarrow> res_status \<Rightarrow> bool" where
  "s < t \<longleftrightarrow> s = Reserved \<and> t = Expired"

instance
  by standard (auto simp: less_eq_res_status_def less_res_status_def)

end

definition row_evolves :: "reservation \<Rightarrow> reservation \<Rightarrow> bool" where
  "row_evolves r r' \<longleftrightarrow> r' = r\<lparr>res_status := res_status r'\<rparr> \<and> res_status r \<le> res_status r'"

definition evolves :: "db \<Rightarrow> db \<Rightarrow> bool" where
  "evolves d d' \<longleftrightarrow> (\<exists>old new. reservations d' = old @ new \<and> list_all2 row_evolves (reservations d) old)"

lemma row_evolves_iff: "row_evolves r r' \<longleftrightarrow> r' = r \<or> (res_status r = Reserved \<and> r' = r\<lparr>res_status := Expired\<rparr>)"
  by (cases r; cases r') (auto simp: row_evolves_def less_eq_res_status_def)

lemma row_evolves_refl [simp]: "row_evolves r r"
  by (simp add: row_evolves_def)

lemma row_evolves_trans:
  assumes "row_evolves r s" "row_evolves s t"
  shows "row_evolves r t"
  using assms order_trans [of "res_status r" "res_status s" "res_status t"] unfolding row_evolves_def by (cases r; cases s; cases t) auto

lemma evolves_refl [simp]: "evolves d d"
  unfolding evolves_def by (rule exI [of _ "reservations d"], rule exI [of _ "[]"]) (simp add: list_all2_refl)

lemma evolves_trans:
  assumes "evolves d1 d2" "evolves d2 d3"
  shows "evolves d1 d3"
proof -
  obtain old new where d2: "reservations d2 = old @ new" "list_all2 row_evolves (reservations d1) old"
    using assms(1) by (auto simp: evolves_def)
  obtain old' new' where d3: "reservations d3 = old' @ new'" "list_all2 row_evolves (reservations d2) old'"
    using assms(2) by (auto simp: evolves_def)
  from d3(2) d2(1) obtain xs ys where "old' = xs @ ys" "list_all2 row_evolves old xs"
    by (auto simp: list_all2_append1)
  moreover from this d2(2) have "list_all2 row_evolves (reservations d1) xs"
    using row_evolves_trans by (blast intro: list_all2_trans)
  ultimately show ?thesis using d3(1) by (auto simp: evolves_def)
qed

lemma evolves_append: "reservations d' = reservations d @ new \<Longrightarrow> evolves d d'"
  unfolding evolves_def by (rule exI [of _ "reservations d"], rule exI [of _ new]) (simp add: list_all2_refl)

locale ledger_history = ledger +
  assumes step_history: "schema_ok d \<Longrightarrow> evolves d (snd (step e d))"
begin

lemma run_history:
  assumes "schema_ok d"
  shows "evolves d (fold (\<lambda>e d. snd (step e d)) es d)"
  using assms
proof (induction es arbitrary: d)
  case Nil
  then show ?case by simp
next
  case (Cons e es)
  have "evolves (snd (step e d)) (fold (\<lambda>e d. snd (step e d)) es (snd (step e d)))"
    using Cons.prems by (intro Cons.IH step_schema)
  with step_history [OF Cons.prems] show ?case by (auto intro: evolves_trans)
qed

lemma run_accounted:
  assumes "schema_ok d" "accounted d"
  shows "accounted (fold (\<lambda>e d. snd (step e d)) es d)"
proof (rule accounted_catalogue)
  show "catalogue (fold (\<lambda>e d. snd (step e d)) es d) = catalogue d"
    using run_invariant [OF assms(1)] by blast
  show "stock u (fold (\<lambda>e d. snd (step e d)) es d) = stock u d" for u
    using run_invariant [OF assms(1)] by blast
qed (rule assms(2))

end

section \<open>Both transactions keep the history\<close>

lemma attempt_work_history: "attempt_work S e a ttl d d' out \<Longrightarrow> evolves d d'"
proof (induction rule: attempt_work.induct)
  case (replayed avail er rid st)
  show ?case by simp
next
  case (reserved avail rid d1 d2)
  from reserved.hyps(4) have "\<exists>new. reservations d1 = reservations d @ new"
    by (auto elim: insert_reservation_cases)
  with update_available_effect [OF reserved.hyps(5)] show ?case by (auto intro: evolves_append)
next
  case (rejected avail rid d1)
  from rejected.hyps(4) have "\<exists>new. reservations d1 = reservations d @ new"
    by (auto elim: insert_reservation_cases)
  then show ?case by (auto intro: evolves_append)
qed

lemma ProcessAttempt_history: "evolves d (snd (ProcessAttempt S e a ttl d))"
  using ProcessAttempt_db [of S e a ttl d] attempt_work_history by (metis evolves_refl)

lemma release_history:
  assumes "find_reservation u d = Some r" "res_status r = Reserved" "schema_ok d"
  shows "evolves d (release u d)"
proof -
  let ?f = "\<lambda>x. if res_id x = u then x\<lparr>res_status := Expired\<rparr> else x"
  have "x = r" if "x \<in> set (reservations d)" "res_id x = u" for x
    using find_Some_iff_distinct [of res_id "reservations d" u x] that assms by (simp add: schema_ok_def)
  then have "row_evolves x (?f x)" if "x \<in> set (reservations d)" for x
    using that assms(2) by (auto simp: row_evolves_iff)
  then have "list_all2 row_evolves (reservations d) (map ?f (reservations d))"
    by (auto simp: list_all2_conv_all_nth)
  moreover have "reservations (release u d) = map ?f (reservations d)"
    using assms(1) by (simp add: release_def)
  ultimately show ?thesis by (auto simp: evolves_def)
qed

section \<open>A sale\<close>

datatype sale_op =
    Deliver tx_env attempt int
  | Expire tx_env string

fun sale_step :: "pg_server \<Rightarrow> sale_op \<Rightarrow> db \<Rightarrow> unit \<times> db" where
  "sale_step S (Deliver e a ttl) d = ((), snd (ProcessAttempt S e a ttl d))"
| "sale_step S (Expire e rid) d = ((), snd (ExpireReservation S e rid d))"

definition run_sale :: "pg_server \<Rightarrow> sale_op list \<Rightarrow> db \<Rightarrow> db" where
  "run_sale S ops d = fold (\<lambda>x d. snd (sale_step S x d)) ops d"

context uuid_io
begin

lemma ExpireReservation_history:
  assumes "schema_ok d"
  shows "evolves d (snd (ExpireReservation S e rid d))"
  using ExpireReservation_db [OF assms, of e rid] release_history assms
  by (auto simp: lapsed_def)

lemma sale_step_ledger:
  assumes "schema_ok d"
  shows "schema_ok (snd (sale_step S x d)) \<and> catalogue (snd (sale_step S x d)) = catalogue d
    \<and> stock u (snd (sale_step S x d)) = stock u d \<and> evolves d (snd (sale_step S x d))"
  using assms
  by (cases x) (simp_all add: ProcessAttempt_ledger ExpireReservation_ledger ProcessAttempt_history
      ExpireReservation_history)

end

sublocale uuid_io \<subseteq> sale: ledger_history "sale_step S"
  by unfold_locales (auto simp: sale_step_ledger)

context uuid_io
begin

lemma run_sale_invariant:
  assumes "schema_ok d"
  shows "schema_ok (run_sale S ops d) \<and> catalogue (run_sale S ops d) = catalogue d
    \<and> stock u (run_sale S ops d) = stock u d \<and> evolves d (run_sale S ops d)"
  unfolding run_sale_def using sale.run_invariant [OF assms] sale.run_history [OF assms] by blast

lemma run_sale_accounted: "schema_ok d \<Longrightarrow> accounted d \<Longrightarrow> accounted (run_sale S ops d)"
  unfolding run_sale_def by (rule sale.run_accounted)

end

lemma catalogue_find_item:
  assumes "catalogue d' = catalogue d" "find_item u d = Some it"
  shows "\<exists>it'. find_item u d' = Some it' \<and> total_inventory it' = total_inventory it"
proof -
  have proj: "find (\<lambda>(i, t, s). i = u) (map (\<lambda>r. (item_id r, total_inventory r, item_status r)) rows)
      = map_option (\<lambda>r. (item_id r, total_inventory r, item_status r)) (find (\<lambda>r. item_id r = u) rows)" for rows
    by (induction rows) auto
  have "map_option (\<lambda>r. (item_id r, total_inventory r, item_status r)) (find_item u d')
      = map_option (\<lambda>r. (item_id r, total_inventory r, item_status r)) (find_item u d)"
    using assms(1) by (simp only: catalogue_def flip: proj)
  with assms(2) show ?thesis by (auto simp: map_option_eq_Some)
qed

section \<open>Properties\<close>

text \<open>
  C2.  The sale never oversells.  After any interleaving of deliveries and expiries, each with its
  own faults, clock and server answers, every item keeps its size, has a count that is not negative,
  and the units reserved or paid for never exceed the size; available and held units together are
  what they were at the start, so no unit is lost or made up.
\<close>

theorem sale_never_oversells:
  assumes "uuid_io S" "schema_ok d" "accounted d" "find_item u d = Some it"
  shows "\<exists>it'. find_item u (run_sale S ops d) = Some it' \<and> total_inventory it' = total_inventory it
    \<and> 0 \<le> available_inventory it' \<and> held u (run_sale S ops d) \<le> total_inventory it
    \<and> available_inventory it' + held u (run_sale S ops d) = available_inventory it + held u d"
proof -
  let ?d = "run_sale S ops d"
  note inv = uuid_io.run_sale_invariant [OF assms(1,2), of ops u]
  obtain it' where it': "find_item u ?d = Some it'" "total_inventory it' = total_inventory it"
    using catalogue_find_item [OF _ assms(4)] inv by blast
  have "accounted ?d" using assms by (intro uuid_io.run_sale_accounted)
  then have "held u ?d \<le> total_inventory it'" using inv it' by (intro accounted_held_le_total) auto
  moreover have "0 \<le> available_inventory it'" using schema_ok_item [OF _ it'(1)] inv by (simp add: item_ok_def)
  moreover have "available_inventory it' + held u ?d = available_inventory it + held u d"
    using inv it'(1) assms(4) by (simp add: stock_def available_def)
  ultimately show ?thesis using it' by (intro exI [of _ it']) simp
qed

lemma demo_accounted: "accounted demo_db"
  by (simp add: accounted_def demo_db_def demo_item_def stock_def available_def held_def)

theorem sale_never_oversells_witness:
  "held 7 (run_sale canonical_server
     [Deliver demo_env demo_attempt 120, Deliver demo_env demo_attempt 120,
      Expire (demo_env\<lparr>tx_now := 9000\<rparr>) (uuid_out canonical_server 100)] demo_db) \<le> 10"
proof -
  define ops where "ops = [Deliver demo_env demo_attempt 120, Deliver demo_env demo_attempt 120,
      Expire (demo_env\<lparr>tx_now := 9000\<rparr>) (uuid_out canonical_server 100)]"
  have "held 7 (run_sale canonical_server ops demo_db) \<le> total_inventory demo_item"
    using sale_never_oversells
      [OF canonical.uuid_io_axioms demo_facts(1) demo_accounted demo_facts(3), of ops] by (elim exE conjE)
  then show ?thesis unfolding ops_def by (simp only: demo_item_def item.simps)
qed

text \<open>
  C35.  No transaction rewrites history.  After any interleaving, the reservations of the start are
  all there, in place, with every column but the status unchanged; a status is the same or went from
  reserved to expired, so a rejected, paid, cancelled or expired reservation stays what it is.
\<close>

theorem sale_keeps_reservations:
  assumes "uuid_io S" "schema_ok d"
  shows "\<exists>old new. reservations (run_sale S ops d) = old @ new
    \<and> list_all2 (\<lambda>r r'. r' = r \<or> (res_status r = Reserved \<and> r' = r\<lparr>res_status := Expired\<rparr>))
         (reservations d) old"
proof -
  have "evolves d (run_sale S ops d)"
    using uuid_io.run_sale_invariant [OF assms] by blast
  then show ?thesis by (simp add: evolves_def row_evolves_iff [abs_def])
qed

theorem sale_keeps_reservations_witness:
  "\<exists>r new. reservations (run_sale canonical_server
        [Expire (exp_env 2000) (uuid_out canonical_server 101)] exp_db) = [exp_paid, r] @ new"
proof -
  have "list_all2 (\<lambda>r r'. r' = r \<or> (res_status r = Reserved \<and> r' = r\<lparr>res_status := Expired\<rparr>))
         [exp_paid, exp_reserved] old \<Longrightarrow> \<exists>r. old = [exp_paid, r]" for old
    by (auto simp: list_all2_Cons1 exp_paid_def)
  then show ?thesis
    using sale_keeps_reservations [OF canonical.uuid_io_axioms exp_facts(1),
        of "[Expire (exp_env 2000) (uuid_out canonical_server 101)]"]
    by (fastforce simp: exp_db_def)
qed

text \<open>
  A redelivered attempt is answered with the \<^emph>\<open>current\<close> status of its row, and nothing
  changes: after the reservation was expired or paid the replayed outcome says so, and is neither
  reserved nor rejected.
\<close>

theorem replay_reports_current_status:
  assumes "no_fault e" "uuid_in S (ItemID a) = Some u" "find_item u d \<noteq> None"
    and "0 < Quantity a" "int4 (Quantity a)" "find_attempt u (IdempotencyKey a) d = Some r"
  shows "ProcessAttempt S e a ttl d =
    (Inr \<lparr> ReservationID = uuid_out S (res_id r), Status = res_status r, Replayed = True \<rparr>, d)"
  using assms
  by (auto simp: ProcessAttempt_def no_fault_def sql_defs ErrNoRows_def Let_def)

theorem replay_reports_current_status_witness:
  "fst (ProcessAttempt canonical_server demo_env demo_attempt 120 (release 100 exp_db)) =
    Inr \<lparr> ReservationID = uuid_out canonical_server 100, Status = Expired, Replayed = True \<rparr>"
proof -
  have "find_item 7 (release 100 exp_db) \<noteq> None" "0 < Quantity demo_attempt" "int4 (Quantity demo_attempt)"
    "find_attempt 7 (IdempotencyKey demo_attempt) (release 100 exp_db) = Some (exp_reserved\<lparr>res_status := Expired\<rparr>)"
    by (simp_all add: release_def exp_defs demo_attempt_def int4_def res_index_def)
  from replay_reports_current_status [OF demo_facts(2,4) this] show ?thesis
    by (simp add: exp_reserved_def)
qed

end
