(* ===== verification/Admission.thy ===== *)
theory Admission
  imports Retry
begin

text \<open>
  Package \<open>internal/admission\<close>: the waiting room.  \<open>admitter.go\<close> is a loop that alone owns the queue and
  callers that talk to it over channels: the loop's \<open>select\<close> cases are functions on its state, the
  callers of \<open>Join\<close> and \<open>Depth\<close> are small state machines, and \<open>room_step\<close> interleaves them.
  \<open>registry.go\<close> keeps one admitter per item.  The lemmas give the queue invariant, fairness, the
  admission rate and the bounded wait.
\<close>

section \<open>The loop\<close>

text \<open>
  A request is named by a number.  Its \<open>position\<close> channel holds the value once it was sent, and
  \<open>admitted_ch\<close> is the set of requests whose \<open>admitted\<close> channel is closed.
\<close>

record admitter =
  queue :: "nat list"
  nextPosition :: int
  position_ch :: "nat \<Rightarrow> int option"
  admitted_ch :: "nat set"
  loop_done :: bool

definition admitter_start :: admitter where
  "admitter_start =
     \<lparr> queue = [], nextPosition = 0, position_ch = (\<lambda>r. None), admitted_ch = {}, loop_done = False \<rparr>"

text \<open>The cases of the \<open>select\<close> in \<open>run\<close>.\<close>

definition recv_join :: "nat \<Rightarrow> admitter \<Rightarrow> admitter" where
  "recv_join req a =
     a\<lparr> queue := queue a @ [req],
        position_ch := (position_ch a)(req \<mapsto> nextPosition a),
        nextPosition := nextPosition a + 1 \<rparr>"

definition recv_tick :: "admitter \<Rightarrow> admitter" where
  "recv_tick a =
     (case queue a of
        [] \<Rightarrow> a
      | nxt # rest \<Rightarrow> a\<lparr> queue := rest, admitted_ch := insert nxt (admitted_ch a) \<rparr>)"

definition recv_depth :: "admitter \<Rightarrow> int" where
  "recv_depth a = int (length (queue a))"

definition recv_done :: "admitter \<Rightarrow> admitter" where
  "recv_done a = a\<lparr> loop_done := True \<rparr>"

section \<open>Creation\<close>

text \<open>
  \<open>NewAdmitter\<close>: the period of its ticker, or the panic of the division or, in the loop's goroutine,
  of \<open>time.NewTicker\<close>.  Go's division truncates.
\<close>

definition NewAdmitter :: "int \<Rightarrow> go_panic + int" where
  "NewAdmitter ratePerSecond =
     (if ratePerSecond = 0 then Inl DivideByZero
      else let rate = sgn ratePerSecond * (Second div \<bar>ratePerSecond\<bar>)
           in if rate \<le> 0 then Inl NonPositiveTicker else Inr rate)"

section \<open>The callers\<close>

text \<open>
  Where a call of \<open>Join\<close> is, in its three \<open>select\<close>s or returned, and where a call of \<open>Depth\<close> is, in its
  two \<open>select\<close>s (the buffered \<open>result\<close> channel holding the answer in the second) or returned.
\<close>

datatype join_phase = Enqueueing | AwaitingPosition | AwaitingAdmission int | Joined int | JoinCancelled

datatype depth_phase = Asking | AwaitingDepth int | DepthIs int | DepthCancelled | DepthStopped

record room =
  adm :: admitter
  joins :: "nat \<Rightarrow> join_phase option"
  asks :: "nat \<Rightarrow> depth_phase option"

definition room_start :: room where
  "room_start = \<lparr> adm = admitter_start, joins = Map.empty, asks = Map.empty \<rparr>"

text \<open>
  What happens in the room.  The calls appear (\<open>JoinCalled\<close>, \<open>DepthCalled\<close>), a rendezvous takes place
  on an unbuffered channel (\<open>JoinReceived\<close>, \<open>DepthReceived\<close>), a caller reads its own channel
  (\<open>PositionRead\<close>, \<open>AdmissionRead\<close>, \<open>DepthRead\<close>) or its context is done (\<open>CallerGone\<close>, \<open>AskerGone\<close>), the ticker fires, and
  the loop's context is done (\<open>Stopped\<close>).
\<close>

datatype room_event =
    JoinCalled nat
  | JoinReceived nat
  | PositionRead nat
  | AdmissionRead nat
  | CallerGone nat
  | Ticked
  | DepthCalled nat
  | DepthReceived nat
  | DepthRead nat
  | AskerGone nat
  | AskerStopped nat
  | Stopped

inductive room_step :: "room_event \<Rightarrow> room \<Rightarrow> room \<Rightarrow> bool" where
  join_called: "joins s r = None \<Longrightarrow> room_step (JoinCalled r) s (s\<lparr>joins := (joins s)(r \<mapsto> Enqueueing)\<rparr>)"
| join_received: "joins s r = Some Enqueueing \<Longrightarrow> \<not> loop_done (adm s)
    \<Longrightarrow> room_step (JoinReceived r) s (s\<lparr>adm := recv_join r (adm s), joins := (joins s)(r \<mapsto> AwaitingPosition)\<rparr>)"
| position_read: "joins s r = Some AwaitingPosition \<Longrightarrow> position_ch (adm s) r = Some p
    \<Longrightarrow> room_step (PositionRead r) s (s\<lparr>joins := (joins s)(r \<mapsto> AwaitingAdmission p)\<rparr>)"
| admission_read: "joins s r = Some (AwaitingAdmission p) \<Longrightarrow> r \<in> admitted_ch (adm s)
    \<Longrightarrow> room_step (AdmissionRead r) s (s\<lparr>joins := (joins s)(r \<mapsto> Joined p)\<rparr>)"
| caller_gone: "joins s r = Some ph \<Longrightarrow> ph = Enqueueing \<or> ph = AwaitingPosition \<or> ph = AwaitingAdmission p
    \<Longrightarrow> room_step (CallerGone r) s (s\<lparr>joins := (joins s)(r \<mapsto> JoinCancelled)\<rparr>)"
| ticked: "\<not> loop_done (adm s) \<Longrightarrow> room_step Ticked s (s\<lparr>adm := recv_tick (adm s)\<rparr>)"
| depth_called: "asks s k = None \<Longrightarrow> room_step (DepthCalled k) s (s\<lparr>asks := (asks s)(k \<mapsto> Asking)\<rparr>)"
| depth_received: "asks s k = Some Asking \<Longrightarrow> \<not> loop_done (adm s)
    \<Longrightarrow> room_step (DepthReceived k) s (s\<lparr>asks := (asks s)(k \<mapsto> AwaitingDepth (recv_depth (adm s)))\<rparr>)"
| depth_read: "asks s k = Some (AwaitingDepth n)
    \<Longrightarrow> room_step (DepthRead k) s (s\<lparr>asks := (asks s)(k \<mapsto> DepthIs n)\<rparr>)"
| asker_gone: "asks s k = Some ph \<Longrightarrow> ph = Asking \<or> ph = AwaitingDepth n
    \<Longrightarrow> room_step (AskerGone k) s (s\<lparr>asks := (asks s)(k \<mapsto> DepthCancelled)\<rparr>)"
| asker_stopped: "asks s k = Some Asking \<Longrightarrow> loop_done (adm s)
    \<Longrightarrow> room_step (AskerStopped k) s (s\<lparr>asks := (asks s)(k \<mapsto> DepthStopped)\<rparr>)"
| stopped: "room_step Stopped s (s\<lparr>adm := recv_done (adm s)\<rparr>)"

inductive_cases room_step_cases: "room_step ev s s'"

inductive_simps room_step_simps:
  "room_step (JoinCalled r) s s'" "room_step (JoinReceived r) s s'" "room_step (PositionRead r) s s'"
  "room_step (AdmissionRead r) s s'" "room_step (CallerGone r) s s'" "room_step Ticked s s'"
  "room_step (DepthCalled k) s s'" "room_step (DepthReceived k) s s'" "room_step (DepthRead k) s s'"
  "room_step (AskerGone k) s s'"
  "room_step (AskerStopped k) s s'" "room_step Stopped s s'"

inductive room_run :: "room_event list \<Rightarrow> room \<Rightarrow> room \<Rightarrow> bool" where
  run_none: "room_run [] s s"
| run_more: "room_run evs s s' \<Longrightarrow> room_step ev s' s'' \<Longrightarrow> room_run (evs @ [ev]) s s''"

section \<open>The queue invariant\<close>

text \<open>
  Positions are handed out in order of arrival without gaps; the queue holds the last ones, in order,
  and exactly those before them are admitted.
\<close>

definition queue_ok :: "admitter \<Rightarrow> bool" where
  "queue_ok a \<longleftrightarrow>
     0 \<le> nextPosition a - int (length (queue a))
   \<and> (\<forall>k < length (queue a). position_ch a (queue a ! k) = Some (nextPosition a - int (length (queue a)) + int k))
   \<and> (\<forall>r s p. position_ch a r = Some p \<longrightarrow> position_ch a s = Some p \<longrightarrow> r = s)
   \<and> (\<forall>r p. position_ch a r = Some p \<longrightarrow> 0 \<le> p \<and> p < nextPosition a)
   \<and> (\<forall>r. r \<in> admitted_ch a \<longleftrightarrow>
        (\<exists>p. position_ch a r = Some p \<and> p < nextPosition a - int (length (queue a))))"

fun caller_ok :: "admitter \<Rightarrow> nat \<Rightarrow> join_phase option \<Rightarrow> bool" where
  "caller_ok a r None = (position_ch a r = None)"
| "caller_ok a r (Some Enqueueing) = (position_ch a r = None)"
| "caller_ok a r (Some AwaitingPosition) = (position_ch a r \<noteq> None)"
| "caller_ok a r (Some (AwaitingAdmission p)) = (position_ch a r = Some p)"
| "caller_ok a r (Some (Joined p)) = (position_ch a r = Some p \<and> r \<in> admitted_ch a)"
| "caller_ok a r (Some JoinCancelled) = True"

definition callers_ok :: "room \<Rightarrow> bool" where
  "callers_ok s \<longleftrightarrow> (\<forall>r. caller_ok (adm s) r (joins s r))"

lemma callers_okD: "callers_ok s \<Longrightarrow> caller_ok (adm s) r (joins s r)"
  by (simp add: callers_ok_def)

lemma callers_ok_move:
  assumes "callers_ok s" "caller_ok (adm s) r (Some ph)"
  shows "callers_ok (s\<lparr>joins := (joins s)(r \<mapsto> ph)\<rparr>)"
  using assms by (simp add: callers_ok_def)

text \<open>Only growing channels: what a caller has seen stays true.\<close>

lemma caller_ok_mono:
  assumes "caller_ok a r ph" "position_ch a' r = position_ch a r" "admitted_ch a \<subseteq> admitted_ch a'"
  shows "caller_ok a' r ph"
  using assms by (cases "(a, r, ph)" rule: caller_ok.cases) auto

lemma queue_ok_start: "queue_ok admitter_start"
  by (simp add: queue_ok_def admitter_start_def)

lemma queue_ok_join:
  assumes "queue_ok a" "position_ch a r = None"
  shows "queue_ok (recv_join r a)"
proof -
  let ?a = "recv_join r a"
  have q: "queue ?a = queue a @ [r]" "nextPosition ?a = nextPosition a + 1"
    "position_ch ?a = (position_ch a)(r \<mapsto> nextPosition a)" "admitted_ch ?a = admitted_ch a"
    by (simp_all add: recv_join_def)
  have notin: "queue a ! k \<noteq> r" if "k < length (queue a)" for k
    using assms that by (metis option.distinct(1) queue_ok_def)
  have bound: "p < nextPosition a" if "position_ch a s = Some p" for s p
    using assms(1) that by (auto simp: queue_ok_def)
  have "position_ch ?a (queue ?a ! k) = Some (nextPosition ?a - int (length (queue ?a)) + int k)"
    if "k < length (queue ?a)" for k
  proof (cases "k < length (queue a)")
    case True
    then show ?thesis using assms(1) notin [OF True] by (simp add: q nth_append queue_ok_def)
  next
    case False
    with that have "k = length (queue a)" by (simp add: q)
    then show ?thesis by (simp add: q)
  qed
  moreover have "x = y" if "position_ch ?a x = Some p" "position_ch ?a y = Some p" for x y p
    using that assms(1) bound by (auto simp: q queue_ok_def split: if_splits)
  moreover have "0 \<le> p \<and> p < nextPosition ?a" if "position_ch ?a x = Some p" for x p
    using that assms(1) by (fastforce simp: q queue_ok_def split: if_splits)
  moreover have "x \<in> admitted_ch ?a \<longleftrightarrow>
      (\<exists>p. position_ch ?a x = Some p \<and> p < nextPosition ?a - int (length (queue ?a)))" for x
    using assms by (auto simp: q queue_ok_def)
  moreover have "0 \<le> nextPosition ?a - int (length (queue ?a))"
    using assms(1) by (simp add: q queue_ok_def)
  ultimately show ?thesis unfolding queue_ok_def by blast
qed

lemma queue_ok_tick:
  assumes "queue_ok a"
  shows "queue_ok (recv_tick a)"
proof (cases "queue a")
  case Nil
  with assms show ?thesis by (simp add: recv_tick_def)
next
  case (Cons x xs)
  let ?a = "recv_tick a"
  have q: "queue ?a = xs" "nextPosition ?a = nextPosition a" "position_ch ?a = position_ch a"
    "admitted_ch ?a = insert x (admitted_ch a)"
    by (simp_all add: recv_tick_def Cons)
  have pos: "position_ch a (queue a ! k) = Some (nextPosition a - int (length (queue a)) + int k)"
    if "k < length (queue a)" for k
    using assms that by (simp add: queue_ok_def)
  from pos [of 0] have px: "position_ch a x = Some (nextPosition a - int (length (queue a)))"
    by (simp add: Cons)
  have "position_ch ?a (queue ?a ! k) = Some (nextPosition ?a - int (length (queue ?a)) + int k)"
    if "k < length (queue ?a)" for k
    using pos [of "Suc k"] that by (simp add: q Cons)
  moreover have "r \<in> admitted_ch ?a \<longleftrightarrow>
      (\<exists>p. position_ch ?a r = Some p \<and> p < nextPosition ?a - int (length (queue ?a)))" for r
  proof -
    have "r = x" if "position_ch a r = Some (nextPosition a - int (length (queue a)))"
      using assms px that unfolding queue_ok_def by blast
    then have inj: "p \<noteq> nextPosition a - int (length (queue a))" if "position_ch a r = Some p" "r \<noteq> x" for p
      using that by auto
    have "(\<exists>p. position_ch a r = Some p \<and> p < nextPosition a - int (length xs)) \<longleftrightarrow>
        (\<exists>p. position_ch a r = Some p \<and> p < nextPosition a - int (length (queue a))) \<or> r = x"
      using inj px by (fastforce simp: Cons)
    moreover have "r \<in> admitted_ch a \<longleftrightarrow>
        (\<exists>p. position_ch a r = Some p \<and> p < nextPosition a - int (length (queue a)))"
      using assms by (simp add: queue_ok_def)
    ultimately show ?thesis unfolding q by blast
  qed
  moreover have "0 \<le> nextPosition ?a - int (length (queue ?a))"
    using assms by (simp add: q queue_ok_def Cons)
  ultimately show ?thesis using assms unfolding queue_ok_def q by blast
qed

lemma queue_ok_done: "queue_ok a \<Longrightarrow> queue_ok (recv_done a)"
  by (simp add: queue_ok_def recv_done_def)

lemma room_step_ok:
  assumes "room_step ev s s'" "queue_ok (adm s)" "callers_ok s"
  shows "queue_ok (adm s') \<and> callers_ok s'"
  using assms
proof (induction rule: room_step.induct)
  case (join_called s r)
  then have "caller_ok (adm s) r (Some Enqueueing)" using callers_okD [of s r] by simp
  then show ?case using join_called.prems by (simp add: callers_ok_move)
next
  case (join_received s r)
  have none: "position_ch (adm s) r = None" using join_received callers_okD [of s r] by simp
  have "caller_ok (recv_join r (adm s)) x (((joins s)(r \<mapsto> AwaitingPosition)) x)" for x
  proof (cases "x = r")
    case True
    then show ?thesis by (simp add: recv_join_def)
  next
    case False
    have "caller_ok (recv_join r (adm s)) x (joins s x)"
      using callers_okD [OF join_received.prems(2), of x]
      by (rule caller_ok_mono) (use False in \<open>simp_all add: recv_join_def\<close>)
    with False show ?thesis by simp
  qed
  with queue_ok_join [OF join_received.prems(1) none] show ?case by (simp add: callers_ok_def)
next
  case (position_read s r p)
  then show ?case by (simp add: callers_ok_move)
next
  case (admission_read s r p)
  then have "caller_ok (adm s) r (Some (Joined p))" using callers_okD [of s r] by simp
  then show ?case using admission_read.prems by (simp add: callers_ok_move)
next
  case (caller_gone s r ph p)
  then show ?case by (simp add: callers_ok_move)
next
  case (ticked s)
  have "caller_ok (recv_tick (adm s)) x (joins s x)" for x
    using callers_okD [OF ticked.prems(2), of x]
    by (rule caller_ok_mono) (auto simp: recv_tick_def split: list.split)
  with queue_ok_tick [OF ticked.prems(1)] show ?case by (simp add: callers_ok_def)
next
  case (stopped s)
  have "caller_ok (recv_done (adm s)) x (joins s x)" for x
    using callers_okD [OF stopped.prems(2), of x] by (rule caller_ok_mono) (simp_all add: recv_done_def)
  with queue_ok_done [OF stopped.prems(1)] show ?case by (simp add: callers_ok_def)
qed (simp_all add: callers_ok_def)

lemma room_run_ok:
  assumes "room_run evs room_start s"
  shows "queue_ok (adm s) \<and> callers_ok s"
  using assms
proof (induction evs room_start s rule: room_run.induct)
  case run_none
  show ?case using queue_ok_start by (simp add: room_start_def callers_ok_def, simp add: admitter_start_def)
next
  case (run_more evs s' ev s'')
  then show ?case using room_step_ok by blast
qed

section \<open>Fairness, rate and bounded wait\<close>

text \<open>The number of requests a room admitted so far is the number of positions that left the queue.\<close>

definition admitted_count :: "admitter \<Rightarrow> int" where
  "admitted_count a = nextPosition a - int (length (queue a))"

definition ticks :: "room_event list \<Rightarrow> nat" where
  "ticks evs = length (filter (\<lambda>ev. ev = Ticked) evs)"

lemma admitted_iff:
  "queue_ok a \<Longrightarrow> r \<in> admitted_ch a \<longleftrightarrow> (\<exists>p. position_ch a r = Some p \<and> p < admitted_count a)"
  by (simp add: queue_ok_def admitted_count_def)

lemma room_step_count:
  assumes "room_step ev s s'"
  shows "admitted_count (adm s) \<le> admitted_count (adm s')
    \<and> admitted_count (adm s') \<le> admitted_count (adm s) + (if ev = Ticked then 1 else 0)
    \<and> (ev = Ticked \<longrightarrow> admitted_count (adm s') = admitted_count (adm s) + (if queue (adm s) = [] then 0 else 1))"
  using assms
  by (induction rule: room_step.induct)
    (auto simp: admitted_count_def recv_join_def recv_tick_def recv_done_def split: list.splits)

lemma room_run_rate:
  "room_run evs room_start s \<Longrightarrow> 0 \<le> admitted_count (adm s) \<and> admitted_count (adm s) \<le> int (ticks evs)"
proof (induction evs room_start s rule: room_run.induct)
  case run_none
  show ?case by (simp add: room_start_def admitter_start_def admitted_count_def)
next
  case (run_more evs s' ev s'')
  with room_step_count [OF run_more(3)] show ?case by (auto simp: ticks_def split: if_splits)
qed

lemma position_kept:
  assumes "room_step ev s s'" "position_ch (adm s) r = Some p" "callers_ok s"
  shows "position_ch (adm s') r = Some p"
  using assms
  by (induction rule: room_step.induct)
    (auto simp: recv_join_def recv_tick_def recv_done_def split: list.splits dest: callers_okD [of _ r])

lemma position_kept_run:
  assumes "room_run evs s s'" "position_ch (adm s) r = Some p" "queue_ok (adm s)" "callers_ok s"
  shows "position_ch (adm s') r = Some p \<and> queue_ok (adm s') \<and> callers_ok s'"
  using assms
  by (induction rule: room_run.induct) (use position_kept room_step_ok in blast)+

text \<open>Each tick brings a waiting request one place forward, so the tick after those admits it.\<close>

lemma bounded_wait:
  assumes "room_run evs s s'" "position_ch (adm s) r = Some p" "queue_ok (adm s)" "callers_ok s"
  shows "min (p + 1) (admitted_count (adm s) + int (ticks evs)) \<le> admitted_count (adm s')"
  using assms
proof (induction rule: room_run.induct)
  case (run_none s)
  then show ?case by (simp add: ticks_def)
next
  case (run_more evs s s' ev s'')
  note kept = position_kept_run [OF run_more(1,4,5,6)]
  have ih: "min (p + 1) (admitted_count (adm s) + int (ticks evs)) \<le> admitted_count (adm s')"
    using run_more by blast
  note cnt = room_step_count [OF run_more(2)]
  show ?case
  proof (cases "ev = Ticked")
    case False
    with ih cnt show ?thesis by (simp add: ticks_def)
  next
    case True
    have "p < nextPosition (adm s')" using kept by (auto simp: queue_ok_def)
    then have "queue (adm s') = [] \<longrightarrow> p + 1 \<le> admitted_count (adm s')" by (simp add: admitted_count_def)
    with True ih cnt show ?thesis by (auto simp: ticks_def split: if_splits)
  qed
qed

section \<open>Arrivals\<close>

text \<open>The position of a request is the number of requests received before it.\<close>

fun is_received :: "room_event \<Rightarrow> bool" where
  "is_received (JoinReceived r) = True"
| "is_received _ = False"

definition arrivals :: "room_event list \<Rightarrow> int" where
  "arrivals evs = int (length (filter is_received evs))"

lemma arrivals_snoc: "arrivals (evs @ [ev]) = arrivals evs + (if is_received ev then 1 else 0)"
  by (simp add: arrivals_def)

lemma room_step_next:
  assumes "room_step ev s s'"
  shows "nextPosition (adm s') = nextPosition (adm s) + (if is_received ev then 1 else 0)
    \<and> position_ch (adm s') = (case ev of JoinReceived r \<Rightarrow> (position_ch (adm s))(r \<mapsto> nextPosition (adm s))
        | _ \<Rightarrow> position_ch (adm s))"
  using assms
  by (induction rule: room_step.induct)
    (auto simp: recv_join_def recv_tick_def recv_done_def split: list.splits)

lemma room_run_arrivals: "room_run evs room_start s \<Longrightarrow> nextPosition (adm s) = arrivals evs"
proof (induction evs room_start s rule: room_run.induct)
  case run_none
  show ?case by (simp add: room_start_def admitter_start_def arrivals_def)
next
  case (run_more evs s' ev s'')
  with room_step_next [OF run_more(3)] show ?case by (simp add: arrivals_snoc)
qed

lemma position_arrival:
  "room_run evs room_start s \<Longrightarrow> evs = e1 @ JoinReceived r # e2 \<Longrightarrow> position_ch (adm s) r = Some (arrivals e1)"
proof (induction evs room_start s arbitrary: e2 rule: room_run.induct)
  case run_none
  then show ?case by simp
next
  case (run_more evs s' ev s'')
  note ok = room_run_ok [OF run_more(1)]
  show ?case
  proof (cases e2 rule: rev_cases)
    case Nil
    with run_more(4) have "evs = e1" "ev = JoinReceived r" by simp_all
    with room_step_next [OF run_more(3)] room_run_arrivals [OF run_more(1)] show ?thesis by simp
  next
    case (snoc e2' x)
    with run_more(4) have "evs = e1 @ JoinReceived r # e2'" by simp
    from run_more(2) [OF this] position_kept [OF run_more(3) _ conjunct2 [OF ok]] show ?thesis by blast
  qed
qed

lemma room_run_Cons:
  assumes "room_run evs s' s''" "room_step ev s s'"
  shows "room_run (ev # evs) s s''"
  using assms
proof (induction rule: room_run.induct)
  case (run_none s')
  from room_run.run_more [OF room_run.run_none run_none] show ?case by simp
next
  case (run_more evs s' t ev' t')
  from room_run.run_more [OF run_more(3) [OF run_more(4)] run_more(2)] show ?case by simp
qed

section \<open>Properties\<close>

text \<open>
  C25.  First come, first served.  In every run of a waiting room, whatever the interleaving and
  whichever callers give up, a buyer whose request was received before another one is let in no later:
  if the later one's \<open>Join\<close> returned, the earlier one is admitted.  The position \<open>Join\<close> returns is the
  number of requests received before its own.
\<close>

theorem waiting_room_fair:
  assumes "room_run evs room_start s"
    and "evs = e1 @ JoinReceived r1 # e2 @ JoinReceived r2 # e3"
    and "joins s r2 = Some (Joined p)"
  shows "r1 \<in> admitted_ch (adm s) \<and> p = arrivals (e1 @ JoinReceived r1 # e2)"
proof -
  have ok: "queue_ok (adm s)" "callers_ok s" using room_run_ok [OF assms(1)] by simp_all
  have p1: "position_ch (adm s) r1 = Some (arrivals e1)"
    by (rule position_arrival [OF assms(1)]) (use assms(2) in simp)
  have p2: "position_ch (adm s) r2 = Some (arrivals (e1 @ JoinReceived r1 # e2))"
    by (rule position_arrival [OF assms(1)]) (use assms(2) in simp)
  have "position_ch (adm s) r2 = Some p" "r2 \<in> admitted_ch (adm s)"
    using callers_okD [OF ok(2), of r2] assms(3) by simp_all
  moreover have "arrivals e1 < arrivals (e1 @ JoinReceived r1 # e2)" by (simp add: arrivals_def)
  ultimately show ?thesis using p1 p2 admitted_iff [OF ok(1)] by force
qed

text \<open>Two buyers arrive, the first gives up, two ticks pass, the second is let in.\<close>

definition demo_room_events :: "room_event list" where
  "demo_room_events = [JoinCalled 0, JoinReceived 0, CallerGone 0, JoinCalled 1, JoinReceived 1,
     PositionRead 1, Ticked, DepthCalled 0, DepthReceived 0,
     DepthRead 0]"

lemma demo_room_run:
  "\<exists>s. room_run demo_room_events room_start s \<and> joins s 0 = Some JoinCancelled
     \<and> joins s 1 = Some (AwaitingAdmission 1) \<and> queue (adm s) = [1] \<and> admitted_ch (adm s) = {0}
     \<and> position_ch (adm s) 1 = Some 1 \<and> position_ch (adm s) 0 = Some 0 \<and> asks s 0 = Some (DepthIs 1) \<and> asks s 9 = None
     \<and> \<not> loop_done (adm s)"
  unfolding demo_room_events_def
  by (intro exI conjI room_run_Cons run_none, rule run_none)
    (simp_all add: room_step_simps room_start_def admitter_start_def recv_join_def recv_tick_def recv_depth_def)+

lemma demo_room_admitted:
  "\<exists>s. room_run (demo_room_events @ [Ticked, AdmissionRead 1]) room_start s \<and> joins s 1 = Some (Joined 1)"
proof -
  obtain s where s: "room_run demo_room_events room_start s" "joins s 1 = Some (AwaitingAdmission 1)"
    "queue (adm s) = [1]" "\<not> loop_done (adm s)" using demo_room_run by blast
  let ?s1 = "s\<lparr>adm := recv_tick (adm s)\<rparr>"
  have t: "room_run (demo_room_events @ [Ticked]) room_start ?s1"
    using s by (intro run_more [OF s(1)] ticked)
  have "room_step (AdmissionRead 1) ?s1 (?s1\<lparr>joins := (joins ?s1)(1 \<mapsto> Joined 1)\<rparr>)"
    using s by (intro admission_read) (simp_all add: recv_tick_def)
  from run_more [OF t this] show ?thesis
    by (intro exI [of _ "?s1\<lparr>joins := (joins ?s1)(1 \<mapsto> Joined 1)\<rparr>"]) simp
qed

theorem waiting_room_fair_witness:
  "\<exists>s. room_run (demo_room_events @ [Ticked, AdmissionRead 1]) room_start s \<and> joins s 1 = Some (Joined 1)
    \<and> 0 \<in> admitted_ch (adm s)"
proof -
  obtain s where s: "room_run (demo_room_events @ [Ticked, AdmissionRead 1]) room_start s" "joins s 1 = Some (Joined 1)"
    using demo_room_admitted by blast
  have "demo_room_events @ [Ticked, AdmissionRead 1] = [JoinCalled 0] @ JoinReceived 0 # [CallerGone 0, JoinCalled 1]
      @ JoinReceived 1 # [PositionRead 1, Ticked, DepthCalled 0, DepthReceived 0, DepthRead 0, Ticked, AdmissionRead 1]"
    by (simp add: demo_room_events_def)
  from waiting_room_fair [OF s(1) this s(2)] s show ?thesis by blast
qed

text \<open>
  C26.  The room never lets buyers in faster than its ticker: however many are waiting, the calls of
  \<open>Join\<close> that returned are at most the ticks that fired.
\<close>

theorem waiting_room_rate:
  assumes "room_run evs room_start s" "\<And>r. r \<in> R \<Longrightarrow> \<exists>p. joins s r = Some (Joined p)"
  shows "finite R \<and> card R \<le> ticks evs"
proof -
  have ok: "queue_ok (adm s)" "callers_ok s" using room_run_ok [OF assms(1)] by simp_all
  define pos where "pos = (\<lambda>r. the (position_ch (adm s) r))"
  have pos: "position_ch (adm s) r = Some (pos r) \<and> r \<in> admitted_ch (adm s)" if "r \<in> R" for r
    using callers_okD [OF ok(2), of r] assms(2) [OF that] by (auto simp: pos_def)
  have "inj_on pos R"
    using ok(1) pos by (intro inj_onI) (metis queue_ok_def)
  moreover have range: "pos ` R \<subseteq> {0..<admitted_count (adm s)}"
  proof
    fix x assume "x \<in> pos ` R"
    then obtain r where r: "r \<in> R" "x = pos r" by blast
    have "0 \<le> pos r" using ok(1) pos [OF r(1)] by (auto simp: queue_ok_def)
    moreover have "pos r < admitted_count (adm s)" using admitted_iff [OF ok(1), of r] pos [OF r(1)] by auto
    ultimately show "x \<in> {0..<admitted_count (adm s)}" using r by simp
  qed
  moreover have "finite (pos ` R)" using range by (rule finite_subset) simp
  ultimately have "finite R" "card (pos ` R) = card R" by (auto simp: card_image dest: finite_imageD)
  moreover have "card (pos ` R) \<le> card {0..<admitted_count (adm s)}" by (rule card_mono [OF _ range]) simp
  moreover have "nat (admitted_count (adm s)) \<le> ticks evs" using room_run_rate [OF assms(1)] by linarith
  ultimately show ?thesis by simp
qed

theorem waiting_room_rate_witness:
  "\<exists>s. room_run (demo_room_events @ [Ticked, AdmissionRead 1]) room_start s \<and> joins s 1 = Some (Joined 1)
    \<and> card {1 :: nat} \<le> ticks (demo_room_events @ [Ticked, AdmissionRead 1])"
proof -
  obtain s where s: "room_run (demo_room_events @ [Ticked, AdmissionRead 1]) room_start s" "joins s 1 = Some (Joined 1)"
    using demo_room_admitted by blast
  have "finite {1 :: nat} \<and> card {1 :: nat} \<le> ticks (demo_room_events @ [Ticked, AdmissionRead 1])"
    by (rule waiting_room_rate [OF s(1)]) (use s(2) in auto)
  with s show ?thesis by blast
qed

text \<open>
  C27.  Bounded wait.  A buyer with \<open>k\<close> others before it in the queue is admitted once \<open>k + 1\<close> more ticks
  have fired, whatever else happens in between, newcomers, cancellations and depth requests included.
\<close>

theorem waiting_room_bounded_wait:
  assumes "room_run evs room_start s" "k < length (queue (adm s))" "queue (adm s) ! k = r"
    and "room_run later s s'" "k < ticks later"
  shows "r \<in> admitted_ch (adm s')"
proof -
  have ok: "queue_ok (adm s)" "callers_ok s" using room_run_ok [OF assms(1)] by simp_all
  have pos: "position_ch (adm s) r = Some (admitted_count (adm s) + int k)"
    using ok(1) assms(2,3) by (auto simp: queue_ok_def admitted_count_def)
  note kept = position_kept_run [OF assms(4) pos ok]
  from bounded_wait [OF assms(4) pos ok] assms(5) have "admitted_count (adm s) + int k < admitted_count (adm s')"
    by (simp add: min_def split: if_splits)
  with kept admitted_iff [of "adm s'" r] show ?thesis by blast
qed

theorem waiting_room_bounded_wait_witness:
  "\<exists>s s'. room_run demo_room_events room_start s \<and> room_run [Ticked] s s' \<and> 1 \<in> admitted_ch (adm s')"
proof -
  obtain s where s: "room_run demo_room_events room_start s" "queue (adm s) = [1]" "\<not> loop_done (adm s)"
    using demo_room_run by blast
  have t: "room_run [Ticked] s (s\<lparr>adm := recv_tick (adm s)\<rparr>)"
    by (rule room_run_Cons [OF run_none ticked [OF s(3)]])
  have "1 \<in> admitted_ch (adm (s\<lparr>adm := recv_tick (adm s)\<rparr>))"
    by (rule waiting_room_bounded_wait [OF s(1) _ _ t, of 0 1]) (simp_all add: s(2) ticks_def)
  with s(1) t show ?thesis by blast
qed

text \<open>
  \<open>Depth\<close> answers the number of requests received and not yet admitted.  A buyer that gave up is
  still one of them: it stays in the queue, is counted, and uses up a tick.
\<close>

theorem depth_counts_unadmitted:
  assumes "room_run evs room_start s" "room_step (DepthReceived k) s s'"
  shows "asks s' k = Some (AwaitingDepth (int (card {r. position_ch (adm s) r \<noteq> None \<and> r \<notin> admitted_ch (adm s)})))"
proof -
  let ?a = "adm s"
  have ok: "queue_ok ?a" using room_run_ok [OF assms(1)] by simp
  have at: "position_ch ?a (queue ?a ! j) = Some (admitted_count ?a + int j)" if "j < length (queue ?a)" for j
    using ok that by (simp add: queue_ok_def admitted_count_def)
  have "distinct (queue ?a)"
    unfolding distinct_conv_nth using at by (metis add_left_cancel of_nat_eq_iff option.inject)
  moreover have "set (queue ?a) = {r. position_ch ?a r \<noteq> None \<and> r \<notin> admitted_ch ?a}"
  proof (intro set_eqI iffI)
    fix r assume "r \<in> set (queue ?a)"
    then obtain j where "j < length (queue ?a)" "queue ?a ! j = r" by (auto simp: in_set_conv_nth)
    with at [of j] admitted_iff [OF ok, of r] show "r \<in> {r. position_ch ?a r \<noteq> None \<and> r \<notin> admitted_ch ?a}" by auto
  next
    fix r assume "r \<in> {r. position_ch ?a r \<noteq> None \<and> r \<notin> admitted_ch ?a}"
    then obtain p where p: "position_ch ?a r = Some p" "\<not> p < admitted_count ?a"
      using admitted_iff [OF ok, of r] by auto
    define j where "j = nat (p - admitted_count ?a)"
    have "p < nextPosition ?a" using ok p(1) by (auto simp: queue_ok_def)
    then have j: "j < length (queue ?a)" "p = admitted_count ?a + int j"
      using p(2) by (auto simp: j_def admitted_count_def)
    with at [of j] p(1) ok have "queue ?a ! j = r" unfolding queue_ok_def by metis
    with j(1) show "r \<in> set (queue ?a)" by auto
  qed
  ultimately have "int (length (queue ?a)) = int (card {r. position_ch ?a r \<noteq> None \<and> r \<notin> admitted_ch ?a})"
    by (metis distinct_card)
  with assms(2) show ?thesis by (auto simp: room_step_simps recv_depth_def)
qed

theorem depth_counts_unadmitted_witness:
  "\<exists>s s'. joins s 0 = Some JoinCancelled \<and> room_step (DepthReceived 0) s s' \<and> asks s' 0 = Some (AwaitingDepth 1)"
proof -
  have "\<exists>s. room_run [JoinCalled 0, JoinReceived 0, CallerGone 0, DepthCalled 0] room_start s
      \<and> joins s 0 = Some JoinCancelled \<and> asks s 0 = Some Asking \<and> \<not> loop_done (adm s)
      \<and> position_ch (adm s) = [0 \<mapsto> 0] \<and> admitted_ch (adm s) = {}"
    by (intro exI conjI room_run_Cons run_none, rule run_none)
      (simp_all add: room_step_simps room_start_def admitter_start_def recv_join_def)+
  then obtain s where s: "room_run [JoinCalled 0, JoinReceived 0, CallerGone 0, DepthCalled 0] room_start s"
    "joins s 0 = Some JoinCancelled" "asks s 0 = Some Asking" "\<not> loop_done (adm s)"
    "position_ch (adm s) = [0 \<mapsto> 0]" "admitted_ch (adm s) = {}" by blast
  let ?s' = "s\<lparr>asks := (asks s)(0 \<mapsto> AwaitingDepth (recv_depth (adm s)))\<rparr>"
  have step: "room_step (DepthReceived 0) s ?s'" by (rule depth_received) (use s in simp_all)
  have "{r. position_ch (adm s) r \<noteq> None \<and> r \<notin> admitted_ch (adm s)} = {0}" using s(5,6) by auto
  with depth_counts_unadmitted [OF s(1) step] have "asks ?s' 0 = Some (AwaitingDepth 1)" by simp
  with s(2) step show ?thesis by blast
qed

text \<open>
  C37.  Once the loop has stopped, a buyer it has not let in waits until its own connection ends: however
  long the run, as long as the caller's context is not done, \<open>Join\<close> does not return.
\<close>

theorem stopped_line_strands_buyers:
  assumes "room_run evs room_start s" "loop_done (adm s)" "r \<notin> admitted_ch (adm s)"
    and "joins s r = Some Enqueueing \<or> joins s r = Some AwaitingPosition \<or> (\<exists>p. joins s r = Some (AwaitingAdmission p))"
    and "room_run later s s'" "CallerGone r \<notin> set later"
  shows "joins s' r = Some Enqueueing \<or> joins s' r = Some AwaitingPosition \<or> (\<exists>p. joins s' r = Some (AwaitingAdmission p))"
proof -
  have "loop_done (adm s') \<and> r \<notin> admitted_ch (adm s')
    \<and> (joins s' r = Some Enqueueing \<or> joins s' r = Some AwaitingPosition \<or> (\<exists>p. joins s' r = Some (AwaitingAdmission p)))"
    using assms(5,2,3,4,6)
  proof (induction rule: room_run.induct)
    case (run_more evs s s' ev s'')
    then have "loop_done (adm s') \<and> r \<notin> admitted_ch (adm s')" "ev \<noteq> CallerGone r"
      "joins s' r = Some Enqueueing \<or> joins s' r = Some AwaitingPosition \<or> (\<exists>p. joins s' r = Some (AwaitingAdmission p))"
      by auto
    with run_more(2) show ?case by (cases rule: room_step.cases) (auto simp: recv_done_def)
  qed simp
  then show ?thesis by blast
qed

theorem stopped_line_strands_buyers_witness:
  "\<exists>s s'. room_run (demo_room_events @ [Stopped]) room_start s \<and> joins s 1 = Some (AwaitingAdmission 1)
    \<and> room_run [DepthCalled 9] s s' \<and> joins s' 1 \<noteq> Some (Joined 1)"
proof -
  obtain s where s: "room_run demo_room_events room_start s" "joins s 1 = Some (AwaitingAdmission 1)"
    "admitted_ch (adm s) = {0}" "asks s 9 = None" using demo_room_run by blast
  let ?s = "s\<lparr>adm := recv_done (adm s)\<rparr>" and ?t = "s\<lparr>adm := recv_done (adm s), asks := (asks s)(9 \<mapsto> Asking)\<rparr>"
  have run: "room_run (demo_room_events @ [Stopped]) room_start ?s" by (rule run_more [OF s(1) stopped])
  have "room_step (DepthCalled 9) ?s ?t" using depth_called [of ?s 9] s(4) by simp
  then have later: "room_run [DepthCalled 9] ?s ?t" by (rule room_run_Cons [OF run_none])
  have "joins ?t 1 \<noteq> Some (Joined 1)"
    using stopped_line_strands_buyers [OF run _ _ _ later, of 1] s by (auto simp: recv_done_def)
  with run later s(2) show ?thesis by (intro exI [of _ ?s] exI [of _ ?t]) simp
qed

text \<open>
  \<open>NewAdmitter\<close> starts a working ticker exactly for the rates from 1 to \<open>10^9\<close> per second, with a
  period that is the rate's, rounded down by less than a nanosecond; every other configured rate
  brings the service down with a panic.
\<close>

theorem NewAdmitter_period:
  "case NewAdmitter n of
     Inl panic \<Rightarrow> n < 1 \<or> Second < n
   | Inr period \<Rightarrow> 1 \<le> n \<and> n \<le> Second \<and> 0 < period \<and> period * n \<le> Second \<and> Second < (period + 1) * n"
proof (cases "1 \<le> n")
  case False
  have "0 \<le> Second div \<bar>n\<bar>" by (cases "n = 0") (simp_all add: duration_defs pos_imp_zdiv_nonneg_iff)
  with False show ?thesis by (auto simp: NewAdmitter_def Let_def sgn_if)
next
  case True
  note split = div_mult_mod_eq [of Second n] pos_mod_bound [of n Second] pos_mod_sign [of n Second]
  have div: "Second div n * n \<le> Second" "Second < (Second div n + 1) * n"
    using True split unfolding distrib_right by linarith+
  show ?thesis
  proof (cases "Second < n")
    case True
    then have "Second div n = 0" by (simp add: duration_defs div_pos_pos_trivial)
    with True \<open>1 \<le> n\<close> show ?thesis by (simp add: NewAdmitter_def)
  next
    case False
    then have "0 < Second div n" using True by (simp add: pos_imp_zdiv_pos_iff)
    with True False div show ?thesis by (simp add: NewAdmitter_def Let_def)
  qed
qed

end
