(* ===== verification/Registry.thy ===== *)
theory Registry
  imports Admission
begin

text \<open>
  \<open>internal/admission/registry.go\<close>: one admitter per item, created on first use.  The admitters are kept in
  a list of rooms, their index standing for the Go pointer, and \<open>registry_step\<close> interleaves the calls of
  \<open>For\<close> with the steps of all rooms.  The lemmas show that every item has a line of its own, which is a
  run of \<open>Admission\<close> by itself, and what \<open>Shutdown\<close> waits for.
\<close>

section \<open>State and operations\<close>

record registry =
  ctx_done :: bool
  ratePerSecond :: int
  admitters :: "(string \<times> nat) list"
  rooms :: "room list"

definition NewRegistry :: "int \<Rightarrow> registry" where
  "NewRegistry rate = \<lparr> ctx_done = False, ratePerSecond = rate, admitters = [], rooms = [] \<rparr>"

text \<open>The lock makes a call one step.  A panic leaves the registry as it was.\<close>

definition For :: "string \<Rightarrow> registry \<Rightarrow> (go_panic + nat) \<times> registry" where
  "For itemID reg =
     (case map_of (admitters reg) itemID of
        Some a \<Rightarrow> (Inr a, reg)
      | None \<Rightarrow>
          (case NewAdmitter (ratePerSecond reg) of
             Inl panic \<Rightarrow> (Inl panic, reg)
           | Inr period \<Rightarrow>
               let a = length (rooms reg)
               in (Inr a, reg\<lparr> rooms := rooms reg @ [room_start], admitters := (itemID, a) # admitters reg \<rparr>)))"

text \<open>\<open>Shutdown\<close> of an admitter returns once its loop is done; of a registry, once all are.\<close>

definition Shutdown_admitter :: "admitter \<Rightarrow> bool" where
  "Shutdown_admitter a = loop_done a"

definition Shutdown_registry :: "registry \<Rightarrow> bool" where
  "Shutdown_registry reg = list_all (\<lambda>(itemID, a). Shutdown_admitter (adm (rooms reg ! a))) (admitters reg)"

section \<open>Runs\<close>

datatype registry_event = ForCalled string | In_room nat room_event | CtxCancelled

text \<open>The loops run under the registry's context: they stop only after it is cancelled.\<close>

inductive registry_step :: "registry_event \<Rightarrow> registry \<Rightarrow> registry \<Rightarrow> bool" where
  for_called: "For itemID reg = (Inr a, reg') \<Longrightarrow> registry_step (ForCalled itemID) reg reg'"
| in_room: "a < length (rooms reg) \<Longrightarrow> room_step ev (rooms reg ! a) s \<Longrightarrow> ev = Stopped \<longrightarrow> ctx_done reg
    \<Longrightarrow> registry_step (In_room a ev) reg (reg\<lparr>rooms := (rooms reg)[a := s]\<rparr>)"
| ctx_cancelled: "registry_step CtxCancelled reg (reg\<lparr>ctx_done := True\<rparr>)"

inductive registry_run :: "registry_event list \<Rightarrow> registry \<Rightarrow> registry \<Rightarrow> bool" where
  reg_none: "registry_run [] reg reg"
| reg_more: "registry_run evs reg reg' \<Longrightarrow> registry_step ev reg' reg'' \<Longrightarrow> registry_run (evs @ [ev]) reg reg''"

inductive_cases registry_step_cases: "registry_step ev reg reg'"

lemma registry_run_one: "registry_step ev reg reg' \<Longrightarrow> registry_run [ev] reg reg'"
  using reg_more [OF reg_none, of ev reg reg'] by simp

lemma registry_run_append:
  assumes "registry_run evs2 reg' reg''" "registry_run evs1 reg reg'"
  shows "registry_run (evs1 @ evs2) reg reg''"
  using assms
proof (induction rule: registry_run.induct)
  case (reg_none r)
  then show ?case by simp
next
  case (reg_more evs r r' ev r'')
  from registry_run.reg_more [OF reg_more(3) [OF reg_more(4)] reg_more(2)] show ?case by simp
qed

text \<open>The events of one room.\<close>

definition events_of :: "nat \<Rightarrow> registry_event list \<Rightarrow> room_event list" where
  "events_of a evs = concat (map (\<lambda>e. case e of In_room b ev \<Rightarrow> if b = a then [ev] else [] | _ \<Rightarrow> []) evs)"

lemma events_of_Nil [simp]: "events_of a [] = []"
  by (simp add: events_of_def)

lemma events_of_snoc [simp]:
  "events_of a (evs @ [e]) =
     events_of a evs @ (case e of In_room b ev \<Rightarrow> if b = a then [ev] else [] | _ \<Rightarrow> [])"
  by (simp add: events_of_def)

section \<open>Every item has its own admitter\<close>

definition registry_ok :: "registry \<Rightarrow> bool" where
  "registry_ok reg \<longleftrightarrow> distinct (map fst (admitters reg)) \<and> map snd (admitters reg) = rev [0..<length (rooms reg)]"

lemma registry_ok_new [simp]: "registry_ok (NewRegistry rate)"
  by (simp add: registry_ok_def NewRegistry_def)

lemma For_cases:
  assumes "For itemID reg = (r, reg')"
  obtains (known) a where "map_of (admitters reg) itemID = Some a" "r = Inr a" "reg' = reg"
  | (panics) p where "map_of (admitters reg) itemID = None" "r = Inl p" "reg' = reg"
  | (starts) "map_of (admitters reg) itemID = None" "r = Inr (length (rooms reg))"
      "reg' = reg\<lparr> rooms := rooms reg @ [room_start], admitters := (itemID, length (rooms reg)) # admitters reg \<rparr>"
proof (cases "map_of (admitters reg) itemID")
  case (Some a)
  with assms show thesis by (intro known [of a]) (auto simp: For_def)
next
  case None
  show thesis
  proof (cases "NewAdmitter (ratePerSecond reg)")
    case (Inl p)
    with None assms show thesis by (intro panics [of p]) (auto simp: For_def)
  next
    case (Inr n)
    with None assms show thesis by (intro starts) (auto simp: For_def Let_def)
  qed
qed

lemma registry_step_ok:
  assumes "registry_step ev reg reg'" "registry_ok reg"
  shows "registry_ok reg'"
  using assms
proof (induction rule: registry_step.induct)
  case (for_called itemID reg a reg')
  then show ?case
    by (cases rule: For_cases) (auto simp: registry_ok_def map_of_eq_None_iff)
qed (auto simp: registry_ok_def)

lemma registry_run_ok: "registry_run evs reg reg' \<Longrightarrow> registry_ok reg \<Longrightarrow> registry_ok reg'"
  by (induction rule: registry_run.induct) (auto intro: registry_step_ok)

lemma pointer_range:
  assumes "registry_ok reg" "map_of (admitters reg) itemID = Some a"
  shows "a < length (rooms reg)"
proof -
  have "a \<in> set (map snd (admitters reg))" using map_of_SomeD [OF assms(2)] by force
  with assms(1) show ?thesis by (simp add: registry_ok_def)
qed

lemma pointer_inj:
  assumes "registry_ok reg" "map_of (admitters reg) i = Some a" "map_of (admitters reg) j = Some a"
  shows "i = j"
proof -
  have "distinct (map snd (admitters reg))" using assms(1) by (simp add: registry_ok_def)
  then have "inj_on snd (set (admitters reg))" by (simp add: distinct_map)
  from inj_onD [OF this, of "(i, a)" "(j, a)"] map_of_SomeD [OF assms(2)] map_of_SomeD [OF assms(3)]
  show ?thesis by simp
qed

lemma registry_step_keeps:
  assumes "registry_step ev reg reg'" "map_of (admitters reg) i = Some a"
  shows "map_of (admitters reg') i = Some a"
  using assms
proof (induction rule: registry_step.induct)
  case (for_called itemID reg b reg')
  then show ?case by (cases rule: For_cases) auto
qed simp_all

lemma registry_run_keeps:
  "registry_run evs reg reg' \<Longrightarrow> map_of (admitters reg) i = Some a \<Longrightarrow> map_of (admitters reg') i = Some a"
  by (induction rule: registry_run.induct) (auto intro: registry_step_keeps)

lemma For_known: "map_of (admitters reg) i = Some a \<Longrightarrow> For i reg = (Inr a, reg)"
  by (simp add: For_def)

lemma For_returns: "For i reg = (Inr a, reg') \<Longrightarrow> map_of (admitters reg') i = Some a"
  by (erule For_cases) auto

text \<open>A room is untouched before it exists, and then does exactly its own events.\<close>

lemma registry_run_rooms:
  assumes "registry_run evs (NewRegistry rate) reg"
  shows "(length (rooms reg) \<le> a \<longrightarrow> events_of a evs = [])
    \<and> (a < length (rooms reg) \<longrightarrow> room_run (events_of a evs) room_start (rooms reg ! a))"
  using assms
proof (induction evs "NewRegistry rate" reg rule: registry_run.induct)
  case reg_none
  show ?case by (simp add: NewRegistry_def)
next
  case (reg_more evs reg ev reg')
  from reg_more(3) show ?case
  proof (cases rule: registry_step.cases)
    case (for_called itemID b)
    from for_called(2) reg_more(2) show ?thesis
      unfolding for_called(1)
      by (cases rule: For_cases) (auto simp: nth_append intro: run_none)
  next
    case (in_room b ev' s)
    with reg_more(2) show ?thesis by (auto simp: nth_list_update intro: run_more)
  qed (use reg_more(2) in auto)
qed

section \<open>Shutdown\<close>

lemma loop_done_step: "room_step ev s s' \<Longrightarrow> loop_done (adm s) \<Longrightarrow> loop_done (adm s')"
  by (induction rule: room_step.induct) (simp_all add: recv_join_def recv_tick_def recv_done_def)

lemma loop_done_only_after_cancel:
  assumes "registry_run evs (NewRegistry rate) reg" "a < length (rooms reg)" "loop_done (adm (rooms reg ! a))"
  shows "ctx_done reg"
  using assms
proof (induction evs "NewRegistry rate" reg rule: registry_run.induct)
  case reg_none
  then show ?case by (simp add: NewRegistry_def)
next
  case (reg_more evs reg ev reg')
  from reg_more(3) show ?case
  proof (cases rule: registry_step.cases)
    case (for_called itemID b)
    from for_called(2) reg_more(2,4,5) show ?thesis
      by (cases rule: For_cases) (auto simp: nth_append room_start_def admitter_start_def split: if_splits)
  next
    case (in_room b ev' s)
    have "ctx_done reg" if "a = b" "\<not> loop_done (adm (rooms reg ! b))"
    proof -
      have "loop_done (adm s)" using reg_more(4,5) in_room that by simp
      with in_room that(2) have "ev' = Stopped"
        by (cases rule: room_step_cases) (auto simp: recv_join_def recv_tick_def split: list.splits)
      with in_room show ?thesis by simp
    qed
    with reg_more(2,4,5) in_room show ?thesis by (cases "a = b") auto
  qed simp
qed

text \<open>A registry that was shut down had its context cancelled, if it had any line at all.\<close>

lemma Shutdown_after_cancel:
  assumes "registry_run evs (NewRegistry rate) reg" "Shutdown_registry reg" "admitters reg \<noteq> []"
  shows "ctx_done reg"
proof -
  obtain i a rest where first: "admitters reg = (i, a) # rest" using assms(3) by (cases "admitters reg") auto
  have "registry_ok reg" using registry_run_ok [OF assms(1)] by simp
  then have "a < length (rooms reg)" using pointer_range [of reg i a] first by simp
  with loop_done_only_after_cancel [OF assms(1)] assms(2) first show ?thesis
    by (simp add: Shutdown_registry_def Shutdown_admitter_def)
qed

section \<open>Properties\<close>

text \<open>
  C28.  Each item has a line of its own.  Whatever requests and ticks are interleaved, the admitter \<open>For\<close>
  returns for an item is shared with no other item, has gone through exactly its own events as if it
  were alone (so fairness, rate and bounded wait hold per item), and every later call for the item
  returns it again.
\<close>

theorem registry_lines_independent:
  assumes "registry_run evs (NewRegistry rate) reg" "For item reg = (Inr a, reg')"
    and "registry_run later reg' reg''"
  shows "room_run (events_of a evs) room_start (rooms reg' ! a)
    \<and> (\<forall>j b. map_of (admitters reg') j = Some b \<longrightarrow> j \<noteq> item \<longrightarrow> b \<noteq> a)
    \<and> For item reg'' = (Inr a, reg'')"
proof (intro conjI allI impI)
  have step: "registry_run (evs @ [ForCalled item]) (NewRegistry rate) reg'"
    by (rule reg_more [OF assms(1) for_called [OF assms(2)]])
  then have ok: "registry_ok reg'" using registry_run_ok by simp
  have known: "map_of (admitters reg') item = Some a" using For_returns [OF assms(2)] .
  show "room_run (events_of a evs) room_start (rooms reg' ! a)"
    using registry_run_rooms [OF step, of a] pointer_range [OF ok known] by simp
  show "b \<noteq> a" if "map_of (admitters reg') j = Some b" "j \<noteq> item" for j b
    using pointer_inj [OF ok known] that by blast
  show "For item reg'' = (Inr a, reg'')"
    by (rule For_known [OF registry_run_keeps [OF assms(3) known]])
qed

text \<open>Two items: a buyer joins the first line, then the second line opens.\<close>

definition demo_line :: "string list \<Rightarrow> registry" where
  "demo_line is = \<lparr> ctx_done = False, ratePerSecond = 5, admitters = rev (zip is [0..<length is]),
     rooms = replicate (length is) room_start \<rparr>"

lemma demo_line_For:
  "For ''i'' (NewRegistry 5) = (Inr 0, demo_line [''i''])"
  "For ''j'' (demo_line [''i'']) = (Inr 1, demo_line [''i'', ''j''])"
  by (simp_all add: For_def NewRegistry_def NewAdmitter_def demo_line_def duration_defs Let_def)

theorem registry_lines_independent_witness:
  "registry_run [ForCalled ''i''] (NewRegistry 5) (demo_line [''i''])
    \<and> For ''j'' (demo_line [''i'']) = (Inr 1, demo_line [''i'', ''j''])
    \<and> (\<exists>s reg''. registry_run [In_room 0 (JoinCalled 7)] (demo_line [''i'', ''j'']) reg''
        \<and> joins (rooms reg'' ! 0) 7 = Some Enqueueing \<and> For ''j'' reg'' = (Inr 1, reg''))"
proof -
  have run: "registry_run [ForCalled ''i''] (NewRegistry 5) (demo_line [''i''])"
    by (rule registry_run_one [OF for_called [OF demo_line_For(1)]])
  have room: "rooms (demo_line [''i'', ''j'']) = [room_start, room_start]" by (simp add: demo_line_def)
  let ?s = "room_start\<lparr>joins := (joins room_start)(7 \<mapsto> Enqueueing)\<rparr>"
  let ?reg = "(demo_line [''i'', ''j''])\<lparr>rooms := (rooms (demo_line [''i'', ''j'']))[0 := ?s]\<rparr>"
  have "room_step (JoinCalled 7) room_start ?s" by (rule join_called) (simp add: room_start_def)
  then have "registry_step (In_room 0 (JoinCalled 7)) (demo_line [''i'', ''j'']) ?reg"
    by (intro in_room) (simp_all add: room)
  note later = registry_run_one [OF this]
  have "joins (rooms ?reg ! 0) 7 = Some Enqueueing" by (simp add: room)
  with run later demo_line_For(2) registry_lines_independent [OF run demo_line_For(2) later] show ?thesis by blast
qed

end
