(* ===== verification/WaitingRoom.thy ===== *)
theory WaitingRoom
  imports Registry CheckoutApi
begin

text \<open>
  \<open>cmd/waiting-room-api/main.go\<close>: the handlers that put HTTP in front of the admission registry.  They
  call it through \<open>Join\<close> and \<open>Depth\<close>, whose contract is the locale \<open>waiting_line\<close>; it is interpreted on
  the registry of \<open>Registry\<close>, driven beside the in-memory services.  The lemmas say what an admitted
  buyer holds, that it can check out, and what the depth endpoint answers.
\<close>

section \<open>Requests and responses\<close>

record joinRequest =
  jq_UserID :: string

record joinResponse =
  jr_ItemID :: string
  jr_UserID :: string
  jr_Position :: int
  jr_Status :: string
  jr_AdmissionTTLSeconds :: int

record queueDepthResponse =
  qd_ItemID :: string
  qd_Waiting :: int

section \<open>Handlers\<close>

text \<open>
  \<open>handleJoin\<close> gives its response, or none when it returns without writing one, and the event of the
  publishing goroutine it starts, if it does.  \<open>Join\<close> is \<open>registry.For(itemID).Join\<close>.  The configured
  time to live is a whole number of seconds, so its seconds are a truncating division.
\<close>

definition handleJoin ::
  "'w services \<Rightarrow> (string \<Rightarrow> ('w, goerr + int) io) \<Rightarrow> int \<Rightarrow> string \<Rightarrow> string \<Rightarrow> joinRequest option
     \<Rightarrow> ('w, joinResponse response option \<times> buyer_joined option) io" where
  "handleJoin V Join admissionTTL itemID remoteAddr body =
     (if itemID = [] then ret (Some (WriteError StatusBadRequest ''item id is required''), None)
      else case body of
        None \<Rightarrow> ret (Some (WriteError StatusBadRequest ''invalid JSON body''), None)
      | Some req \<Rightarrow>
        if jq_UserID req = [] then ret (Some (WriteError StatusBadRequest ''user_id is required''), None)
        else do {
          joined \<leftarrow> Join itemID;
          (case joined of
             Inl err \<Rightarrow> ret (None, None)
           | Inr position \<Rightarrow> do {
               granted \<leftarrow> GrantAdmission V itemID (jq_UserID req) admissionTTL;
               (case granted of
                  Inl err \<Rightarrow>
                    ret (Some (WriteError StatusInternalServerError
                      ''admitted, but failed to issue a checkout token -- try again''), None)
                | Inr u \<Rightarrow> do {
                    t \<leftarrow> now V;
                    ret (Some (WriteJSON StatusOK (Payload
                           \<lparr> jr_ItemID = itemID, jr_UserID = jq_UserID req, jr_Position = position,
                             jr_Status = ''admitted'', jr_AdmissionTTLSeconds = admissionTTL div Second \<rparr>)),
                         Some \<lparr> bj_ItemID = itemID, bj_UserID = jq_UserID req, bj_RemoteAddr = remoteAddr,
                                bj_JoinedAt = t \<rparr>)
                  })
             })
        })"

text \<open>The goroutine: publish, and log a failure.\<close>

definition publish_joined :: "codec \<Rightarrow> 'w services \<Rightarrow> writer \<Rightarrow> buyer_joined \<Rightarrow> ('w, unit) io" where
  "publish_joined C V wr event = do {
     r \<leftarrow> PublishBuyerJoined C V wr event;
     ret ()
   }"

definition handleQueueDepth ::
  "'w services \<Rightarrow> (string \<Rightarrow> ('w, goerr + int) io) \<Rightarrow> string \<Rightarrow> ('w, queueDepthResponse response) io" where
  "handleQueueDepth V Depth itemID =
     (if itemID = [] then ret (WriteError StatusBadRequest ''item id is required'')
      else do {
        r \<leftarrow> Depth itemID;
        (case r of
           Inl err \<Rightarrow> ret (WriteError StatusInternalServerError ''failed to read queue depth'')
         | Inr depth \<Rightarrow> do {
             s \<leftarrow> SetQueueDepth V itemID depth;
             ret (WriteJSON StatusOK (Payload \<lparr> qd_ItemID = itemID, qd_Waiting = depth \<rparr>))
           })
      })"

section \<open>Routes\<close>

datatype waitingroom_route = WaitingRoomHealth | JoinItem string | QueueDepth string

definition waitingroom_newServer :: "string \<Rightarrow> string list \<Rightarrow> int + waitingroom_route" where
  "waitingroom_newServer meth path =
     (let get = (meth = ''GET'' \<or> meth = ''HEAD''); post = (meth = ''POST'')
      in case path of
           [p] \<Rightarrow> if p = ''healthz'' then (if get then Inr WaitingRoomHealth else Inl StatusMethodNotAllowed)
                  else Inl StatusNotFound
         | [p, itemID, q] \<Rightarrow>
             if p \<noteq> ''items'' then Inl StatusNotFound
             else if q = ''join'' then (if post then Inr (JoinItem itemID) else Inl StatusMethodNotAllowed)
             else if q = ''queue'' then (if get then Inr (QueueDepth itemID) else Inl StatusMethodNotAllowed)
             else Inl StatusNotFound
         | _ \<Rightarrow> Inl StatusNotFound)"

section \<open>The paths of a join\<close>

lemma handleJoin_cases:
  assumes "run_state (handleJoin V Join ttl i ra body) w = ((out, job), w')"
  obtains
    (bad) resp where "out = Some resp" "resp_status resp = 400" "job = None" "w' = w"
  | (gone) req e where "body = Some req" "run_state (Join i) w = (Inl e, w')" "out = None" "job = None"
  | (ungranted) req p w1 e resp where "body = Some req" "run_state (Join i) w = (Inr p, w1)"
      "run_state (GrantAdmission V i (jq_UserID req) ttl) w1 = (Inl e, w')"
      "out = Some resp" "resp_status resp = 500" "job = None"
  | (admitted) req p w1 w2 t resp where "body = Some req" "run_state (Join i) w = (Inr p, w1)"
      "run_state (GrantAdmission V i (jq_UserID req) ttl) w1 = (Inr (), w2)" "time_now V w2 = (t, w')"
      "out = Some resp" "resp_status resp = 200"
      "resp_body resp = Payload \<lparr> jr_ItemID = i, jr_UserID = jq_UserID req, jr_Position = p,
         jr_Status = ''admitted'', jr_AdmissionTTLSeconds = ttl div Second \<rparr>"
      "job = Some \<lparr> bj_ItemID = i, bj_UserID = jq_UserID req, bj_RemoteAddr = ra, bj_JoinedAt = t \<rparr>"
proof -
  note run = assms [unfolded handleJoin_def]
  show thesis
  proof (cases "i = [] \<or> body = None \<or> (\<exists>req. body = Some req \<and> jq_UserID req = [])")
    case True
    with run obtain resp where "out = Some resp" "resp_status resp = 400" "job = None" "w' = w"
      by (auto simp: status_defs split: if_splits)
    then show thesis by (rule bad)
  next
    case False
    then obtain req where req: "i \<noteq> []" "body = Some req" "jq_UserID req \<noteq> []" by auto
    obtain jr w1 where j: "run_state (Join i) w = (jr, w1)" by (cases "run_state (Join i) w")
    note run1 = run [unfolded req(2)]
    show thesis
    proof (cases jr)
      case (Inl e)
      with run1 req j show thesis by (intro gone [of req e]) auto
    next
      case (Inr p)
      obtain g w2 where g: "run_state (GrantAdmission V i (jq_UserID req) ttl) w1 = (g, w2)"
        by (cases "run_state (GrantAdmission V i (jq_UserID req) ttl) w1")
      show thesis
      proof (cases g)
        case (Inl e)
        with run1 req j Inr g show thesis by (intro ungranted [of req p w1 e]) (auto simp: status_defs)
      next
        case granted: (Inr u)
        obtain t w3 where t: "time_now V w2 = (t, w3)" by (cases "time_now V w2")
        from run1 req j Inr g granted t show thesis
          by (intro admitted [of req p w1 w2 t]) (auto simp: status_defs)
      qed
    qed
  qed
qed

section \<open>The contract of the line\<close>

text \<open>
  What the handlers rely on: calls of \<open>Join\<close> and \<open>Depth\<close> are steps of the registry and of nothing else, a
  successful \<open>Join\<close> is that of a buyer let in at the returned position, and a successful \<open>Depth\<close> read the
  queue of the item at some moment of the call.
\<close>

locale waiting_line = platform L V keys clock topic tables
  for L :: "'n lua" and V :: "'w services" and keys :: "'w \<Rightarrow> store" and clock :: "'w \<Rightarrow> int"
    and topic :: "string \<Rightarrow> 'w \<Rightarrow> kmsg list" and tables :: "'w \<Rightarrow> db" +
  fixes Join Depth :: "string \<Rightarrow> ('w, goerr + int) io"
    and line :: "'w \<Rightarrow> registry"
  assumes join_frame: "run_state (Join i) w = (jr, w')
      \<Longrightarrow> keys w' = keys w \<and> clock w \<le> clock w' \<and> topic t w' = topic t w \<and> tables w' = tables w"
    and join_run: "run_state (Join i) w = (jr, w') \<Longrightarrow> \<exists>evs. registry_run evs (line w) (line w')"
    and join_admits: "run_state (Join i) w = (Inr p, w')
      \<Longrightarrow> \<exists>a r. map_of (admitters (line w')) i = Some a \<and> joins (rooms (line w') ! a) r = Some (Joined p)"
    and depth_frame: "run_state (Depth i) w = (dr, w')
      \<Longrightarrow> keys w' = keys w \<and> clock w \<le> clock w' \<and> topic t w' = topic t w \<and> tables w' = tables w"
    and depth_reads: "run_state (Depth i) w = (Inr n, w')
      \<Longrightarrow> \<exists>evs1 reg evs2 a. registry_run evs1 (line w) reg \<and> registry_run evs2 reg (line w')
        \<and> map_of (admitters reg) i = Some a \<and> n = recv_depth (adm (rooms reg ! a))"
    and line_redis: "redis_cmd V c w = (rr, w') \<Longrightarrow> line w' = line w"
    and line_time: "time_now V w = (tn, w') \<Longrightarrow> line w' = line w"
begin

lemma Grant_line: "run_state (GrantAdmission V i u ttl) w = (g, w') \<Longrightarrow> line w' = line w"
  using line_redis line_time by (auto simp: GrantAdmission_def split: prod.splits if_splits)

lemma handleJoin_admits:
  assumes "run_state (handleJoin V Join ttl i ra body) w = ((Some resp, job), w')" "resp_status resp = 200"
  shows "\<exists>req p t g v. body = Some req
    \<and> job = Some \<lparr> bj_ItemID = i, bj_UserID = jq_UserID req, bj_RemoteAddr = ra, bj_JoinedAt = t \<rparr>
    \<and> resp_body resp = Payload \<lparr> jr_ItemID = i, jr_UserID = jq_UserID req, jr_Position = p,
        jr_Status = ''admitted'', jr_AdmissionTTLSeconds = ttl div Second \<rparr>
    \<and> keys w' (AdmissionKey i (jq_UserID req)) = Some (v, Some (g + max Millisecond ttl))
    \<and> clock w \<le> g \<and> g \<le> clock w' \<and> 0 < ttl
    \<and> (\<exists>a r. map_of (admitters (line w')) i = Some a \<and> joins (rooms (line w') ! a) r = Some (Joined p))
    \<and> (\<exists>evs. registry_run evs (line w) (line w'))"
  using assms(1)
proof (cases rule: handleJoin_cases)
  case (admitted req p w1 w2 t resp')
  obtain v where tok: "0 < ttl" "keys w2 (AdmissionKey i (jq_UserID req)) = Some (v, Some (clock w2 + max Millisecond ttl))"
    using Grant_token [OF admitted(3)] by blast
  have w': "keys w' = keys w2" "clock w2 \<le> clock w'" "line w' = line w1"
    using time_local [of w2] admitted(4) line_time [OF admitted(4)] Grant_line [OF admitted(3)] by auto
  have "clock w1 \<le> clock w2" by (rule Grant_clock [OF admitted(3)])
  then have "clock w \<le> clock w2" using join_frame [OF admitted(2)] by (meson order_trans)
  with tok w' admitted join_run [OF admitted(2)] join_admits [OF admitted(2)] show ?thesis
    by (intro exI [of _ req] exI [of _ p] exI [of _ t] exI [of _ "clock w2"] exI [of _ v]) simp
qed (use assms(2) in auto)

text \<open>After any other outcome no event is published, and the token is what it was unless Redis stored one.\<close>

lemma handleJoin_refused:
  assumes "run_state (handleJoin V Join ttl i ra body) w = ((out, job), w')"
    and "\<And>resp. out = Some resp \<Longrightarrow> resp_status resp \<noteq> 200"
  shows "job = None \<and> (out = None \<or> (\<exists>resp. out = Some resp \<and> (resp_status resp = 400 \<or> resp_status resp = 500)))"
  using assms(1) by (cases rule: handleJoin_cases) (use assms(2) in auto)

lemma publish_joined_frame:
  assumes "run_state (publish_joined C V wr e) w = (u, w')"
  shows "keys w' = keys w \<and> clock w \<le> clock w'"
  using assms kafka_frame
  by (auto simp: publish_joined_def PublishBuyerJoined_def split: sum.splits prod.splits)

lemma checkout_not_forbidden:
  assumes "run_state (handleCheckout C V wr ttl i (Some req)) w = (resp, w')" "resp_status resp = 403"
    and "keys w (AdmissionKey i (req_UserID req)) = Some (v, Some dl)"
  shows "dl \<le> clock w'"
  using assms(1)
proof (cases rule: handleCheckout_cases)
  case (forbidden r)
  with Consume_token [OF forbidden(3)] assms(3) show ?thesis by (auto split: if_splits)
qed (use assms(2) in \<open>auto split: if_splits\<close>)

lemma handleQueueDepth_answers:
  assumes "run_state (handleQueueDepth V Depth i) w = (resp, w')" "i \<noteq> []"
  shows "resp_status resp = 500 \<and> (\<exists>e w1. run_state (Depth i) w = (Inl e, w1)) \<and> keys w' = keys w
    \<or> (\<exists>n evs reg a. resp = WriteJSON StatusOK (Payload \<lparr> qd_ItemID = i, qd_Waiting = n \<rparr>)
        \<and> registry_run evs (line w) reg \<and> map_of (admitters reg) i = Some a \<and> n = recv_depth (adm (rooms reg ! a))
        \<and> (keys w' (QueueDepthKey i) = Some (int_text n, None)
           \<or> keys w' = live (clock w') (keys w)))"
proof (cases "run_state (Depth i) w")
  case (Pair d w1)
  show ?thesis
  proof (cases d)
    case (Inl e)
    with assms Pair depth_frame [OF Pair] show ?thesis
      by (auto simp: handleQueueDepth_def status_defs)
  next
    case (Inr n)
    obtain evs reg a where reg: "registry_run evs (line w) reg" "map_of (admitters reg) i = Some a"
      "n = recv_depth (adm (rooms reg ! a))" using depth_reads Pair Inr by blast
    then have "\<not> n < 0" by (simp add: recv_depth_def)
    then obtain r where cmd: "redis_cmd V (SET (QueueDepthKey i) (int_text n) 0) w1 = (r, w')"
      using assms Pair Inr by (auto simp: handleQueueDepth_def SetQueueDepth_def split: prod.splits)
    have resp: "resp = WriteJSON StatusOK (Payload \<lparr> qd_ItemID = i, qd_Waiting = n \<rparr>)"
      using assms Pair Inr by (auto simp: handleQueueDepth_def split: prod.splits)
    have "keys w1 = keys w" using depth_frame [OF Pair] by blast
    with cmd have "keys w' (QueueDepthKey i) = Some (int_text n, None) \<or> keys w' = live (clock w') (keys w)"
      by (cases rule: cmd_cases [OF cmd]) (auto, metis fun_upd_same)
    with reg resp show ?thesis by blast
  qed
qed

end

section \<open>The registry behind the contract\<close>

text \<open>Services beside a state of one's own.\<close>

definition beside :: "'w services \<Rightarrow> ('w \<times> 'l) services" where
  "beside V =
     \<lparr> redis_cmd = (\<lambda>c (w, l). let (r, w') = redis_cmd V c w in (r, w', l)),
       kafka_write = (\<lambda>t m (w, l). let (r, w') = kafka_write V t m w in (r, w', l)),
       rand_read = (\<lambda>n (w, l). let (r, w') = rand_read V n w in (r, w', l)),
       time_now = (\<lambda>(w, l). let (r, w') = time_now V w in (r, w', l)),
       pg_begin = (\<lambda>(w, l). let (r, w') = pg_begin V w in (r, w', l)),
       pg_store = (\<lambda>d (w, l). (pg_store V d w, l)) \<rparr>"

lemma beside_sel [simp]:
  "redis_cmd (beside V) c (w, l) = (let (r, w') = redis_cmd V c w in (r, w', l))"
  "kafka_write (beside V) t m (w, l) = (let (r, w') = kafka_write V t m w in (r, w', l))"
  "rand_read (beside V) n (w, l) = (let (r, w') = rand_read V n w in (r, w', l))"
  "time_now (beside V) (w, l) = (let (r, w') = time_now V w in (r, w', l))"
  "pg_begin (beside V) (w, l) = (let (r, w') = pg_begin V w in (r, w', l))"
  "pg_store (beside V) d (w, l) = (pg_store V d w, l)"
  by (simp_all add: beside_def)

lemma beside_runs:
  "redis_cmd (beside V) c x = (r, y) \<longleftrightarrow> redis_cmd V c (fst x) = (r, fst y) \<and> snd y = snd x"
  "kafka_write (beside V) t m x = (ke, y) \<longleftrightarrow> kafka_write V t m (fst x) = (ke, fst y) \<and> snd y = snd x"
  "rand_read (beside V) n x = (rr, y) \<longleftrightarrow> rand_read V n (fst x) = (rr, fst y) \<and> snd y = snd x"
  "time_now (beside V) x = (tn, y) \<longleftrightarrow> time_now V (fst x) = (tn, fst y) \<and> snd y = snd x"
  "pg_begin (beside V) x = (ed, y) \<longleftrightarrow> pg_begin V (fst x) = (ed, fst y) \<and> snd y = snd x"
  "pg_store (beside V) d x = (pg_store V d (fst x), snd x)"
  by (cases x; cases y; auto split: prod.splits)+

lemma beside_snd:
  "snd (snd (redis_cmd (beside V) c x)) = snd x" "fst (snd (redis_cmd (beside V) c x)) = snd (redis_cmd V c (fst x))"
  "fst (snd (kafka_write (beside V) t m x)) = snd (kafka_write V t m (fst x))"
  "fst (snd (time_now (beside V) x)) = snd (time_now V (fst x))"
  by (cases x; simp split: prod.splits)+

context platform
begin

lemma beside_platform:
  "platform L (beside V :: ('w \<times> 'l) services) (\<lambda>w. keys (fst w)) (\<lambda>w. clock (fst w)) (\<lambda>t w. topic t (fst w)) (\<lambda>w. tables (fst w))"
proof
  fix c t t' m n d e r ke rr er now' ed and x y :: "'w \<times> 'l"
  show "clock (fst x) \<le> clock (fst (snd (redis_cmd (beside V) c x)))"
    by (simp add: beside_snd clock_mono)
  show "redis_effect L (clock (fst y)) c (live (clock (fst y)) (keys (fst x))) = (r, keys (fst y))"
    if "redis_cmd (beside V) c x = (r, y)" "\<not> failed_reply r"
    using answered that by (simp add: beside_runs)
  show "keys (fst y) = live (clock (fst y)) (keys (fst x))
      \<or> keys (fst y) = snd (redis_effect L (clock (fst y)) c (live (clock (fst y)) (keys (fst x))))"
    if "redis_cmd (beside V) c x = (r, y)" "failed_reply r"
    using unanswered that by (simp add: beside_runs)
  show "driver_err e" if "redis_cmd (beside V) c x = (RErr e, y)"
    using that by (auto simp: beside_runs intro: driver_errors)
  show "keys (fst (snd (time_now (beside V) x))) = keys (fst x)
      \<and> clock (fst x) \<le> clock (fst (snd (time_now (beside V) x)))"
    using time_local by (simp add: beside_snd)
  show "\<exists>n. topic t (fst y) = topic t (fst x) @ replicate (Suc n) m" if "kafka_write (beside V) t m x = (None, y)"
    using acknowledged that unfolding beside_runs by blast
  show "\<exists>n. topic t (fst y) = topic t (fst x) @ replicate n m" if "kafka_write (beside V) t m x = (Some er, y)"
    using unacknowledged that unfolding beside_runs by blast
  show "topic t' (fst (snd (kafka_write (beside V) t m x))) = topic t' (fst x)" if "t' \<noteq> t"
    using other_topics that by (simp add: beside_snd)
  show "d = tables (fst x) \<and> tables (fst y) = tables (fst x)" if "pg_begin (beside V) x = ((e', d), y)" for e'
    using that unfolding beside_runs by (blast dest: begin_tables)
  show "tables (fst (pg_store (beside V) d x)) = d" by (simp add: beside_runs store_tables)
  show "topic t (fst y) = topic t (fst x) \<and> tables (fst y) = tables (fst x)" if "redis_cmd (beside V) c x = (r, y)"
    using that unfolding beside_runs by (blast dest: redis_frame)
  show "keys (fst y) = keys (fst x) \<and> clock (fst x) \<le> clock (fst y) \<and> tables (fst y) = tables (fst x)"
    if "kafka_write (beside V) t m x = (ke, y)"
    using that unfolding beside_runs by (blast dest: kafka_frame)
  show "keys (fst y) = keys (fst x) \<and> clock (fst x) \<le> clock (fst y) \<and> topic t (fst y) = topic t (fst x)
      \<and> tables (fst y) = tables (fst x)" if "rand_read (beside V) n x = (rr, y)"
    using that unfolding beside_runs by (blast dest: rand_frame)
  show "topic t (fst y) = topic t (fst x) \<and> tables (fst y) = tables (fst x)" if "time_now (beside V) x = (now', y)"
    using that unfolding beside_runs by (blast dest: time_frame)
  show "keys (fst y) = keys (fst x) \<and> clock (fst x) \<le> clock (fst y) \<and> topic t (fst y) = topic t (fst x)"
    if "pg_begin (beside V) x = (ed, y)"
    using that unfolding beside_runs by (blast dest: begin_frame)
  show "keys (fst (pg_store (beside V) d x)) = keys (fst x) \<and> clock (fst x) \<le> clock (fst (pg_store (beside V) d x))
      \<and> topic t (fst (pg_store (beside V) d x)) = topic t (fst x)"
    using store_frame by (simp add: beside_runs)
qed

end

text \<open>
  One call of \<open>Join\<close> while nobody else is in the room: request \<open>r\<close> is received, reads its position, and its
  client stays for \<open>n\<close> ticks.
\<close>

definition tick_room :: "room \<Rightarrow> room" where
  "tick_room s = s\<lparr>adm := recv_tick (adm s)\<rparr>"

definition join_room :: "nat \<Rightarrow> nat \<Rightarrow> room \<Rightarrow> room" where
  "join_room r n s =
     (let p = nextPosition (adm s);
          s1 = (tick_room ^^ n) (s\<lparr>adm := recv_join r (adm s), joins := (joins s)(r \<mapsto> AwaitingAdmission p)\<rparr>)
      in s1\<lparr>joins := (joins s1)(r \<mapsto> if r \<in> admitted_ch (adm s1) then Joined p else JoinCancelled)\<rparr>)"

lemma ticks_run: "\<not> loop_done (adm s) \<Longrightarrow> room_run (replicate n Ticked) s ((tick_room ^^ n) s) \<and> \<not> loop_done (adm ((tick_room ^^ n) s))
    \<and> joins ((tick_room ^^ n) s) = joins s"
proof (induction n)
  case 0
  show ?case by (simp add: run_none 0)
next
  case (Suc n)
  then have "room_step Ticked ((tick_room ^^ n) s) (tick_room ((tick_room ^^ n) s))"
    unfolding tick_room_def [of "(tick_room ^^ n) s"] by (intro ticked) simp
  with Suc have "room_run (replicate n Ticked @ [Ticked]) s (tick_room ((tick_room ^^ n) s))"
    by (intro run_more [of _ _ "(tick_room ^^ n) s"]) simp_all
  moreover have "joins (tick_room q) = joins q \<and> loop_done (adm (tick_room q)) = loop_done (adm q)" for q
    by (auto simp: tick_room_def recv_tick_def split: list.split)
  ultimately show ?case
    using Suc by (simp add: replicate_append_same)
qed

lemma room_run_append:
  assumes "room_run evs2 s' s''" "room_run evs1 s s'"
  shows "room_run (evs1 @ evs2) s s''"
  using assms
proof (induction rule: room_run.induct)
  case (run_none s)
  then show ?case by simp
next
  case (run_more evs s s' ev s'')
  from room_run.run_more [OF run_more(3) [OF run_more(4)] run_more(2)] show ?case by simp
qed

lemma join_room_run:
  assumes "joins s r = None" "\<not> loop_done (adm s)"
  shows "\<exists>evs. room_run evs s (join_room r n s) \<and> Stopped \<notin> set evs"
proof -
  let ?p = "nextPosition (adm s)"
  let ?s1 = "s\<lparr>joins := (joins s)(r \<mapsto> Enqueueing)\<rparr>"
  let ?s2 = "s\<lparr>adm := recv_join r (adm s), joins := (joins s)(r \<mapsto> AwaitingPosition)\<rparr>"
  let ?s3 = "s\<lparr>adm := recv_join r (adm s), joins := (joins s)(r \<mapsto> AwaitingAdmission ?p)\<rparr>"
  let ?s4 = "(tick_room ^^ n) ?s3"
  have live: "\<not> loop_done (adm ?s3)" using assms(2) by (simp add: recv_join_def)
  have 1: "room_step (JoinCalled r) s ?s1" using assms(1) by (rule join_called)
  have 2: "room_step (JoinReceived r) ?s1 ?s2" using join_received [of ?s1 r] assms(2) by simp
  have 3: "room_step (PositionRead r) ?s2 ?s3" using position_read [of ?s2 r ?p] by (simp add: recv_join_def)
  have 4: "room_run (replicate n Ticked) ?s3 ?s4" "joins ?s4 r = Some (AwaitingAdmission ?p)"
    using ticks_run [OF live, of n] by simp_all
  have 5: "\<exists>ev. ev \<noteq> Stopped \<and> room_step ev ?s4 (join_room r n s)"
  proof (cases "r \<in> admitted_ch (adm ?s4)")
    case True
    with admission_read [OF 4(2)] show ?thesis by (intro exI [of _ "AdmissionRead r"]) (simp add: join_room_def Let_def)
  next
    case False
    with caller_gone [OF 4(2), of ?p] show ?thesis by (intro exI [of _ "CallerGone r"]) (simp add: join_room_def Let_def)
  qed
  then obtain ev where ev: "ev \<noteq> Stopped" "room_step ev ?s4 (join_room r n s)" by blast
  have "room_run [JoinCalled r, JoinReceived r, PositionRead r] s ?s3"
    by (rule room_run_Cons [OF room_run_Cons [OF room_run_Cons [OF run_none 3] 2] 1])
  from room_run_append [OF run_more [OF 4(1) ev(2)] this] ev(1) show ?thesis
    by (intro exI [of _ "[JoinCalled r, JoinReceived r, PositionRead r] @ replicate n Ticked @ [ev]"]) simp
qed

lemma room_in_registry:
  assumes "room_run evs s s'" "a < length (rooms reg)" "rooms reg ! a = s" "Stopped \<notin> set evs"
  shows "registry_run (map (In_room a) evs) reg (reg\<lparr>rooms := (rooms reg)[a := s']\<rparr>)"
  using assms
proof (induction rule: room_run.induct)
  case (run_none s)
  then have "reg\<lparr>rooms := (rooms reg)[a := s]\<rparr> = reg" by (simp add: list_update_same_conv [THEN iffD2])
  then show ?case by (simp add: reg_none)
next
  case (run_more evs s s' ev s'')
  have "registry_step (In_room a ev) (reg\<lparr>rooms := (rooms reg)[a := s']\<rparr>)
      ((reg\<lparr>rooms := (rooms reg)[a := s']\<rparr>)\<lparr>rooms := (rooms (reg\<lparr>rooms := (rooms reg)[a := s']\<rparr>))[a := s'']\<rparr>)"
    by (rule in_room) (use run_more in auto)
  with reg_more [of "map (In_room a) evs" reg "reg\<lparr>rooms := (rooms reg)[a := s']\<rparr>"] run_more show ?case by simp
qed

text \<open>The calls of the handlers, in a world with the registry as its second component.\<close>

definition set_room :: "nat \<Rightarrow> room \<Rightarrow> registry \<Rightarrow> registry" where
  "set_room a s reg = reg\<lparr>rooms := (rooms reg)[a := s]\<rparr>"

definition registry_Join :: "nat \<Rightarrow> nat \<Rightarrow> string \<Rightarrow> ('w \<times> registry, goerr + int) io" where
  "registry_Join r n i = State (\<lambda>(w, reg).
     case For i reg of
       (Inl panic, reg') \<Rightarrow> (Inl (PlainErr ''panic''), w, reg')
     | (Inr a, reg') \<Rightarrow>
         let s = rooms reg' ! a
         in if length (rooms reg') \<le> a \<or> joins s r \<noteq> None \<or> loop_done (adm s) then (Inl ErrCanceled, w, reg')
            else let s' = join_room r n s
                 in (case joins s' r of Some (Joined p) \<Rightarrow> Inr p | _ \<Rightarrow> Inl ErrCanceled, w, set_room a s' reg'))"

definition registry_Depth :: "nat \<Rightarrow> string \<Rightarrow> ('w \<times> registry, goerr + int) io" where
  "registry_Depth k i = State (\<lambda>(w, reg).
     case For i reg of
       (Inl panic, reg') \<Rightarrow> (Inl (PlainErr ''panic''), w, reg')
     | (Inr a, reg') \<Rightarrow>
         let s = rooms reg' ! a; n = recv_depth (adm s)
         in if length (rooms reg') \<le> a \<or> asks s k \<noteq> None \<or> loop_done (adm s) then (Inl ErrCanceled, w, reg')
            else (Inr n, w, set_room a (s\<lparr>asks := (asks s)(k \<mapsto> DepthIs n)\<rparr>) reg'))"

lemma depth_room_run:
  assumes "asks s k = None" "\<not> loop_done (adm s)"
  shows "room_run [DepthCalled k, DepthReceived k, DepthRead k] s (s\<lparr>asks := (asks s)(k \<mapsto> DepthIs (recv_depth (adm s)))\<rparr>)"
proof -
  let ?n = "recv_depth (adm s)"
  let ?s1 = "s\<lparr>asks := (asks s)(k \<mapsto> Asking)\<rparr>" and ?s2 = "s\<lparr>asks := (asks s)(k \<mapsto> AwaitingDepth ?n)\<rparr>"
  have "room_step (DepthCalled k) s ?s1" using assms(1) by (rule depth_called)
  moreover have "room_step (DepthReceived k) ?s1 ?s2" using depth_received [of ?s1 k] assms(2) by simp
  moreover have "room_step (DepthRead k) ?s2 (s\<lparr>asks := (asks s)(k \<mapsto> DepthIs ?n)\<rparr>)"
    using depth_read [of ?s2 k ?n] by simp
  ultimately show ?thesis by (intro room_run_Cons [OF room_run_Cons [OF room_run_Cons [OF run_none]]])
qed

lemma registry_Join_cases:
  assumes "run_state (registry_Join r n i) (w, reg) = (jr, w', reg'')"
  obtains (fails) e reg' where "jr = Inl e" "w' = w" "reg'' = reg'" "\<exists>evs. registry_run evs reg reg'"
  | (comes) a reg' s where "For i reg = (Inr a, reg')" "a < length (rooms reg')" "s = rooms reg' ! a"
      "joins s r = None" "\<not> loop_done (adm s)" "w' = w" "reg'' = set_room a (join_room r n s) reg'"
      "jr = (case joins (join_room r n s) r of Some (Joined p) \<Rightarrow> Inr p | _ \<Rightarrow> Inl ErrCanceled)"
proof (cases "For i reg")
  case (Pair f reg')
  show thesis
  proof (cases f)
    case (Inl panic)
    with Pair have "reg' = reg" by (auto elim: For_cases)
    with Pair Inl assms show thesis
      by (intro fails [of _ reg']) (auto simp: registry_Join_def intro: reg_none exI [of _ "[]"])
  next
    case (Inr a)
    have run: "registry_run [ForCalled i] reg reg'"
      by (rule registry_run_one [OF for_called]) (use Pair Inr in simp)
    show thesis
    proof (cases "length (rooms reg') \<le> a \<or> joins (rooms reg' ! a) r \<noteq> None \<or> loop_done (adm (rooms reg' ! a))")
      case True
      with Pair Inr assms show thesis
        by (intro fails [of ErrCanceled reg']) (use run in \<open>auto simp: registry_Join_def Let_def\<close>)
    next
      case False
      with Pair Inr assms show thesis
        by (intro comes [of a reg' "rooms reg' ! a"]) (auto simp: registry_Join_def Let_def)
    qed
  qed
qed

lemma registry_Depth_cases:
  assumes "run_state (registry_Depth k i) (w, reg) = (Inr n, w', reg'')"
  obtains a reg' s where "For i reg = (Inr a, reg')" "a < length (rooms reg')" "s = rooms reg' ! a"
      "asks s k = None" "\<not> loop_done (adm s)" "w' = w" "n = recv_depth (adm s)"
      "reg'' = set_room a (s\<lparr>asks := (asks s)(k \<mapsto> DepthIs n)\<rparr>) reg'"
  using assms that by (auto simp: registry_Depth_def Let_def split: prod.splits sum.splits if_splits)

lemma registry_ops_frame:
  "run_state (registry_Join r n i) x = (jr, y) \<Longrightarrow> fst y = fst x"
  "run_state (registry_Depth k i) x = (dr, y) \<Longrightarrow> fst y = fst x"
  by (cases x, auto simp: registry_Join_def registry_Depth_def Let_def split: prod.splits sum.splits if_splits)+

lemma room_move:
  assumes "For i reg = (Inr a, reg')" "a < length (rooms reg')" "room_run evs (rooms reg' ! a) s'" "Stopped \<notin> set evs"
  shows "registry_run [ForCalled i] reg reg' \<and> registry_run (map (In_room a) evs) reg' (set_room a s' reg')"
  using registry_run_one [OF for_called [OF assms(1)]] room_in_registry [OF assms(3,2) refl assms(4)]
  by (simp add: set_room_def)

interpretation line: waiting_line double_lua "beside mem_services" "\<lambda>w. m_store (fst w)" "\<lambda>w. m_clock (fst w)"
    "\<lambda>t w. m_topics (fst w) t" "\<lambda>w. m_db (fst w)" "registry_Join r n" "registry_Depth k" snd
  for r n k
proof (rule waiting_line.intro [OF mem.beside_platform], unfold_locales)
  fix i jr dr rr tn c and x y :: "mem \<times> registry" and t
  show "m_store (fst y) = m_store (fst x) \<and> m_clock (fst x) \<le> m_clock (fst y) \<and> m_topics (fst y) t = m_topics (fst x) t
      \<and> m_db (fst y) = m_db (fst x)" if "run_state (registry_Join r n i) x = (jr, y)"
    using registry_ops_frame(1) [OF that] by simp
  show "m_store (fst y) = m_store (fst x) \<and> m_clock (fst x) \<le> m_clock (fst y) \<and> m_topics (fst y) t = m_topics (fst x) t
      \<and> m_db (fst y) = m_db (fst x)" if "run_state (registry_Depth k i) x = (dr, y)"
    using registry_ops_frame(2) [OF that] by simp
  show "snd y = snd x" if "redis_cmd (beside mem_services) c x = (rr, y)" using that by (simp only: beside_runs)
  show "snd y = snd x" if "time_now (beside mem_services) x = (tn, y)" using that by (simp only: beside_runs)
  show "\<exists>evs. registry_run evs (snd x) (snd y)" if "run_state (registry_Join r n i) x = (jr, y)"
  proof -
    obtain w reg w' reg'' where xy: "x = (w, reg)" "y = (w', reg'')" by (cases x; cases y)
    from that [unfolded xy] show ?thesis
    proof (cases rule: registry_Join_cases)
      case (comes a reg' s)
      obtain evs where "room_run evs s (join_room r n s)" "Stopped \<notin> set evs"
        using join_room_run [OF comes(4,5)] by blast
      with room_move [OF comes(1,2), of evs] comes(3) have "registry_run [ForCalled i] reg reg'"
        "registry_run (map (In_room a) evs) reg' (set_room a (join_room r n s) reg')" by simp_all
      from registry_run_append [OF this(2,1)] comes(7) show ?thesis by (auto simp: xy)
    qed (simp add: xy)
  qed
  show "\<exists>a q. map_of (admitters (snd y)) i = Some a \<and> joins (rooms (snd y) ! a) q = Some (Joined p)"
    if "run_state (registry_Join r n i) x = (Inr p, y)" for p
  proof -
    obtain w reg w' reg'' where xy: "x = (w, reg)" "y = (w', reg'')" by (cases x; cases y)
    from that [unfolded xy] show ?thesis
    proof (cases rule: registry_Join_cases)
      case (comes a reg' s)
      have "joins (join_room r n s) r = Some (Joined p)"
        using comes(8) by (auto split: option.splits join_phase.splits)
      with For_returns [OF comes(1)] comes(2,7) show ?thesis
        by (intro exI [of _ a] exI [of _ r]) (simp add: xy set_room_def)
    qed simp
  qed
  show "\<exists>evs1 reg evs2 a. registry_run evs1 (snd x) reg \<and> registry_run evs2 reg (snd y)
      \<and> map_of (admitters reg) i = Some a \<and> m = recv_depth (adm (rooms reg ! a))"
    if "run_state (registry_Depth k i) x = (Inr m, y)" for m
  proof -
    obtain w reg w' reg'' where xy: "x = (w, reg)" "y = (w', reg'')" by (cases x; cases y)
    from that [unfolded xy] show ?thesis
    proof (cases rule: registry_Depth_cases)
      case (1 a reg' s)
      have "room_run [DepthCalled k, DepthReceived k, DepthRead k] (rooms reg' ! a)
          (s\<lparr>asks := (asks s)(k \<mapsto> DepthIs m)\<rparr>)"
        using depth_room_run [OF 1(4,5)] 1(3,7) by simp
      from room_move [OF 1(1,2) this] For_returns [OF 1(1)] 1(3,7,8) show ?thesis by (auto simp: xy)
    qed
  qed
qed

section \<open>Properties\<close>

text \<open>One buyer of item \<open>i\<close>, an empty Redis, and a fresh registry at five per second.\<close>

definition demo_join :: joinRequest where
  "demo_join = \<lparr> jq_UserID = ''u'' \<rparr>"

definition demo_arrival :: "((joinResponse response option \<times> buyer_joined option) \<times> mem \<times> registry)" where
  "demo_arrival = run_state (handleJoin (beside mem_services) (registry_Join 0 1) Minute ''i'' ''10.0.0.1'' (Some demo_join))
     (mem_empty, NewRegistry 5)"

lemma demo_arrival_admitted:
  "\<exists>resp job y. demo_arrival = ((Some resp, job), y) \<and> resp_status resp = 200
    \<and> fst y = mem_empty\<lparr>m_clock := Millisecond,
        m_store := [AdmissionKey ''i'' ''u'' \<mapsto> (rfc3339 0, Some (Millisecond + Minute))]\<rparr>"
proof -
  have "join_room 0 1 room_start = room_start\<lparr>adm := recv_tick (recv_join 0 admitter_start), joins := [0 \<mapsto> Joined 0]\<rparr>"
    by (simp add: join_room_def tick_room_def room_start_def admitter_start_def recv_join_def recv_tick_def)
  then have "run_state (registry_Join 0 1 ''i'') (mem_empty, NewRegistry 5)
      = (Inr 0, mem_empty, set_room 0 (join_room 0 1 room_start) (demo_line [''i'']))"
    by (simp add: registry_Join_def demo_line_For Let_def, simp add: demo_line_def room_start_def admitter_start_def)
  moreover have "live t (\<lambda>x. None) = Map.empty" for t by (rule ext) simp
  ultimately show ?thesis
    by (simp add: demo_arrival_def handleJoin_def demo_join_def GrantAdmission_def mem_redis_def pop_def Let_def
        mem_empty_def mem_five_def duration_defs status_defs)
qed

text \<open>
  C22.  A 200 of the waiting room means the buyer was let in.  Its \<open>Join\<close> went through the line of the item,
  at the position in the response, the line moved by its own rules only, Redis holds a token for exactly
  this buyer until the configured time after it was granted, and one event naming the buyer goes to the
  risk service.
\<close>

theorem waiting_room_admits:
  assumes "waiting_line L V keys clock topic tables Join Depth line"
    and "run_state (handleJoin V Join ttl i ra body) w = ((Some resp, job), w')" "resp_status resp = 200"
  shows "\<exists>req p t g v. body = Some req
    \<and> job = Some \<lparr> bj_ItemID = i, bj_UserID = jq_UserID req, bj_RemoteAddr = ra, bj_JoinedAt = t \<rparr>
    \<and> resp_body resp = Payload \<lparr> jr_ItemID = i, jr_UserID = jq_UserID req, jr_Position = p,
        jr_Status = ''admitted'', jr_AdmissionTTLSeconds = ttl div Second \<rparr>
    \<and> keys w' (AdmissionKey i (jq_UserID req)) = Some (v, Some (g + max Millisecond ttl))
    \<and> clock w \<le> g \<and> g \<le> clock w' \<and> 0 < ttl
    \<and> (\<exists>a r. map_of (admitters (line w')) i = Some a \<and> joins (rooms (line w') ! a) r = Some (Joined p))
    \<and> (\<exists>evs. registry_run evs (line w) (line w'))"
  by (rule waiting_line.handleJoin_admits [OF assms])

theorem waiting_room_admits_witness:
  "\<exists>resp job y. demo_arrival = ((Some resp, job), y) \<and> resp_status resp = 200
    \<and> m_store (fst y) (AdmissionKey ''i'' ''u'') \<noteq> None
    \<and> (\<exists>evs. registry_run evs (NewRegistry 5) (snd y))"
proof -
  obtain resp job y where run: "demo_arrival = ((Some resp, job), y)" "resp_status resp = 200"
    using demo_arrival_admitted by blast
  from waiting_room_admits [OF line.waiting_line_axioms run(1) [unfolded demo_arrival_def] run(2)]
  have "m_store (fst y) (AdmissionKey ''i'' ''u'') \<noteq> None" "\<exists>evs. registry_run evs (NewRegistry 5) (snd y)"
    by (auto simp: demo_join_def)
  with run show ?thesis by blast
qed



text \<open>
  The depth endpoint reads the line, not Redis.  Its answer is 500 exactly when the line could not be
  asked; otherwise it is a 200 with the length of the item's queue at some moment of the call, whatever
  Redis does, and the cache holds that number or is left as it was.
\<close>

theorem queue_depth_answers_from_line:
  assumes "waiting_line L V keys clock topic tables Join Depth line" "i \<noteq> []"
    and "run_state (handleQueueDepth V Depth i) w = (resp, w')"
  shows "resp_status resp = 500 \<and> (\<exists>e w1. run_state (Depth i) w = (Inl e, w1)) \<and> keys w' = keys w
    \<or> (\<exists>n evs reg a. resp = WriteJSON StatusOK (Payload \<lparr> qd_ItemID = i, qd_Waiting = n \<rparr>)
        \<and> registry_run evs (line w) reg \<and> map_of (admitters reg) i = Some a \<and> n = recv_depth (adm (rooms reg ! a))
        \<and> (keys w' (QueueDepthKey i) = Some (int_text n, None)
           \<or> keys w' = live (clock w') (keys w)))"
  by (rule waiting_line.handleQueueDepth_answers [OF assms(1,3,2)])

theorem queue_depth_answers_from_line_witness:
  "\<exists>n y. run_state (handleQueueDepth (beside mem_services) (registry_Depth 0) ''i'')
        (mem_empty\<lparr>m_redis_faults := [Some (''EOF'', False)]\<rparr>, NewRegistry 5)
      = (WriteJSON StatusOK (Payload \<lparr> qd_ItemID = ''i'', qd_Waiting = n \<rparr>), y)"
proof -
  let ?w = "(mem_empty\<lparr>m_redis_faults := [Some (''EOF'', False)]\<rparr>, NewRegistry 5)"
  obtain resp y where run: "run_state (handleQueueDepth (beside mem_services) (registry_Depth 0) ''i'') ?w = (resp, y)"
    by (cases "run_state (handleQueueDepth (beside mem_services) (registry_Depth 0) ''i'') ?w")
  have "\<exists>n z. run_state (registry_Depth 0 ''i'') ?w = (Inr n, z)"
    by (simp add: registry_Depth_def demo_line_For Let_def, simp add: demo_line_def room_start_def admitter_start_def)
  with queue_depth_answers_from_line [OF line.waiting_line_axioms _ run] run show ?thesis by auto
qed

end
