(* ===== verification/JsonText.thy ===== *)
theory JsonText
  imports Uuid
begin

text \<open>
  The part of \<open>encoding/json\<close> the events and requests use, on bytes: how a string is quoted and unquoted,
  the tokens of a JSON text and its grammar.  The lemmas show that unquoting undoes quoting on valid
  UTF-8, and that a quoted text is one token.
\<close>

section \<open>UTF-8\<close>

abbreviation code :: "char \<Rightarrow> nat" where
  "code c \<equiv> of_char c"

definition continues :: "char \<Rightarrow> bool" where
  "continues c \<longleftrightarrow> 0x80 \<le> code c \<and> code c \<le> 0xBF"

definition second_ok :: "nat \<Rightarrow> char \<Rightarrow> bool" where
  "second_ok b c \<longleftrightarrow>
     (if b = 0xE0 then 0xA0 else if b = 0xF0 then 0x90 else 0x80) \<le> code c
   \<and> code c \<le> (if b = 0xED then 0x9F else if b = 0xF4 then 0x8F else 0xBF)"

text \<open>The size of the rune a text begins with, as \<open>utf8.DecodeRune\<close> has it; 0 when it is not valid.\<close>

fun rune_size :: "string \<Rightarrow> nat" where
  "rune_size [] = 0"
| "rune_size (c # s) =
     (if code c < 0x80 then 1
      else if 0xC2 \<le> code c \<and> code c \<le> 0xDF
        then (case s of c1 # _ \<Rightarrow> if continues c1 then 2 else 0 | _ \<Rightarrow> 0)
      else if 0xE0 \<le> code c \<and> code c \<le> 0xEF
        then (case s of c1 # c2 # _ \<Rightarrow> if second_ok (code c) c1 \<and> continues c2 then 3 else 0 | _ \<Rightarrow> 0)
      else if 0xF0 \<le> code c \<and> code c \<le> 0xF4
        then (case s of c1 # c2 # c3 # _ \<Rightarrow> if second_ok (code c) c1 \<and> continues c2 \<and> continues c3 then 4 else 0 | _ \<Rightarrow> 0)
      else 0)"

lemma rune_size_length: "rune_size s \<le> length s"
  by (cases s rule: rune_size.cases) (auto split: list.splits)

lemma rune_size_append: "0 < rune_size s \<Longrightarrow> rune_size (s @ t) = rune_size s"
  by (cases s rule: rune_size.cases) (auto split: list.splits)

text \<open>A valid text is a sequence of runes.\<close>

function valid_utf8 :: "string \<Rightarrow> bool" where
  "valid_utf8 [] = True"
| "valid_utf8 (c # s) = (0 < rune_size (c # s) \<and> valid_utf8 (drop (rune_size (c # s) - 1) s))"
  by pat_completeness auto
termination
  by (relation "measure length") auto

declare valid_utf8.simps(2) [simp del]

lemma valid_utf8_ascii: "\<forall>c\<in>set s. code c < 0x80 \<Longrightarrow> valid_utf8 s"
  by (induction s) (simp_all add: valid_utf8.simps(2))

section \<open>Quoting\<close>

definition unicode_escape :: "nat \<Rightarrow> string" where
  "unicode_escape n = [CHR 0x5C, CHR ''u'', hex_char (n div 4096 mod 16), hex_char (n div 256 mod 16),
     hex_char (n div 16 mod 16), hex_char (n mod 16)]"

text \<open>One ASCII character, with the escapes of HTML on as \<open>json.Marshal\<close> has them.\<close>

definition quote_ascii :: "char \<Rightarrow> string" where
  "quote_ascii c =
     (if c = CHR 0x5C \<or> c = CHR 0x22 then [CHR 0x5C, c]
      else if code c = 8 then [CHR 0x5C, CHR ''b'']
      else if code c = 12 then [CHR 0x5C, CHR ''f'']
      else if code c = 10 then [CHR 0x5C, CHR ''n'']
      else if code c = 13 then [CHR 0x5C, CHR ''r'']
      else if code c = 9 then [CHR 0x5C, CHR ''t'']
      else if code c < 32 \<or> c = CHR ''<'' \<or> c = CHR ''>'' \<or> c = CHR ''&'' then unicode_escape (code c)
      else [c])"

text \<open>\<open>appendString\<close>: bytes that are no rune become the replacement character; U+2028 and U+2029 are escaped.\<close>

definition line_separator :: "string \<Rightarrow> bool" where
  "line_separator r \<longleftrightarrow> r = [CHR 0xE2, CHR 0x80, CHR 0xA8] \<or> r = [CHR 0xE2, CHR 0x80, CHR 0xA9]"

function quote_body :: "string \<Rightarrow> string" where
  "quote_body [] = []"
| "quote_body (c # s) =
     (let n = rune_size (c # s); r = take n (c # s)
      in if code c < 0x80 then quote_ascii c @ quote_body s
         else if n = 0 then unicode_escape 0xFFFD @ quote_body s
         else if line_separator r then unicode_escape (0x2028 + (code (last r) - 0xA8)) @ quote_body (drop (n - 1) s)
         else r @ quote_body (drop (n - 1) s))"
  by pat_completeness auto
termination
  by (relation "measure length") auto

declare quote_body.simps(2) [simp del]

definition quote :: "string \<Rightarrow> string" where
  "quote s = CHR 0x22 # quote_body s @ [CHR 0x22]"

section \<open>Unquoting\<close>

text \<open>\<open>getu4\<close>: the code of an escape \<open>\uXXXX\<close> at the start of the text.\<close>

fun escaped_rune :: "string \<Rightarrow> nat option" where
  "escaped_rune (x # u # a # b # c # d # s) =
     (if x \<noteq> CHR 0x5C \<or> u \<noteq> CHR ''u'' then None
      else case (hex_val a, hex_val b, hex_val c, hex_val d) of
        (Some a', Some b', Some c', Some d') \<Rightarrow> Some (4096 * a' + 256 * b' + 16 * c' + d')
      | _ \<Rightarrow> None)"
| "escaped_rune _ = None"

definition utf8_encode :: "nat \<Rightarrow> string" where
  "utf8_encode n =
     (if n < 0x80 then [char_of n]
      else if n < 0x800 then [char_of (0xC0 + n div 64), char_of (0x80 + n mod 64)]
      else if n < 0x10000
        then [char_of (0xE0 + n div 4096), char_of (0x80 + n div 64 mod 64), char_of (0x80 + n mod 64)]
      else [char_of (0xF0 + n div 262144), char_of (0x80 + n div 4096 mod 64), char_of (0x80 + n div 64 mod 64),
        char_of (0x80 + n mod 64)])"

definition replacement :: string where
  "replacement = [CHR 0xEF, CHR 0xBF, CHR 0xBD]"

definition unescape :: "char \<Rightarrow> char" where
  "unescape e =
     (if e = CHR ''b'' then char_of (8 :: nat) else if e = CHR ''f'' then char_of (12 :: nat)
      else if e = CHR ''n'' then char_of (10 :: nat) else if e = CHR ''r'' then char_of (13 :: nat)
      else if e = CHR ''t'' then char_of (9 :: nat) else e)"

text \<open>
  \<open>unquote\<close> of a string token's body: escapes are read, a surrogate that is not half of a pair and bytes
  that are no rune become the replacement character.
\<close>

function unquote_body :: "string \<Rightarrow> string" where
  "unquote_body [] = []"
| "unquote_body (c # s) =
     (if c = CHR 0x5C then
        (case escaped_rune (c # s) of
           Some hi \<Rightarrow>
             if 0xD800 \<le> hi \<and> hi < 0xE000
             then (case escaped_rune (drop 5 s) of
                     Some lo \<Rightarrow>
                       if hi < 0xDC00 \<and> 0xDC00 \<le> lo \<and> lo < 0xE000
                       then utf8_encode (0x10000 + (hi - 0xD800) * 1024 + (lo - 0xDC00)) @ unquote_body (drop 11 s)
                       else replacement @ unquote_body (drop 5 s)
                   | None \<Rightarrow> replacement @ unquote_body (drop 5 s))
             else utf8_encode hi @ unquote_body (drop 5 s)
         | None \<Rightarrow> (case s of [] \<Rightarrow> [] | e # t \<Rightarrow> unescape e # unquote_body t))
      else let n = rune_size (c # s)
        in if n = 0 then replacement @ unquote_body s
           else take n (c # s) @ unquote_body (drop (n - 1) s))"
  by pat_completeness auto
termination
  by (relation "measure length") auto

declare unquote_body.simps(2) [simp del]

section \<open>Unquoting undoes quoting\<close>

lemma hex_digits_sum:
  fixes n :: nat
  assumes "n < 65536"
  shows "4096 * (n div 4096 mod 16) + 256 * (n div 256 mod 16) + 16 * (n div 16 mod 16) + n mod 16 = n"
proof -
  have "n div 256 = n div 16 div 16" "n div 4096 = n div 256 div 16" by (simp_all flip: div_mult2_eq)
  moreover have "n div 4096 mod 16 = n div 4096" using assms by simp
  moreover have "16 * (n div 16) + n mod 16 = n" "16 * (n div 16 div 16) + n div 16 mod 16 = n div 16"
    "16 * (n div 256 div 16) + n div 256 mod 16 = n div 256" by (simp_all only: mult_div_mod_eq)
  ultimately show ?thesis by linarith
qed

lemma escaped_unicode: "n < 65536 \<Longrightarrow> escaped_rune (unicode_escape n @ t) = Some n"
  using hex_digits_sum [of n] by (simp add: unicode_escape_def hex_val_char)

lemma escaped_simple: "e \<noteq> CHR ''u'' \<Longrightarrow> escaped_rune (CHR 0x5C # e # t) = None"
  by (cases "CHR 0x5C # e # t" rule: escaped_rune.cases) simp_all

lemma unquote_simple: "e \<noteq> CHR ''u'' \<Longrightarrow> unquote_body (CHR 0x5C # e # t) = unescape e # unquote_body t"
  by (simp add: unquote_body.simps(2) escaped_simple)

lemma unquote_unicode:
  assumes "n < 0xD800 \<or> 0xE000 \<le> n" "n < 65536"
  shows "unquote_body (unicode_escape n @ t) = utf8_encode n @ unquote_body t"
  using assms(1) escaped_unicode [OF assms(2), of t]
  by (auto simp: unicode_escape_def unquote_body.simps(2) simp del: escaped_rune.simps)

lemma unquote_plain:
  assumes "c \<noteq> CHR 0x5C" "0 < rune_size (c # s)"
  shows "unquote_body (take (rune_size (c # s)) (c # s) @ t) = take (rune_size (c # s)) (c # s) @ unquote_body t"
proof -
  let ?n = "rune_size (c # s)"
  obtain k where k: "?n = Suc k" using assms(2) by (cases ?n) auto
  have "rune_size (take ?n (c # s)) = ?n"
    using assms(2) by (auto split: list.splits if_splits)
  then have size: "rune_size (take ?n (c # s) @ t) = ?n" using rune_size_append assms(2) by metis
  have len: "length (take ?n (c # s)) = ?n" using rune_size_length [of "c # s"] by simp
  have "unquote_body (c # take k s @ t) = take ?n (c # take k s @ t) @ unquote_body (drop k (take k s @ t))"
    using assms(1) size by (subst unquote_body.simps(2)) (simp add: k Let_def del: rune_size.simps)
  with len show ?thesis by (simp add: k del: rune_size.simps)
qed

lemma unquote_ascii:
  assumes "code c < 0x80"
  shows "unquote_body (quote_ascii c @ t) = c # unquote_body t"
proof -
  have plain: "unquote_body (c # t) = c # unquote_body t" if "c \<noteq> CHR 0x5C"
    using that assms by (simp add: unquote_body.simps(2))
  have small: "unquote_body (unicode_escape (code c) @ t) = c # unquote_body t"
    using unquote_unicode [of "code c" t] assms by (simp add: utf8_encode_def)
  have char: "c = char_of n" if "code c = n" for n using that by auto
  consider "c = CHR 0x5C" | "c = CHR 0x22" | "code c = 8" | "code c = 12" | "code c = 10" | "code c = 13" | "code c = 9"
    | (other) "c \<noteq> CHR 0x5C" "c \<noteq> CHR 0x22" "code c \<notin> {8, 12, 10, 13, 9}"
    by auto
  then show ?thesis
  proof cases
    case other
    with plain small show ?thesis by (simp add: quote_ascii_def)
  qed (auto simp: quote_ascii_def unquote_simple unescape_def dest: char)
qed

lemma separator_code:
  "line_separator r \<Longrightarrow> utf8_encode (0x2028 + (code (last r) - 0xA8)) = r \<and> code (last r) - 0xA8 \<le> 1"
  by (auto simp: line_separator_def utf8_encode_def char_of_def bit_Suc_0_iff)

lemma unquote_quote: "valid_utf8 s \<Longrightarrow> unquote_body (quote_body s) = s"
proof (induction s rule: quote_body.induct)
  case (2 c s)
  let ?n = "rune_size (c # s)" and ?r = "take (rune_size (c # s)) (c # s)"
  have n: "0 < ?n" and rest: "valid_utf8 (drop (?n - 1) s)" using "2.prems" by (simp_all add: valid_utf8.simps(2))
  have split: "?r @ drop (?n - 1) s = c # s" using n by (cases ?n) simp_all
  show ?case
  proof (cases "code c < 0x80")
    case True
    then have "?n = 1" by simp
    then have "valid_utf8 s" using rest by simp
    with "2.IH"(1) [OF refl refl True] unquote_ascii [OF True] True show ?thesis
      by (simp add: quote_body.simps(2) Let_def)
  next
    case False
    show ?thesis
    proof (cases "line_separator ?r")
      case True
      have "unquote_body (quote_body (c # s)) = ?r @ unquote_body (quote_body (drop (?n - 1) s))"
        using False True n separator_code [OF True]
        by (simp add: quote_body.simps(2) Let_def unquote_unicode del: rune_size.simps)
      with "2.IH"(3) [OF refl refl False _ True rest] n split show ?thesis by simp
    next
      case plain: False
      have "c \<noteq> CHR 0x5C" using False by auto
      from unquote_plain [OF this n] have "unquote_body (quote_body (c # s)) = ?r @ unquote_body (quote_body (drop (?n - 1) s))"
        using False plain n by (simp add: quote_body.simps(2) Let_def del: rune_size.simps)
      with "2.IH"(4) [OF refl refl False _ plain rest] n split show ?thesis by simp
    qed
  qed
qed simp

section \<open>Tokens\<close>

definition space :: "char \<Rightarrow> bool" where
  "space c \<longleftrightarrow> code c = 32 \<or> code c = 9 \<or> code c = 13 \<or> code c = 10"

text \<open>The body of a string up to its closing quote, still escaped, and what follows it.\<close>

fun string_body :: "string \<Rightarrow> (string \<times> string) option" where
  "string_body [] = None"
| "string_body (c # s) =
     (if c = CHR 0x22 then Some ([], s)
      else if c = CHR 0x5C then
        (case s of
           [] \<Rightarrow> None
         | e # t \<Rightarrow>
             if e = CHR ''u'' then
               (case t of
                  a # b # c' # d # t' \<Rightarrow>
                    if hex_val a = None \<or> hex_val b = None \<or> hex_val c' = None \<or> hex_val d = None then None
                    else map_option (\<lambda>(r, t''). (c # e # a # b # c' # d # r, t'')) (string_body t')
                | _ \<Rightarrow> None)
             else if e \<in> set ''bfnrt/'' \<union> {CHR 0x5C, CHR 0x22}
             then map_option (\<lambda>(r, t'). (c # e # r, t')) (string_body t)
             else None)
      else if code c < 32 then None
      else map_option (\<lambda>(r, t). (c # r, t)) (string_body s))"

text \<open>Digits, one at least, and what follows them.\<close>

definition some_digits :: "string \<Rightarrow> (string \<times> string) option" where
  "some_digits s = (if takeWhile is_digit s = [] then None else Some (takeWhile is_digit s, dropWhile is_digit s))"

definition number_sign :: "string \<Rightarrow> string \<times> string" where
  "number_sign s = (case s of c # t \<Rightarrow> if c = CHR ''-'' then ([c], t) else ([], s) | [] \<Rightarrow> ([], s))"

definition number_int :: "string \<Rightarrow> (string \<times> string) option" where
  "number_int s = (case s of c # t \<Rightarrow> if c = CHR ''0'' then Some ([c], t) else some_digits s | [] \<Rightarrow> None)"

definition number_frac :: "string \<Rightarrow> (string \<times> string) option" where
  "number_frac s = (case s of
     c # t \<Rightarrow> if c = CHR ''.'' then map_option (\<lambda>(d, r). (c # d, r)) (some_digits t) else Some ([], s)
   | [] \<Rightarrow> Some ([], s))"

definition number_exp :: "string \<Rightarrow> (string \<times> string) option" where
  "number_exp s = (case s of
     c # t \<Rightarrow>
       if c = CHR ''e'' \<or> c = CHR ''E''
       then (case t of
               g # u \<Rightarrow> if g = CHR ''+'' \<or> g = CHR ''-'' then map_option (\<lambda>(d, r). (c # g # d, r)) (some_digits u)
                        else map_option (\<lambda>(d, r). (c # d, r)) (some_digits t)
             | [] \<Rightarrow> None)
       else Some ([], s)
   | [] \<Rightarrow> Some ([], s))"

definition number_text :: "string \<Rightarrow> (string \<times> string) option" where
  "number_text s =
     (case number_sign s of (g, s1) \<Rightarrow> (case number_int s1 of
        None \<Rightarrow> None
      | Some (i, s2) \<Rightarrow> (case number_frac s2 of
          None \<Rightarrow> None
        | Some (f, s3) \<Rightarrow> (case number_exp s3 of
            None \<Rightarrow> None
          | Some (e, s4) \<Rightarrow> Some (g @ i @ f @ e, s4)))))"

datatype token =
    LBrace
  | RBrace
  | LBracket
  | RBracket
  | Colon
  | Comma
  | StringToken string
  | NumberToken string
  | TrueToken
  | FalseToken
  | NullToken

definition next_token :: "string \<Rightarrow> (token \<times> string) option" where
  "next_token s =
     (case s of
        [] \<Rightarrow> None
      | c # t \<Rightarrow>
          if c = CHR 0x7B then Some (LBrace, t)
          else if c = CHR 0x7D then Some (RBrace, t)
          else if c = CHR ''['' then Some (LBracket, t)
          else if c = CHR '']'' then Some (RBracket, t)
          else if c = CHR '':'' then Some (Colon, t)
          else if c = CHR '','' then Some (Comma, t)
          else if c = CHR 0x22 then map_option (\<lambda>(r, t'). (StringToken r, t')) (string_body t)
          else if c = CHR ''t'' then (if take 3 t = ''rue'' then Some (TrueToken, drop 3 t) else None)
          else if c = CHR ''f'' then (if take 4 t = ''alse'' then Some (FalseToken, drop 4 t) else None)
          else if c = CHR ''n'' then (if take 3 t = ''ull'' then Some (NullToken, drop 3 t) else None)
          else map_option (\<lambda>(r, t'). (NumberToken r, t')) (number_text s))"

lemma string_body_length: "string_body s = Some (r, t) \<Longrightarrow> length t < length s"
proof (induction s arbitrary: r t rule: string_body.induct)
  case (2 c s)
  then show ?case by (force split: if_splits list.splits)
qed simp

lemma some_digits_length: "some_digits s = Some (d, r) \<Longrightarrow> length r < length s"
  unfolding some_digits_def
  by (metis append_Nil2 length_append length_greater_0_conv less_add_same_cancel2 option.inject option.simps(3) prod.inject takeWhile_dropWhile_id)

lemma number_text_length: "number_text s = Some (d, r) \<Longrightarrow> length r < length s"
proof -
  have sign: "number_sign s = (g, s1) \<Longrightarrow> length s1 \<le> length s" for g s1
    by (auto simp: number_sign_def split: list.splits if_splits)
  have int: "number_int s1 = Some (i, s2) \<Longrightarrow> length s2 < length s1" for s1 i s2
    by (auto simp: number_int_def dest: some_digits_length split: list.splits if_splits)
  have frac: "number_frac s1 = Some (i, s2) \<Longrightarrow> length s2 \<le> length s1" for s1 i s2
    by (auto simp: number_frac_def dest: some_digits_length split: list.splits if_splits)
  have exp: "number_exp s1 = Some (i, s2) \<Longrightarrow> length s2 \<le> length s1" for s1 i s2
    by (auto simp: number_exp_def dest: some_digits_length split: list.splits if_splits)
  assume "number_text s = Some (d, r)"
  then obtain g s1 i s2 f s3 e where "number_sign s = (g, s1)" "number_int s1 = Some (i, s2)"
    "number_frac s2 = Some (f, s3)" "number_exp s3 = Some (e, r)"
    by (auto simp: number_text_def split: prod.splits option.splits)
  from sign [OF this(1)] int [OF this(2)] frac [OF this(3)] exp [OF this(4)] show ?thesis by linarith
qed

lemma next_token_length: "next_token s = Some (t, r) \<Longrightarrow> length r < length s"
  by (auto simp: next_token_def dest: string_body_length number_text_length split: list.splits if_splits)

section \<open>Grammar\<close>

text \<open>Values with their texts as they were written: strings still escaped, numbers not yet read.\<close>

datatype json =
    JNull
  | JBool bool
  | JNumber string
  | JString string
  | JArray "json list"
  | JObject "(string \<times> json) list"

text \<open>The containers around the current position, the innermost first, and what may come next.\<close>

datatype container =
    InArray "json list"
  | InObject "(string \<times> json) list"
  | AtKey "(string \<times> json) list" string

datatype expected = ExpectValue | ExpectValueOrEnd | ExpectKeyOrEnd | ExpectKey | ExpectColon | ExpectCommaOrEnd

datatype progress = Reading expected "container list" | Complete json | Malformed

fun value_read :: "json \<Rightarrow> container list \<Rightarrow> progress" where
  "value_read v [] = Complete v"
| "value_read v (InArray vs # st) = Reading ExpectCommaOrEnd (InArray (vs @ [v]) # st)"
| "value_read v (AtKey ms k # st) = Reading ExpectCommaOrEnd (InObject (ms @ [(k, v)]) # st)"
| "value_read v (InObject ms # st) = Malformed"

text \<open>The scanner refuses more than 10000 open containers.\<close>

definition open_container :: "container \<Rightarrow> expected \<Rightarrow> container list \<Rightarrow> progress" where
  "open_container c e st = (if length st < 10000 then Reading e (c # st) else Malformed)"

fun close_array :: "container list \<Rightarrow> progress" where
  "close_array (InArray vs # st) = value_read (JArray vs) st"
| "close_array st = Malformed"

fun close_object :: "container list \<Rightarrow> progress" where
  "close_object (InObject ms # st) = value_read (JObject ms) st"
| "close_object st = Malformed"

fun key_read :: "string \<Rightarrow> container list \<Rightarrow> progress" where
  "key_read k (InObject ms # st) = Reading ExpectColon (AtKey ms k # st)"
| "key_read k st = Malformed"

fun token_value :: "token \<Rightarrow> json option" where
  "token_value (StringToken r) = Some (JString r)"
| "token_value (NumberToken r) = Some (JNumber r)"
| "token_value TrueToken = Some (JBool True)"
| "token_value FalseToken = Some (JBool False)"
| "token_value NullToken = Some JNull"
| "token_value t = None"

definition begin_value :: "token \<Rightarrow> container list \<Rightarrow> progress" where
  "begin_value t st =
     (case token_value t of
        Some v \<Rightarrow> value_read v st
      | None \<Rightarrow> if t = LBrace then open_container (InObject []) ExpectKeyOrEnd st
               else if t = LBracket then open_container (InArray []) ExpectValueOrEnd st
               else Malformed)"

definition after_value :: "token \<Rightarrow> container list \<Rightarrow> progress" where
  "after_value t st =
     (case t of
        Comma \<Rightarrow> (case st of
          InArray vs # st' \<Rightarrow> Reading ExpectValue st
        | InObject ms # st' \<Rightarrow> Reading ExpectKey st
        | _ \<Rightarrow> Malformed)
      | RBracket \<Rightarrow> close_array st
      | RBrace \<Rightarrow> close_object st
      | _ \<Rightarrow> Malformed)"

fun parse_step :: "token \<Rightarrow> expected \<Rightarrow> container list \<Rightarrow> progress" where
  "parse_step t ExpectValue st = begin_value t st"
| "parse_step t ExpectValueOrEnd st = (if t = RBracket then close_array st else begin_value t st)"
| "parse_step t ExpectKeyOrEnd st =
     (case t of StringToken k \<Rightarrow> key_read k st | RBrace \<Rightarrow> close_object st | _ \<Rightarrow> Malformed)"
| "parse_step t ExpectKey st = (case t of StringToken k \<Rightarrow> key_read k st | _ \<Rightarrow> Malformed)"
| "parse_step t ExpectColon st = (if t = Colon then Reading ExpectValue st else Malformed)"
| "parse_step t ExpectCommaOrEnd st = after_value t st"

text \<open>The first value of a text, and what follows it.\<close>

function parse_from :: "expected \<Rightarrow> container list \<Rightarrow> string \<Rightarrow> (json \<times> string) option" where
  "parse_from e st s =
     (case next_token (dropWhile space s) of
        None \<Rightarrow> None
      | Some (t, r) \<Rightarrow> (case parse_step t e st of
            Malformed \<Rightarrow> None
          | Complete v \<Rightarrow> Some (v, r)
          | Reading e' st' \<Rightarrow> parse_from e' st' r))"
  by pat_completeness auto
termination
proof (relation "measure (\<lambda>(e, st, s). length s)")
  fix e :: expected and st :: "container list" and s x t r e' st'
  assume "next_token (dropWhile space s) = Some x" "(t, r) = x"
  then have "length r < length (dropWhile space s)" by (intro next_token_length) auto
  with length_dropWhile_le [of space s] show "((e', st', r), e, st, s) \<in> measure (\<lambda>(e, st, s). length s)" by simp
qed simp

declare parse_from.simps [simp del]

text \<open>\<open>json.Decoder\<close> takes the first value; \<open>json.Unmarshal\<close> wants nothing but space after it.\<close>

definition first_value :: "string \<Rightarrow> json option" where
  "first_value s = map_option fst (parse_from ExpectValue [] s)"

definition only_value :: "string \<Rightarrow> json option" where
  "only_value s =
     (case parse_from ExpectValue [] s of None \<Rightarrow> None | Some (v, r) \<Rightarrow> if list_all space r then Some v else None)"

section \<open>Quoted texts and integers are tokens\<close>

definition chunk :: "string \<Rightarrow> bool" where
  "chunk x \<longleftrightarrow> (\<forall>u. string_body (x @ u) = map_option (\<lambda>(r, t). (x @ r, t)) (string_body u))"

lemma chunk_append: "chunk x \<Longrightarrow> chunk y \<Longrightarrow> chunk (x @ y)"
  by (auto simp: chunk_def option.map_comp comp_def split_def)

lemma chunk_unicode: "n < 65536 \<Longrightarrow> chunk (unicode_escape n)"
  by (auto simp: chunk_def unicode_escape_def hex_val_char)

lemma chunk_plain: "32 \<le> code c \<Longrightarrow> c \<noteq> CHR 0x22 \<Longrightarrow> c \<noteq> CHR 0x5C \<Longrightarrow> chunk [c]"
  by (auto simp: chunk_def)

lemma chunk_ascii: "code c < 0x80 \<Longrightarrow> chunk (quote_ascii c)"
  using chunk_unicode [of "code c"] chunk_plain [of c]
  by (auto simp: quote_ascii_def chunk_def)

lemma chunk_high: "\<forall>c\<in>set x. 0x80 \<le> code c \<Longrightarrow> chunk x"
proof (induction x)
  case Nil
  then show ?case by (simp add: chunk_def option.map_ident split_def)
next
  case (Cons c x)
  have "c \<noteq> CHR 0x22" "c \<noteq> CHR 0x5C" using Cons.prems by auto
  then have "chunk [c]" using Cons.prems by (intro chunk_plain) auto
  from chunk_append [OF this] Cons show ?case by simp
qed

lemma rune_bytes_high:
  "0x80 \<le> code c \<Longrightarrow> \<forall>x\<in>set (take (rune_size (c # s)) (c # s)). 0x80 \<le> code x"
  by (auto simp: continues_def second_ok_def split: list.splits if_splits)

lemma chunk_quote_body: "chunk (quote_body s)"
proof (induction s rule: quote_body.induct)
  case 1
  show ?case by (simp add: chunk_high)
next
  case (2 c s)
  let ?n = "rune_size (c # s)" and ?r = "take (rune_size (c # s)) (c # s)"
  show ?case
  proof (cases "code c < 0x80")
    case True
    with "2.IH"(1) [OF refl refl True] show ?thesis
      by (simp add: quote_body.simps(2) Let_def chunk_append chunk_ascii)
  next
    case False
    note high = rune_bytes_high [of c s]
    show ?thesis
    proof (cases "?n = 0")
      case True
      with "2.IH"(2) [OF refl refl False True] False show ?thesis
        by (simp add: quote_body.simps(2) Let_def chunk_append chunk_unicode)
    next
      case n: False
      show ?thesis
      proof (cases "line_separator ?r")
        case True
        have "chunk (unicode_escape (0x2028 + (code (last ?r) - 0xA8)))"
          using separator_code [OF True] by (intro chunk_unicode) simp
        with "2.IH"(3) [OF refl refl False n True] False n True show ?thesis
          by (simp add: quote_body.simps(2) Let_def chunk_append del: rune_size.simps)
      next
        case sep: False
        have "chunk ?r" using high False by (intro chunk_high) simp
        with "2.IH"(4) [OF refl refl False n sep] False n sep show ?thesis
          by (simp add: quote_body.simps(2) Let_def chunk_append del: rune_size.simps)
      qed
    qed
  qed
qed

lemma next_token_quote: "next_token (quote s @ t) = Some (StringToken (quote_body s), t)"
  using chunk_quote_body [of s] by (simp add: next_token_def quote_def chunk_def)

text \<open>What may follow a value in an object.\<close>

definition ends_value :: "string \<Rightarrow> bool" where
  "ends_value t \<longleftrightarrow> (\<exists>r. t = CHR '','' # r \<or> t = CHR 0x7D # r)"

lemma some_digits_all: "ds \<noteq> [] \<Longrightarrow> \<forall>c\<in>set ds. is_digit c \<Longrightarrow> ends_value t \<Longrightarrow> some_digits (ds @ t) = Some (ds, t)"
  by (auto simp: some_digits_def ends_value_def is_digit_def takeWhile_append dropWhile_append)

lemma nat_text_zero: "nat_text n = CHR ''0'' # ds \<Longrightarrow> ds = []"
proof (induction n arbitrary: ds rule: nat_text.induct)
  case (1 n)
  show ?case
  proof (cases "n < 10")
    case True
    with "1.prems" show ?thesis by (subst (asm) nat_text.simps) simp
  next
    case False
    obtain c cs where c: "nat_text (n div 10) = c # cs" using nat_text_nonempty by (metis list.exhaust)
    with "1.prems" False have "c = CHR ''0''" by (subst (asm) nat_text.simps) simp
    with "1.IH" [OF False] c have "nat_text (n div 10) = ''0''" by simp
    then have "read_digits 0 ''0'' = Some (n div 10)" using read_digits_nat_text [of "n div 10"] by simp
    then have "n div 10 = 0" by (simp add: is_digit_def digit_val_def)
    with False show ?thesis by simp
  qed
qed

lemma number_int_nat: "ends_value t \<Longrightarrow> number_int (nat_text n @ t) = Some (nat_text n, t)"
proof -
  assume t: "ends_value t"
  obtain c ds where c: "nat_text n = c # ds" using nat_text_nonempty by (metis list.exhaust)
  have "some_digits (nat_text n @ t) = Some (nat_text n, t)"
    using nat_text_digits t by (intro some_digits_all) auto
  with c nat_text_zero [of n ds] show ?thesis by (auto simp: number_int_def)
qed

lemma number_text_int: "ends_value t \<Longrightarrow> number_text (int_text n @ t) = Some (int_text n, t)"
proof -
  assume t: "ends_value t"
  have rest: "number_frac t = Some ([], t)" "number_exp t = Some ([], t)"
    using t by (auto simp: ends_value_def number_frac_def number_exp_def)
  have "number_sign (int_text n @ t) = (if n < 0 then (''-'', nat_text (nat (- n)) @ t) else ([], nat_text (nat n) @ t))"
    using nat_text_head by (cases "nat_text (nat n)") (auto simp: number_sign_def int_text_def)
  with number_int_nat [OF t] rest show ?thesis by (simp add: number_text_def int_text_def)
qed

lemma int_text_head: "\<exists>c s. int_text n = c # s \<and> (is_digit c \<or> c = CHR ''-'')"
proof -
  obtain c ds where "nat_text (nat n) = c # ds" using nat_text_nonempty by (metis list.exhaust)
  with nat_text_digits [of c "nat n"] show ?thesis by (auto simp: int_text_def)
qed

lemma digit_not_special:
  "is_digit c \<or> c = CHR ''-'' \<Longrightarrow> c \<notin> {CHR 0x7B, CHR 0x7D, CHR ''['', CHR '']'', CHR '':'', CHR '','', CHR 0x22, CHR ''t'', CHR ''f'', CHR ''n''}
     \<and> \<not> space c"
  by (auto simp: is_digit_def space_def)

lemma next_token_int: "ends_value t \<Longrightarrow> next_token (int_text n @ t) = Some (NumberToken (int_text n), t)"
proof -
  assume t: "ends_value t"
  obtain c s where c: "int_text n = c # s" "is_digit c \<or> c = CHR ''-''" using int_text_head by blast
  from number_text_int [OF t, of n] digit_not_special [OF c(2)] show ?thesis
    by (simp add: next_token_def c(1))
qed

section \<open>Objects\<close>

text \<open>A struct as \<open>json.Marshal\<close> writes it: its members in order, given by name and value text.\<close>

definition member_text :: "string \<Rightarrow> string \<Rightarrow> string" where
  "member_text k x = quote k @ CHR '':'' # x"

fun members_text :: "(string \<times> string) list \<Rightarrow> string" where
  "members_text [] = []"
| "members_text [(k, x)] = member_text k x"
| "members_text ((k, x) # m # ms) = member_text k x @ CHR '','' # members_text (m # ms)"

definition object_text :: "(string \<times> string) list \<Rightarrow> string" where
  "object_text ms = CHR 0x7B # members_text ms @ [CHR 0x7D]"

text \<open>A text that is one token, and its value.\<close>

definition reads_as :: "string \<Rightarrow> json \<Rightarrow> bool" where
  "reads_as x v \<longleftrightarrow> (\<exists>tok. token_value tok = Some v
     \<and> (\<forall>t. ends_value t \<longrightarrow> next_token (dropWhile space (x @ t)) = Some (tok, t)))"

lemma quote_no_space: "dropWhile space (quote s @ t) = quote s @ t"
  by (simp add: quote_def space_def)

lemma quote_reads: "reads_as (quote s) (JString (quote_body s))"
  unfolding reads_as_def quote_no_space next_token_quote
  by (intro exI [of _ "StringToken (quote_body s)"]) simp

lemma int_reads: "reads_as (int_text n) (JNumber (int_text n))"
proof -
  obtain c s where "int_text n = c # s" "is_digit c \<or> c = CHR ''-''" using int_text_head by blast
  with digit_not_special [of c] have "dropWhile space (int_text n @ t) = int_text n @ t" for t by simp
  then show ?thesis
    unfolding reads_as_def using next_token_int by (intro exI [of _ "NumberToken (int_text n)"]) simp
qed

lemma next_token_punct:
  "next_token (CHR 0x7B # t) = Some (LBrace, t)" "next_token (CHR 0x7D # t) = Some (RBrace, t)"
  "next_token (CHR '':'' # t) = Some (Colon, t)" "next_token (CHR '','' # t) = Some (Comma, t)"
  by (simp_all add: next_token_def)

lemma punct_no_space:
  "dropWhile space (CHR 0x7B # t) = CHR 0x7B # t" "dropWhile space (CHR 0x7D # t) = CHR 0x7D # t"
  "dropWhile space (CHR '':'' # t) = CHR '':'' # t" "dropWhile space (CHR '','' # t) = CHR '','' # t"
  by (simp_all add: space_def)

lemma parse_member:
  assumes "reads_as x v" "ends_value t" "e = ExpectKey \<or> e = ExpectKeyOrEnd"
  shows "parse_from e (InObject ms # st) (member_text k x @ t)
    = parse_from ExpectCommaOrEnd (InObject (ms @ [(quote_body k, v)]) # st) t"
proof -
  obtain tok where tok: "token_value tok = Some v" "next_token (dropWhile space (x @ t)) = Some (tok, t)"
    using assms(1,2) unfolding reads_as_def by blast
  have 1: "parse_from e (InObject ms # st) (member_text k x @ t)
      = parse_from ExpectColon (AtKey ms (quote_body k) # st) (CHR '':'' # x @ t)"
    using assms(3) by (subst parse_from.simps) (auto simp: member_text_def quote_no_space next_token_quote)
  have 2: "parse_from ExpectColon (AtKey ms (quote_body k) # st) (CHR '':'' # x @ t)
      = parse_from ExpectValue (AtKey ms (quote_body k) # st) (x @ t)"
    by (subst parse_from.simps) (simp add: punct_no_space next_token_punct del: dropWhile.simps)
  have "begin_value tok (AtKey ms (quote_body k) # st)
      = Reading ExpectCommaOrEnd (InObject (ms @ [(quote_body k, v)]) # st)"
    by (simp add: begin_value_def tok(1))
  then have "parse_from ExpectValue (AtKey ms (quote_body k) # st) (x @ t)
      = parse_from ExpectCommaOrEnd (InObject (ms @ [(quote_body k, v)]) # st) t"
    by (subst parse_from.simps) (simp add: tok(2))
  with 1 2 show ?thesis by simp
qed

lemma parse_members:
  assumes "\<forall>(k, x, v)\<in>set fs. reads_as x v" "fs \<noteq> []" "e = ExpectKey \<or> e = ExpectKeyOrEnd"
  shows "parse_from e (InObject ms # st) (members_text (map (\<lambda>(k, x, v). (k, x)) fs) @ CHR 0x7D # t)
    = parse_from ExpectCommaOrEnd (InObject (ms @ map (\<lambda>(k, x, v). (quote_body k, v)) fs) # st) (CHR 0x7D # t)"
  using assms
proof (induction fs arbitrary: ms e)
  case (Cons f fs)
  obtain k x v where f: "f = (k, x, v)" by (metis surj_pair)
  have reads: "reads_as x v" using Cons.prems(1) f by simp
  show ?case
  proof (cases fs)
    case Nil
    have "ends_value (CHR 0x7D # t)" by (simp add: ends_value_def)
    from parse_member [OF reads this Cons.prems(3)] show ?thesis by (simp add: f Nil)
  next
    case (Cons g gs)
    let ?rest = "members_text (map (\<lambda>(k, x, v). (k, x)) fs) @ CHR 0x7D # t"
    have "ends_value (CHR '','' # ?rest)" by (simp add: ends_value_def)
    note first = parse_member [OF reads this Cons.prems(3), of ms st k]
    have "parse_from ExpectCommaOrEnd (InObject (ms @ [(quote_body k, v)]) # st) (CHR '','' # ?rest)
        = parse_from ExpectKey (InObject (ms @ [(quote_body k, v)]) # st) ?rest"
      by (subst parse_from.simps) (simp add: punct_no_space next_token_punct after_value_def del: dropWhile.simps)
    with first Cons.IH [of ExpectKey "ms @ [(quote_body k, v)]"] Cons.prems(1) Cons show ?thesis
      by (cases g) (simp add: f)
  qed
qed simp

lemma parse_object:
  assumes "\<forall>(k, x, v)\<in>set fs. reads_as x v" "fs \<noteq> []"
  shows "parse_from ExpectValue [] (object_text (map (\<lambda>(k, x, v). (k, x)) fs) @ t)
    = Some (JObject (map (\<lambda>(k, x, v). (quote_body k, v)) fs), t)"
proof -
  have "parse_from ExpectValue [] (object_text (map (\<lambda>(k, x, v). (k, x)) fs) @ t)
      = parse_from ExpectKeyOrEnd [InObject []] (members_text (map (\<lambda>(k, x, v). (k, x)) fs) @ CHR 0x7D # t)"
    by (subst parse_from.simps)
      (simp add: object_text_def punct_no_space next_token_punct begin_value_def open_container_def del: dropWhile.simps)
  also have "\<dots> = parse_from ExpectCommaOrEnd [InObject (map (\<lambda>(k, x, v). (quote_body k, v)) fs)] (CHR 0x7D # t)"
    using parse_members [OF assms, of ExpectKeyOrEnd "[]" "[]" t] by simp
  also have "\<dots> = Some (JObject (map (\<lambda>(k, x, v). (quote_body k, v)) fs), t)"
    by (subst parse_from.simps) (simp add: punct_no_space next_token_punct after_value_def del: dropWhile.simps)
  finally show ?thesis .
qed

section \<open>Structs\<close>

text \<open>Names are matched without regard to case; two runes beyond ASCII fold to a letter.\<close>

function fold_key :: "string \<Rightarrow> string" where
  "fold_key [] = []"
| "fold_key (c # s) =
     (if 97 \<le> code c \<and> code c \<le> 122 then char_of (code c - 32) # fold_key s
      else if take 3 (c # s) = [CHR 0xE2, CHR 0x84, CHR 0xAA] then CHR ''K'' # fold_key (drop 2 s)
      else if take 2 (c # s) = [CHR 0xC5, CHR 0xBF] then CHR ''S'' # fold_key (drop 1 s)
      else c # fold_key s)"
  by pat_completeness auto
termination
  by (relation "measure length") auto

text \<open>A field by its name, and what a value does to it; \<open>None\<close> is a value of the wrong type.\<close>

type_synonym 'r field = "string \<times> (json \<Rightarrow> 'r \<Rightarrow> 'r option)"

definition text_field :: "(string \<Rightarrow> 'r \<Rightarrow> 'r) \<Rightarrow> json \<Rightarrow> 'r \<Rightarrow> 'r option" where
  "text_field upd v r = (case v of JNull \<Rightarrow> Some r | JString raw \<Rightarrow> Some (upd (unquote_body raw) r) | _ \<Rightarrow> None)"

definition int_field :: "(int \<Rightarrow> 'r \<Rightarrow> 'r) \<Rightarrow> json \<Rightarrow> 'r \<Rightarrow> 'r option" where
  "int_field upd v r =
     (case v of JNull \<Rightarrow> Some r | JNumber x \<Rightarrow> map_option (\<lambda>n. upd n r) (parse_int64 x) | _ \<Rightarrow> None)"

definition field_named :: "'r field list \<Rightarrow> string \<Rightarrow> (json \<Rightarrow> 'r \<Rightarrow> 'r option) option" where
  "field_named fds k = map_option snd (find (\<lambda>(n, f). fold_key n = fold_key k) fds)"

text \<open>A member that names no field is skipped; of several that name one the last wins.\<close>

fun decode_members :: "'r field list \<Rightarrow> (string \<times> json) list \<Rightarrow> 'r \<Rightarrow> 'r option" where
  "decode_members fds [] r = Some r"
| "decode_members fds ((k, v) # ms) r =
     (case field_named fds (unquote_body k) of
        None \<Rightarrow> decode_members fds ms r
      | Some f \<Rightarrow> (case f v r of None \<Rightarrow> None | Some r' \<Rightarrow> decode_members fds ms r'))"

definition decode_struct :: "'r field list \<Rightarrow> json \<Rightarrow> 'r \<Rightarrow> 'r option" where
  "decode_struct fds v r =
     (case v of JNull \<Rightarrow> Some r | JObject ms \<Rightarrow> decode_members fds ms r | _ \<Rightarrow> None)"

text \<open>\<open>json.Unmarshal\<close> into a struct, and \<open>Decode\<close> of a \<open>json.Decoder\<close>.\<close>

definition unmarshal_struct :: "'r field list \<Rightarrow> 'r \<Rightarrow> string \<Rightarrow> 'r option" where
  "unmarshal_struct fds zero s = Option.bind (only_value s) (\<lambda>v. decode_struct fds v zero)"

definition decode_first :: "'r field list \<Rightarrow> 'r \<Rightarrow> string \<Rightarrow> 'r option" where
  "decode_first fds zero s = Option.bind (first_value s) (\<lambda>v. decode_struct fds v zero)"

lemma unmarshal_object:
  assumes "\<forall>(k, x, v)\<in>set fs. reads_as x v" "fs \<noteq> []"
  shows "unmarshal_struct fds zero (object_text (map (\<lambda>(k, x, v). (k, x)) fs))
    = decode_members fds (map (\<lambda>(k, x, v). (quote_body k, v)) fs) zero"
  using parse_object [OF assms, of "[]"]
  by (simp add: unmarshal_struct_def only_value_def decode_struct_def)

end
