(* ===== verification/JsonValid.thy ===== *)
theory JsonValid
  imports JsonText
begin

text \<open>
  Whatever bytes \<open>encoding/json\<close> reads, the texts it hands out are valid UTF-8 and the numbers of an \<open>int\<close>
  field are an \<open>int64\<close>: string tokens are well escaped, the parser keeps that of every string, and
  unquoting a well-escaped string gives runes only.
\<close>

section \<open>Runes\<close>

text \<open>The bytes of one rune, whatever follows them.\<close>

definition is_rune :: "string \<Rightarrow> bool" where
  "is_rune r \<longleftrightarrow> r \<noteq> [] \<and> rune_size r = length r"

lemma valid_utf8_rune:
  assumes "is_rune r"
  shows "valid_utf8 (r @ t) \<longleftrightarrow> valid_utf8 t"
proof -
  obtain c s where r: "r = c # s" using assms by (cases r) (auto simp: is_rune_def)
  then have "rune_size (r @ t) = length r" using assms rune_size_append [of r t] by (simp add: is_rune_def)
  then show ?thesis by (simp add: r valid_utf8.simps(2) del: rune_size.simps)
qed

lemma is_rune_ascii: "code c < 0x80 \<Longrightarrow> is_rune [c]"
  by (simp add: is_rune_def)

lemma is_rune_take:
  assumes "0 < rune_size (c # s)"
  shows "is_rune (take (rune_size (c # s)) (c # s))"
proof -
  have "rune_size (take (rune_size (c # s)) (c # s)) = rune_size (c # s)" using assms by (auto split: list.splits if_splits)
  with assms rune_size_length [of "c # s"] show ?thesis by (auto simp: is_rune_def simp del: rune_size.simps)
qed

lemma is_rune_replacement: "is_rune replacement"
  by (simp add: is_rune_def replacement_def continues_def second_ok_def)

lemma is_rune_encode:
  assumes "n < 0x110000" "n < 0xD800 \<or> 0xE000 \<le> n"
  shows "is_rune (utf8_encode n)"
proof -
  consider "n < 0x80" | "0x80 \<le> n" "n < 0x800" | "0x800 \<le> n" "n < 0x10000" | "0x10000 \<le> n" by linarith
  then show ?thesis
  proof cases
    case 1
    then show ?thesis by (simp add: utf8_encode_def is_rune_def)
  next
    case 2
    then have "2 \<le> n div 64" "n div 64 < 32" by auto
    with 2 show ?thesis by (simp add: utf8_encode_def is_rune_def continues_def)
  next
    case 3
    then have lead: "n div 4096 < 16" by auto
    have "n div 4096 = n div 64 div 64" by (simp flip: div_mult2_eq)
    then have second: "n div 64 mod 64 < 64" "n div 64 = 64 * (n div 4096) + n div 64 mod 64" by simp_all
    have "32 \<le> n div 64" using 3 by auto
    moreover have "n div 64 < 864 \<or> 896 \<le> n div 64" using assms(2) by auto
    ultimately have "n div 4096 = 0 \<Longrightarrow> 32 \<le> n div 64 mod 64" "n div 4096 = 13 \<Longrightarrow> n div 64 mod 64 \<le> 31"
      using second by linarith+
    moreover have "n div 64 mod 64 \<le> 63" "n mod 64 \<le> 63" "n div 4096 = 0 \<Longrightarrow> n div 64 \<le> 63" using second by linarith+
    ultimately show ?thesis using 3 lead by (simp add: utf8_encode_def is_rune_def continues_def second_ok_def)
  next
    case 4
    then have lead: "n div 262144 \<le> 4" using assms(1) by auto
    have "n div 262144 = n div 4096 div 64" by (simp flip: div_mult2_eq)
    then have second: "n div 4096 mod 64 < 64" "n div 4096 = 64 * (n div 262144) + n div 4096 mod 64" by simp_all
    have "16 \<le> n div 4096" "n div 4096 < 272" using 4 assms(1) by auto
    then have "n div 262144 = 0 \<Longrightarrow> 16 \<le> n div 4096 mod 64" "n div 262144 = 4 \<Longrightarrow> n div 4096 mod 64 \<le> 15"
      using second by linarith+
    moreover have "n div 4096 mod 64 \<le> 63" "n div 64 mod 64 \<le> 63" "n mod 64 \<le> 63" "n div 262144 = 0 \<Longrightarrow> n div 4096 \<le> 63"
      using second mod_less_divisor [of 64 "n div 64"] mod_less_divisor [of 64 n] by linarith+
    ultimately show ?thesis using 4 lead by (simp add: utf8_encode_def is_rune_def continues_def second_ok_def)
  qed
qed

section \<open>Unquoted texts are valid\<close>

text \<open>The body of a string token: every escape is one of the grammar's.\<close>

fun well_escaped :: "string \<Rightarrow> bool" where
  "well_escaped [] = True"
| "well_escaped (c # s) =
     (if c = CHR 0x5C then
        (case s of
           [] \<Rightarrow> False
         | e # t \<Rightarrow>
             if e = CHR ''u''
             then (case t of
                     a # b # c' # d # t' \<Rightarrow> hex_val a \<noteq> None \<and> hex_val b \<noteq> None \<and> hex_val c' \<noteq> None \<and> hex_val d \<noteq> None
                       \<and> well_escaped t'
                   | _ \<Rightarrow> False)
             else code e < 0x80 \<and> well_escaped t)
      else well_escaped s)"

lemma string_body_escaped: "string_body s = Some (r, t) \<Longrightarrow> well_escaped r"
proof (induction s arbitrary: r t rule: string_body.induct)
  case (2 c s)
  consider (ends) "c = CHR 0x22" | (plain) "c \<noteq> CHR 0x22" "c \<noteq> CHR 0x5C" | (esc) "c = CHR 0x5C" by blast
  then show ?case
  proof cases
    case esc
    then obtain e u where s: "s = e # u" using "2.prems" by (cases s) auto
    show ?thesis
    proof (cases "e = CHR ''u''")
      case True
      with "2.prems" esc s obtain a b c' d v r' where v: "u = a # b # c' # d # v" "string_body v = Some (r', t)"
        "hex_val a \<noteq> None" "hex_val b \<noteq> None" "hex_val c' \<noteq> None" "hex_val d \<noteq> None" "r = c # e # a # b # c' # d # r'"
        by (auto split: list.splits if_splits)
      from "2.IH"(1) [OF _ esc s True v(1) refl refl refl _ v(2)] v(3-7) esc True show ?thesis by simp
    next
      case False
      with "2.prems" esc s obtain r' where r: "string_body u = Some (r', t)" "r = c # e # r'"
        "e \<in> set ''bfnrt/'' \<union> {CHR 0x5C, CHR 0x22}"
        by (auto split: if_splits)
      then have "code e < 0x80" by auto
      with "2.IH"(2) [OF _ esc s False r(3) r(1)] r(2) esc False show ?thesis by simp
    qed
  next
    case plain
    then obtain r' where "string_body s = Some (r', t)" "r = c # r'" "\<not> code c < 32"
      using "2.prems" by (auto split: if_splits)
    with "2.IH"(3) plain show ?thesis by simp
  qed (use "2.prems" in simp)
qed simp

lemma well_escaped_drop:
  "\<forall>c\<in>set (take n s). 0x80 \<le> code c \<Longrightarrow> well_escaped s \<Longrightarrow> well_escaped (drop n s)"
proof (induction n arbitrary: s)
  case (Suc n)
  show ?case
  proof (cases s)
    case (Cons c u)
    with Suc.prems(1) have "c \<noteq> CHR 0x5C" by auto
    with Suc Cons show ?thesis by simp
  qed simp
qed simp

lemma hex_val_less: "hex_val c = Some n \<Longrightarrow> n < 16"
  by (auto simp: hex_val_def Let_def split: if_splits)

text \<open>An escape of a code, the code, and what follows.\<close>

lemma escaped_rune_some:
  assumes "escaped_rune s = Some n" "well_escaped s"
  shows "n < 65536 \<and> well_escaped (drop 6 s)"
  using assms by (cases s rule: escaped_rune.cases) (auto split: if_splits option.splits dest!: hex_val_less)

lemma escaped_rune_none:
  assumes "escaped_rune (CHR 0x5C # s) = None" "well_escaped (CHR 0x5C # s)"
  obtains e t where "s = e # t" "code e < 0x80" "well_escaped t"
proof -
  obtain e t where s: "s = e # t" using assms(2) by (cases s) auto
  have "e \<noteq> CHR ''u''"
  proof
    assume e: "e = CHR ''u''"
    with assms(2) s obtain a b c d t' where "t = a # b # c # d # t'"
      "hex_val a \<noteq> None" "hex_val b \<noteq> None" "hex_val c \<noteq> None" "hex_val d \<noteq> None"
      by (auto split: list.splits)
    with assms(1) s e show False by auto
  qed
  with assms(2) s that show thesis by simp
qed

lemma unescape_ascii: "code e < 0x80 \<Longrightarrow> code (unescape e) < 0x80"
  by (simp add: unescape_def)

text \<open>One step of \<open>unquote\<close>: a rune comes out, and a shorter text is left.\<close>

definition unquotes_one :: "string \<Rightarrow> bool" where
  "unquotes_one s \<longleftrightarrow> (\<exists>r t. is_rune r \<and> unquote_body s = r @ unquote_body t \<and> well_escaped t \<and> length t < length s)"

lemma unquotes_oneI:
  "unquote_body s = r @ unquote_body t \<Longrightarrow> is_rune r \<Longrightarrow> well_escaped t \<Longrightarrow> length t < length s \<Longrightarrow> unquotes_one s"
  unfolding unquotes_one_def by blast

lemma unquotes_code:
  assumes hi: "escaped_rune (c # s) = Some hi" and esc: "c = CHR 0x5C" and ok: "well_escaped (c # s)"
  shows "unquotes_one (c # s)"
proof -
  note step = unquote_body.simps(2) [of c s]
  from escaped_rune_some [OF hi ok] have small: "hi < 65536" and rest: "well_escaped (drop 5 s)" by simp_all
  have short: "length (drop n s) < length (c # s)" for n by simp
  consider (pair) lo where "0xD800 \<le> hi" "hi < 0xDC00" "escaped_rune (drop 5 s) = Some lo" "0xDC00 \<le> lo \<and> lo < 0xE000"
    | (half) "0xD800 \<le> hi" "hi < 0xE000" "\<forall>lo. escaped_rune (drop 5 s) = Some lo \<longrightarrow> \<not> (hi < 0xDC00 \<and> 0xDC00 \<le> lo \<and> lo < 0xE000)"
    | (plain) "hi < 0xD800 \<or> 0xE000 \<le> hi"
    by fastforce
  then show ?thesis
  proof cases
    case pair
    let ?n = "0x10000 + (hi - 0xD800) * 1024 + (lo - 0xDC00)"
    have "unquote_body (c # s) = utf8_encode ?n @ unquote_body (drop 11 s)" unfolding step using esc hi pair by simp
    moreover have "is_rune (utf8_encode ?n)" using pair by (intro is_rune_encode) auto
    moreover have "well_escaped (drop 11 s)" using escaped_rune_some [OF pair(3) rest] by simp
    ultimately show ?thesis using short by (rule unquotes_oneI)
  next
    case half
    then have "unquote_body (c # s) = replacement @ unquote_body (drop 5 s)"
      unfolding step using esc hi by (auto split: option.split)
    then show ?thesis using is_rune_replacement rest short by (rule unquotes_oneI)
  next
    case plain
    then have "unquote_body (c # s) = utf8_encode hi @ unquote_body (drop 5 s)" unfolding step using esc hi by auto
    moreover have "is_rune (utf8_encode hi)" using plain small by (intro is_rune_encode) auto
    ultimately show ?thesis using rest short by (rule unquotes_oneI)
  qed
qed

lemma unquotes_rune:
  assumes plain: "c \<noteq> CHR 0x5C" and ok: "well_escaped (c # s)"
  shows "unquotes_one (c # s)"
proof (cases "rune_size (c # s) = 0")
  case True
  then have "unquote_body (c # s) = replacement @ unquote_body s"
    using plain by (simp add: unquote_body.simps(2) del: rune_size.simps)
  then show ?thesis using is_rune_replacement ok plain by (intro unquotes_oneI [of _ replacement s]) simp_all
next
  case size: False
  let ?n = "rune_size (c # s)"
  have "\<forall>x\<in>set (take (?n - 1) s). 0x80 \<le> code x"
  proof (cases "code c < 0x80")
    case False
    then have "set (take (?n - 1) s) \<subseteq> set (take ?n (c # s))" using size by (cases ?n) auto
    with rune_bytes_high [of c s] False show ?thesis by (auto simp del: rune_size.simps)
  qed simp
  moreover have "unquote_body (c # s) = take ?n (c # s) @ unquote_body (drop (?n - 1) s)"
    using plain size by (simp add: unquote_body.simps(2) Let_def del: rune_size.simps)
  moreover have "is_rune (take ?n (c # s))" using is_rune_take size by blast
  ultimately show ?thesis
    using ok plain by (intro unquotes_oneI [of _ "take ?n (c # s)" "drop (?n - 1) s"] well_escaped_drop) simp_all
qed

lemma unquotes_nonempty: "well_escaped (c # s) \<Longrightarrow> unquotes_one (c # s)"
proof (cases "c = CHR 0x5C \<and> escaped_rune (c # s) = None")
  case True
  assume "well_escaped (c # s)"
  with True obtain e t where s: "s = e # t" "code e < 0x80" "well_escaped t"
    using escaped_rune_none by metis
  moreover have "c = CHR 0x5C" "escaped_rune (c # e # t) = None" using True unfolding s(1) by blast+
  then have "unquote_body (c # s) = [unescape e] @ unquote_body t"
    unfolding s(1) unquote_body.simps(2) by simp
  ultimately show ?thesis
    using is_rune_ascii [OF unescape_ascii] by (intro unquotes_oneI [of _ "[unescape e]" t]) simp_all
next
  case False
  assume "well_escaped (c # s)"
  with False unquotes_rune unquotes_code show ?thesis by (meson not_None_eq)
qed

lemma unquote_valid: "well_escaped s \<Longrightarrow> valid_utf8 (unquote_body s)"
proof (induction s rule: length_induct)
  case (1 s)
  show ?case
  proof (cases s)
    case (Cons c u)
    from unquotes_nonempty "1.prems" obtain r t
      where "is_rune r" "unquote_body s = r @ unquote_body t" "well_escaped t" "length t < length s"
      unfolding Cons unquotes_one_def by blast
    with "1.IH" show ?thesis by (simp add: valid_utf8_rune)
  qed simp
qed

section \<open>The parser\<close>

text \<open>What the parser keeps of the values it builds: their immediate strings are well escaped.\<close>

definition string_ok :: "json \<Rightarrow> bool" where
  "string_ok v \<longleftrightarrow> (\<forall>raw. v = JString raw \<longrightarrow> well_escaped raw)"

definition members_ok :: "(string \<times> json) list \<Rightarrow> bool" where
  "members_ok ms \<longleftrightarrow> list_all (\<lambda>(k, v). string_ok v) ms"

definition value_ok :: "json \<Rightarrow> bool" where
  "value_ok v \<longleftrightarrow> string_ok v \<and> (\<forall>ms. v = JObject ms \<longrightarrow> members_ok ms)"

fun container_ok :: "container \<Rightarrow> bool" where
  "container_ok (InArray vs) = True"
| "container_ok (InObject ms) = members_ok ms"
| "container_ok (AtKey ms k) = members_ok ms"

fun progress_ok :: "progress \<Rightarrow> bool" where
  "progress_ok (Reading e st) = list_all container_ok st"
| "progress_ok (Complete v) = value_ok v"
| "progress_ok Malformed = True"

definition token_ok :: "token \<Rightarrow> bool" where
  "token_ok t \<longleftrightarrow> (\<forall>raw. t = StringToken raw \<longrightarrow> well_escaped raw)"

lemma next_token_ok: "next_token s = Some (t, r) \<Longrightarrow> token_ok t"
  by (auto simp: next_token_def token_ok_def dest: string_body_escaped split: list.splits if_splits)

lemma value_read_ok: "value_ok v \<Longrightarrow> list_all container_ok st \<Longrightarrow> progress_ok (value_read v st)"
  by (cases "(v, st)" rule: value_read.cases) (auto simp: value_ok_def members_ok_def)

lemma token_value_ok: "token_ok t \<Longrightarrow> token_value t = Some v \<Longrightarrow> value_ok v"
  by (cases t rule: token_value.cases) (auto simp: token_ok_def value_ok_def string_ok_def)

lemma close_ok:
  "list_all container_ok st \<Longrightarrow> progress_ok (close_array st)"
  "list_all container_ok st \<Longrightarrow> progress_ok (close_object st)"
  by (cases st rule: close_array.cases; cases st rule: close_object.cases;
      auto intro!: value_read_ok simp: value_ok_def string_ok_def)+

lemma parse_step_ok: "token_ok t \<Longrightarrow> list_all container_ok st \<Longrightarrow> progress_ok (parse_step t e st)"
proof -
  assume t: "token_ok t" and st: "list_all container_ok st"
  have begins: "progress_ok (begin_value t st)"
    using t st token_value_ok value_read_ok
    by (auto simp: begin_value_def open_container_def members_ok_def split: option.split)
  have keys: "progress_ok (key_read k st)" for k
    using st by (cases "(k, st)" rule: key_read.cases) auto
  have "progress_ok (after_value t st)"
    using st close_ok by (auto simp: after_value_def split: token.split list.split container.split)
  with begins keys close_ok st show ?thesis by (cases e) (auto split: token.split)
qed

lemma parse_from_ok: "parse_from e st s = Some (v, r) \<Longrightarrow> list_all container_ok st \<Longrightarrow> value_ok v"
proof (induction e st s rule: parse_from.induct)
  case (1 e st s)
  from "1.prems"(1) obtain t u where t: "next_token (dropWhile space s) = Some (t, u)"
    by (subst (asm) parse_from.simps) (auto split: option.splits)
  have ok: "progress_ok (parse_step t e st)" using parse_step_ok [OF next_token_ok [OF t]] "1.prems"(2) .
  show ?case
  proof (cases "parse_step t e st")
    case (Reading e' st')
    with "1.prems"(1) t have "parse_from e' st' u = Some (v, r)" by (subst (asm) parse_from.simps) simp
    with "1.IH" [OF t refl Reading] ok Reading show ?thesis by simp
  next
    case (Complete v')
    with "1.prems"(1) t ok show ?thesis by (subst (asm) parse_from.simps) simp
  next
    case Malformed
    with "1.prems"(1) t show ?thesis by (subst (asm) parse_from.simps) simp
  qed
qed

lemma first_value_ok: "first_value s = Some v \<Longrightarrow> value_ok v"
  by (auto simp: first_value_def dest: parse_from_ok)

lemma only_value_ok: "only_value s = Some v \<Longrightarrow> value_ok v"
  by (auto simp: only_value_def dest: parse_from_ok split: option.splits if_splits)

section \<open>Decoding\<close>

text \<open>A field that keeps an invariant of the struct, whatever value it is given.\<close>

definition field_keeps :: "('r \<Rightarrow> bool) \<Rightarrow> (json \<Rightarrow> 'r \<Rightarrow> 'r option) \<Rightarrow> bool" where
  "field_keeps I f \<longleftrightarrow> (\<forall>v r r'. string_ok v \<longrightarrow> I r \<longrightarrow> f v r = Some r' \<longrightarrow> I r')"

lemma keeps_text: "(\<And>s r. valid_utf8 s \<Longrightarrow> I r \<Longrightarrow> I (upd s r)) \<Longrightarrow> field_keeps I (text_field upd)"
  by (auto simp: field_keeps_def text_field_def string_ok_def unquote_valid split: json.splits)

lemma keeps_int: "(\<And>n r. int64 n \<Longrightarrow> I r \<Longrightarrow> I (upd n r)) \<Longrightarrow> field_keeps I (int_field upd)"
  by (auto simp: field_keeps_def int_field_def parse_int64_def Let_def split: json.splits if_splits prod.splits option.splits)

lemma decode_members_keeps:
  assumes "list_all (\<lambda>(n, f). field_keeps I f) fds"
  shows "members_ok ms \<Longrightarrow> I r \<Longrightarrow> decode_members fds ms r = Some r' \<Longrightarrow> I r'"
proof (induction ms arbitrary: r)
  case (Cons m ms)
  obtain k v where m: "m = (k, v)" by (metis surj_pair)
  have "field_keeps I f" if f: "field_named fds (unquote_body k) = Some f" for f
  proof -
    obtain n where "find (\<lambda>(n, f). fold_key n = fold_key (unquote_body k)) fds = Some (n, f)"
      using f by (auto simp: field_named_def)
    then have "(n, f) \<in> set fds" by (metis find_Some_iff nth_mem)
    with assms show ?thesis by (force simp: list_all_iff)
  qed
  with Cons m show ?case by (auto simp: members_ok_def field_keeps_def split: option.splits)
qed simp

lemma decode_struct_keeps:
  assumes "list_all (\<lambda>(n, f). field_keeps I f) fds" "value_ok v" "I zero" "decode_struct fds v zero = Some r"
  shows "I r"
  using assms(2-4) decode_members_keeps [OF assms(1)] by (auto simp: decode_struct_def value_ok_def split: json.splits)

lemma decode_first_keeps:
  assumes "list_all (\<lambda>(n, f). field_keeps I f) fds" "I zero" "decode_first fds zero s = Some r"
  shows "I r"
  using assms decode_struct_keeps first_value_ok by (fastforce simp: decode_first_def Option.bind_eq_Some_conv)

lemma unmarshal_struct_keeps:
  assumes "list_all (\<lambda>(n, f). field_keeps I f) fds" "I zero" "unmarshal_struct fds zero s = Some r"
  shows "I r"
  using assms decode_struct_keeps only_value_ok by (fastforce simp: unmarshal_struct_def Option.bind_eq_Some_conv)

end
