(* ===== verification/JsonRequests.thy ===== *)
theory JsonRequests
  imports CheckoutApi WaitingRoom JsonValid
begin

text \<open>
  The request bodies of \<open>checkout-api\<close> and \<open>waiting-room-api\<close>, from the bytes that \<open>r.Body\<close> holds:
  \<open>json.NewDecoder(r.Body).Decode(&req)\<close> on the struct of each handler.  \<open>None\<close> is the error that the
  handler answers with 400.
\<close>

definition checkout_fields :: "checkoutRequest field list" where
  "checkout_fields =
     [(''user_id'', text_field (\<lambda>s r. r\<lparr>req_UserID := s\<rparr>)), (''quantity'', int_field (\<lambda>n r. r\<lparr>req_Quantity := n\<rparr>))]"

definition decode_checkout :: "string \<Rightarrow> checkoutRequest option" where
  "decode_checkout body = decode_first checkout_fields \<lparr> req_UserID = [], req_Quantity = 0 \<rparr> body"

definition join_fields :: "joinRequest field list" where
  "join_fields = [(''user_id'', text_field (\<lambda>s r. r\<lparr>jq_UserID := s\<rparr>))]"

definition decode_join :: "string \<Rightarrow> joinRequest option" where
  "decode_join body = decode_first join_fields \<lparr> jq_UserID = [] \<rparr> body"

lemma decode_checkout_valid: "decode_checkout body = Some req \<Longrightarrow> valid_utf8 (req_UserID req) \<and> int64 (req_Quantity req)"
  unfolding decode_checkout_def
  by (rule decode_first_keeps [where I = "\<lambda>req. valid_utf8 (req_UserID req) \<and> int64 (req_Quantity req)"])
    (auto simp: checkout_fields_def int64_def int64_min_def int64_max_def intro!: keeps_text keeps_int)

lemma decode_join_valid: "decode_join body = Some req \<Longrightarrow> valid_utf8 (jq_UserID req)"
  unfolding decode_join_def
  by (rule decode_first_keeps [where I = "\<lambda>req. valid_utf8 (jq_UserID req)"]) (auto simp: join_fields_def intro!: keeps_text)

text \<open>The body that a client writes with the same tags.\<close>

definition checkout_text :: "checkoutRequest \<Rightarrow> string" where
  "checkout_text req = object_text [(''user_id'', quote (req_UserID req)), (''quantity'', int_text (req_Quantity req))]"

lemma decode_checkout_text:
  assumes "valid_utf8 (req_UserID req)" "int64 (req_Quantity req)"
  shows "decode_checkout (checkout_text req @ t) = Some req"
proof -
  let ?fs = "[(''user_id'', quote (req_UserID req), JString (quote_body (req_UserID req))),
     (''quantity'', int_text (req_Quantity req), JNumber (int_text (req_Quantity req)))]"
  have "\<forall>(k, x, v)\<in>set ?fs. reads_as x v" by (simp add: quote_reads int_reads)
  from parse_object [OF this, of t]
  have "first_value (checkout_text req @ t) = Some (JObject (map (\<lambda>(k, x, v). (quote_body k, v)) ?fs))"
    by (simp add: first_value_def checkout_text_def)
  moreover have "unquote_body (quote_body k) = k" if "k \<in> {''user_id'', ''quantity''}" for k
    using that by (elim insertE emptyE) (simp_all add: unquote_quote valid_utf8_ascii)
  ultimately show ?thesis
    by (simp add: decode_checkout_def decode_first_def decode_struct_def field_named_def checkout_fields_def
        text_field_def int_field_def unquote_quote assms parse_int64_int_text)
qed

definition join_text :: "joinRequest \<Rightarrow> string" where
  "join_text req = object_text [(''user_id'', quote (jq_UserID req))]"

lemma decode_join_text:
  assumes "valid_utf8 (jq_UserID req)"
  shows "decode_join (join_text req @ t) = Some req"
proof -
  let ?fs = "[(''user_id'', quote (jq_UserID req), JString (quote_body (jq_UserID req)))]"
  have "\<forall>(k, x, v)\<in>set ?fs. reads_as x v" by (simp add: quote_reads)
  from parse_object [OF this, of t]
  have "first_value (join_text req @ t) = Some (JObject (map (\<lambda>(k, x, v). (quote_body k, v)) ?fs))"
    by (simp add: first_value_def join_text_def)
  moreover have "unquote_body (quote_body ''user_id'') = ''user_id''" by (simp add: unquote_quote valid_utf8_ascii)
  ultimately show ?thesis
    by (simp add: decode_join_def decode_first_def decode_struct_def field_named_def join_fields_def
        text_field_def unquote_quote assms)
qed

end
