(* ===== verification/CheckoutMain.thy ===== *)
theory CheckoutMain
  imports Server Frames Sale JsonRequests
begin

text \<open>
  The process of \<open>cmd/checkout-api/main.go\<close>: connecting, the first pass over the counters, serving
  beside the scheduled passes, shutting down, the deferred calls.  Its goroutines are \<open>main\<close>, the server
  with its handlers, and \<open>runReconciler\<close>; \<open>checkout_next\<close> is one step of one of them, or a step of
  another service on the shared Redis and Postgres.  A handler runs as one step.  The lemmas show that
  nobody is served before the first pass is over, and what that pass spares the buyers.
\<close>

section \<open>The server\<close>

definition handleHealthz :: health_response where
  "handleHealthz = health ''checkout-api''"

record checkout_http =
  rq_method :: string
  rq_path :: "string list"
  rq_body :: string

text \<open>What a request is answered, by the handler it was routed to or by the router itself.\<close>

datatype checkout_answer =
    HealthAnswer health_response
  | CheckoutAnswer "checkoutResponse response"
  | AvailableAnswer "item_available response"
  | RouterAnswer int

fun answer_status :: "checkout_answer \<Rightarrow> int" where
  "answer_status (HealthAnswer r) = resp_status r"
| "answer_status (CheckoutAnswer r) = resp_status r"
| "answer_status (AvailableAnswer r) = resp_status r"
| "answer_status (RouterAnswer st) = st"

definition checkout_ServeHTTP ::
  "codec \<Rightarrow> pg_server \<Rightarrow> 'w services \<Rightarrow> writer \<Rightarrow> int \<Rightarrow> checkout_http \<Rightarrow> ('w, checkout_answer) io" where
  "checkout_ServeHTTP C S V wr admissionTTL rq =
     (case checkout_newServer (rq_method rq) (rq_path rq) of
        Inl st \<Rightarrow> ret (RouterAnswer st)
      | Inr CheckoutHealth \<Rightarrow> ret (HealthAnswer handleHealthz)
      | Inr (Checkout i) \<Rightarrow> do {
          r \<leftarrow> handleCheckout C V wr admissionTTL i (decode_checkout (rq_body rq));
          ret (CheckoutAnswer r)
        }
      | Inr (ReconcileItem i) \<Rightarrow> do {
          r \<leftarrow> handleReconcileItem S V i;
          ret (AvailableAnswer r)
        }
      | Inr (ItemInventory i) \<Rightarrow> do {
          r \<leftarrow> handleGetInventory V i;
          ret (AvailableAnswer r)
        })"

section \<open>The process\<close>

datatype checkout_phase =
    CkConnectRedis
  | CkConnectPostgres
  | CkSeed
  | CkStart
  | CkWait
  | CkShutdown
  | CkReturn
  | CkExit exit_status

fun exited :: "checkout_phase \<Rightarrow> bool" where
  "exited (CkExit n) = True"
| "exited _ = False"

text \<open>\<open>runReconciler\<close>: not started, about to make its ticker, in its loop, or returned.\<close>

datatype reconciler = RecAbsent | RecStarting | RecLoop | RecReturned

record 'w checkout_process =
  cp_phase :: checkout_phase
  cp_ctx_done :: bool
  cp_defers :: "resource list"
  cp_closed :: "resource list"
  cp_server :: "checkout_http http_server"
  cp_reconciler :: reconciler
  cp_seeded :: "(nat \<times> nat) option option"
  cp_answers :: "(checkout_http \<times> checkout_answer) list"
  cp_world :: 'w

definition checkout_start :: "'w \<Rightarrow> 'w checkout_process" where
  "checkout_start w =
     \<lparr> cp_phase = CkConnectRedis, cp_ctx_done = False, cp_defers = [SignalContext], cp_closed = [],
       cp_server = new_http_server, cp_reconciler = RecAbsent, cp_seeded = None, cp_answers = [], cp_world = w \<rparr>"

datatype checkout_event =
    CkRedisPing "goerr option"
  | CkPgOpen "goerr option" "goerr option"
  | CkSeedPass
  | CkStarted
  | CkListen "goerr option"
  | CkServeReturns goerr
  | CkArrive checkout_http
  | CkHandle checkout_http
  | CkReconcilerStarts
  | CkReconcilerTick
  | CkReconcilerStops
  | CkSignal
  | CkContextDone
  | CkShutdownReturns "goerr option"
  | CkDeferred
  | CkOtherCommand rcmd
  | CkOtherTx sale_op

text \<open>
  \<open>main\<close>, in the order of its lines: \<open>redisx.NewClient\<close>, \<open>pgdb.New\<close> and \<open>NewWriter\<close>, the first pass, the
  two goroutines, the wait for the signal, \<open>Shutdown\<close>, and the deferred calls one by one.
\<close>

fun checkout_main :: "pg_server \<Rightarrow> 'w services \<Rightarrow> checkout_config \<Rightarrow> checkout_event \<Rightarrow> 'w checkout_process
    \<Rightarrow> 'w checkout_process option" where
  "checkout_main S V cfg (CkRedisPing r) p =
     (if cp_phase p \<noteq> CkConnectRedis then None
      else case redis_NewClient (\<lambda>_. r) \<lparr> rc_Addr = chk_redisAddr cfg, rc_DialTimeout = 0, rc_ReadTimeout = 0,
                  rc_WriteTimeout = 0 \<rparr> of
        Inl err \<Rightarrow> Some (p\<lparr>cp_phase := CkExit 1\<rparr>)
      | Inr client \<Rightarrow> Some (p\<lparr>cp_phase := CkConnectPostgres, cp_defers := RedisClient # cp_defers p\<rparr>))"
| "checkout_main S V cfg (CkPgOpen o' r) p =
     (if cp_phase p \<noteq> CkConnectPostgres then None
      else case pgdb_New (\<lambda>_. o') (\<lambda>_. r) \<lparr> pg_DSN = chk_dsn cfg, pg_MaxOpenConns = 0, pg_MaxIdleConns = 0,
                  pg_ConnMaxLifetime = 0 \<rparr> of
        Inl err \<Rightarrow> Some (p\<lparr>cp_phase := CkExit 1\<rparr>)
      | Inr db \<Rightarrow> Some (p\<lparr>cp_phase := CkSeed, cp_defers := KafkaWriter # Database # cp_defers p\<rparr>))"
| "checkout_main S V cfg CkSeedPass p =
     (if cp_phase p \<noteq> CkSeed then None
      else case run_state (reconcileOnce S V) (cp_world p) of
        (r, w) \<Rightarrow> Some (p\<lparr>cp_phase := CkStart, cp_seeded := Some r, cp_world := w\<rparr>))"
| "checkout_main S V cfg CkStarted p =
     (if cp_phase p \<noteq> CkStart then None
      else Some (p\<lparr>cp_phase := CkWait, cp_reconciler := RecStarting, cp_server := new_http_server\<rparr>))"
| "checkout_main S V cfg CkContextDone p =
     (if cp_phase p = CkWait \<and> cp_ctx_done p
      then Some (p\<lparr>cp_phase := CkShutdown, cp_server := call_shutdown (cp_server p),
                   cp_defers := ShutdownTimer # cp_defers p\<rparr>)
      else None)"
| "checkout_main S V cfg (CkShutdownReturns r) p =
     (if cp_phase p = CkShutdown \<and> shutdown_may_return r (cp_server p)
      then Some (p\<lparr>cp_phase := CkReturn\<rparr>) else None)"
| "checkout_main S V cfg CkDeferred p =
     (if cp_phase p \<noteq> CkReturn then None
      else case cp_defers p of
        [] \<Rightarrow> Some (p\<lparr>cp_phase := CkExit 0\<rparr>)
      | r # rs \<Rightarrow> Some (p\<lparr>cp_defers := rs, cp_closed := cp_closed p @ [r]\<rparr>))"
| "checkout_main S V cfg _ p = None"

text \<open>
  The goroutine of the server: any error of \<open>ListenAndServe\<close> but \<open>ErrServerClosed\<close> is fatal.  It exists
  once \<open>main\<close> has started it.
\<close>

definition serve_started :: "'w checkout_process \<Rightarrow> bool" where
  "serve_started p \<longleftrightarrow> cp_phase p = CkWait \<or> cp_phase p = CkShutdown \<or> cp_phase p = CkReturn"

definition serve_ended :: "goerr option \<Rightarrow> 'w checkout_process \<Rightarrow> 'w checkout_process" where
  "serve_ended r p =
     (case r of
        None \<Rightarrow> p
      | Some err \<Rightarrow> if errors_is err ErrServerClosed then p else p\<lparr>cp_phase := CkExit 1\<rparr>)"

fun checkout_serving :: "codec \<Rightarrow> pg_server \<Rightarrow> 'w services \<Rightarrow> checkout_config \<Rightarrow> checkout_event
    \<Rightarrow> 'w checkout_process \<Rightarrow> 'w checkout_process option" where
  "checkout_serving C S V cfg (CkListen er) p =
     (if serve_started p \<and> serving (cp_server p) = ServeStarting
      then (case listen er (cp_server p) of (r, s) \<Rightarrow> Some (serve_ended r (p\<lparr>cp_server := s\<rparr>)))
      else None)"
| "checkout_serving C S V cfg (CkServeReturns err) p =
     (case serve_returns err (cp_server p) of
        None \<Rightarrow> None
      | Some s \<Rightarrow> Some (serve_ended (Some err) (p\<lparr>cp_server := s\<rparr>)))"
| "checkout_serving C S V cfg (CkArrive rq) p =
     (case accept_request rq (cp_server p) of
        None \<Rightarrow> None
      | Some s \<Rightarrow> Some (p\<lparr>cp_server := s\<rparr>))"
| "checkout_serving C S V cfg (CkHandle rq) p =
     (case finish_request rq (cp_server p) of
        None \<Rightarrow> None
      | Some s \<Rightarrow>
          (case run_state (checkout_ServeHTTP C S V (NewWriter (chk_brokers cfg)) (chk_admissionTTL cfg) rq) (cp_world p) of
             (a, w) \<Rightarrow> Some (p\<lparr>cp_server := s, cp_answers := cp_answers p @ [(rq, a)], cp_world := w\<rparr>)))"
| "checkout_serving C S V cfg _ p = None"

text \<open>
  The goroutine of \<open>runReconciler\<close>: \<open>time.NewTicker\<close> panics on an interval that is not positive, and
  nothing waits for the loop's return.
\<close>

fun checkout_reconciling :: "pg_server \<Rightarrow> 'w services \<Rightarrow> checkout_config \<Rightarrow> checkout_event
    \<Rightarrow> 'w checkout_process \<Rightarrow> 'w checkout_process option" where
  "checkout_reconciling S V cfg CkReconcilerStarts p =
     (if cp_reconciler p \<noteq> RecStarting then None
      else if chk_reconcileInterval cfg \<le> 0 then Some (p\<lparr>cp_phase := CkExit 2\<rparr>)
      else Some (p\<lparr>cp_reconciler := RecLoop\<rparr>))"
| "checkout_reconciling S V cfg CkReconcilerTick p =
     (if cp_reconciler p \<noteq> RecLoop then None
      else Some (p\<lparr>cp_world := snd (run_state (runReconciler S V [Tick]) (cp_world p))\<rparr>))"
| "checkout_reconciling S V cfg CkReconcilerStops p =
     (if cp_reconciler p = RecLoop \<and> cp_ctx_done p then Some (p\<lparr>cp_reconciler := RecReturned\<rparr>) else None)"
| "checkout_reconciling S V cfg _ p = None"

text \<open>The signal, and other processes on the shared services.\<close>

fun checkout_outside :: "pg_server \<Rightarrow> 'w services \<Rightarrow> checkout_event \<Rightarrow> 'w checkout_process
    \<Rightarrow> 'w checkout_process option" where
  "checkout_outside S V CkSignal p = Some (p\<lparr>cp_ctx_done := True\<rparr>)"
| "checkout_outside S V (CkOtherCommand c) p = Some (p\<lparr>cp_world := snd (redis_cmd V c (cp_world p))\<rparr>)"
| "checkout_outside S V (CkOtherTx x) p =
     Some (p\<lparr>cp_world := snd (run_state (sql V (\<lambda>e d. sale_step S x d)) (cp_world p))\<rparr>)"
| "checkout_outside S V _ p = None"

definition checkout_next :: "codec \<Rightarrow> pg_server \<Rightarrow> 'w services \<Rightarrow> checkout_config \<Rightarrow> checkout_event
    \<Rightarrow> 'w checkout_process \<Rightarrow> 'w checkout_process option" where
  "checkout_next C S V cfg ev p =
     (if exited (cp_phase p) then None
      else case checkout_main S V cfg ev p of
        Some p' \<Rightarrow> Some p'
      | None \<Rightarrow> (case checkout_serving C S V cfg ev p of
          Some p' \<Rightarrow> Some p'
        | None \<Rightarrow> (case checkout_reconciling S V cfg ev p of
            Some p' \<Rightarrow> Some p'
          | None \<Rightarrow> checkout_outside S V ev p)))"

definition checkout_run :: "codec \<Rightarrow> pg_server \<Rightarrow> 'w services \<Rightarrow> checkout_config \<Rightarrow> checkout_event list \<Rightarrow> 'w
    \<Rightarrow> 'w checkout_process option" where
  "checkout_run C S V cfg evs w = run_events (checkout_next C S V cfg) evs (checkout_start w)"

section \<open>Steps of the process\<close>

definition asks_item :: "string \<Rightarrow> checkout_http \<Rightarrow> bool" where
  "asks_item i rq \<longleftrightarrow> checkout_newServer (rq_method rq) (rq_path rq) = Inr (Checkout i)
     \<or> checkout_newServer (rq_method rq) (rq_path rq) = Inr (ItemInventory i)"

text \<open>What a run may hold: other services leave the counter of the item alone.\<close>

fun event_ok :: "string \<Rightarrow> checkout_event \<Rightarrow> bool" where
  "event_ok i (CkOtherCommand c) = (rcmd_key c \<noteq> InventoryKey i)"
| "event_ok i ev = True"

definition catalogued :: "db \<Rightarrow> db \<Rightarrow> bool" where
  "catalogued d0 d \<longleftrightarrow> schema_ok d \<and> catalogue d = catalogue d0"

lemma catalogued_active:
  assumes "catalogued d0 d" "it \<in> set (items d0)" "active it"
  shows "\<exists>it'\<in>set (items d). item_id it' = item_id it \<and> active it'"
proof -
  have "(item_id it, total_inventory it, item_status it) \<in> set (catalogue d)"
    using assms(1,2) by (force simp: catalogued_def catalogue_def)
  with assms(3) show ?thesis by (force simp: catalogue_def active_def)
qed

context platform
begin

lemma ServeHTTP_tables: "keeps (\<lambda>w. tables w = d) (checkout_ServeHTTP C S V wr ttl rq)"
  unfolding checkout_ServeHTTP_def handleReconcileItem_def handleGetInventory_def
  by (auto split: sum.split checkout_route.split)

lemma ServeHTTP_stocked:
  assumes run: "run_state (checkout_ServeHTTP C S V wr ttl rq) w = (a, w')"
    and "stocked (keys w) i" "schema_ok (tables w)"
  shows "stocked (keys w') i \<and> (asks_item i rq \<longrightarrow> answer_status a \<noteq> 404)"
proof (cases "checkout_newServer (rq_method rq) (rq_path rq)")
  case (Inl st)
  with run assms(2) show ?thesis by (auto simp: checkout_ServeHTTP_def asks_item_def)
next
  case (Inr route)
  note run' = run [unfolded checkout_ServeHTTP_def Inr sum.case]
  show ?thesis
  proof (cases route)
    case CheckoutHealth
    with run' Inr assms(2) show ?thesis by (auto simp: asks_item_def)
  next
    case (Checkout j)
    obtain r where r: "run_state (handleCheckout C V wr ttl j (decode_checkout (rq_body rq))) w = (r, w')" "a = CheckoutAnswer r"
      using run' Checkout by (auto split: prod.splits)
    have range: "int64 (req_Quantity req)" if "decode_checkout (rq_body rq) = Some req" for req
      using decode_checkout_valid that by blast
    have "stocked (keys w') i" by (rule checkout_stocked [OF r(1) assms(2)]) (rule range)
    moreover have "resp_status r \<noteq> 404" if "j = i"
      by (rule checkout_found [OF r(1) [unfolded that] assms(2)]) (rule range)
    ultimately show ?thesis using Inr Checkout r(2) by (auto simp: asks_item_def)
  next
    case (ReconcileItem j)
    obtain r where r: "run_state (handleReconcileItem S V j) w = (r, w')"
      using run' ReconcileItem by (auto split: prod.splits)
    have "stocked (keys w') i"
    proof (cases "j = []")
      case True
      with r assms(2) show ?thesis by (auto simp: handleReconcileItem_def)
    next
      case False
      then obtain x where "run_state (reconcile_Item S V j) w = (x, w')"
        using r by (auto simp: handleReconcileItem_def split: prod.splits)
      from Item_stocked [OF this assms(2,3)] show ?thesis .
    qed
    with Inr ReconcileItem show ?thesis by (auto simp: asks_item_def)
  next
    case (ItemInventory j)
    obtain r where r: "run_state (handleGetInventory V j) w = (r, w')" "a = AvailableAnswer r"
      using run' ItemInventory by (auto split: prod.splits)
    have "keeps (\<lambda>w. keys w (InventoryKey i) = Some (v, None)) (handleGetInventory V j)" for v
      unfolding handleGetInventory_def by (auto intro!: keeps_key_redisx)
    from keepsD [OF keeps_stocked [OF this] r(1) assms(2)] inventory_found [of j w r w'] r assms(2) Inr ItemInventory
    show ?thesis by (auto simp: asks_item_def)
  qed
qed

lemma reconcileOnce_tables: "keeps (\<lambda>w. tables w = d) (reconcileOnce S V)"
  by (auto simp: reconcileOnce_def)

lemma sale_sql_catalogued:
  assumes "uuid_io S" "catalogued d0 (tables w)"
  shows "catalogued d0 (tables (snd (run_state (sql V (\<lambda>e d. sale_step S x d)) w)))"
proof -
  obtain r w' where run: "run_state (sql V (\<lambda>e d. sale_step S x d)) w = (r, w')"
    by (cases "run_state (sql V (\<lambda>e d. sale_step S x d)) w")
  from sql_tables [OF run] have "tables w' = snd (sale_step S x (tables w))" by auto
  with run uuid_io.sale_step_ledger [OF assms(1), of "tables w" x] assms(2) show ?thesis
    by (simp add: catalogued_def)
qed

lemma other_command_stocked:
  assumes "rcmd_key c \<noteq> InventoryKey i" "stocked (keys w) i"
  shows "stocked (keys (snd (redis_cmd V c w))) i"
  using keeps_stocked [OF keeps_key_calls(1) [OF assms(1)]] assms(2) by (simp add: keeps_def)

lemma sql_stocked:
  assumes "stocked (keys w) i"
  shows "stocked (keys (snd (run_state (sql V f) w))) i"
  using keeps_stocked [of i "sql V f", OF keeps_key_sql] assms by (simp add: keeps_def)

lemma other_command_tables: "tables (snd (redis_cmd V c w)) = tables w"
  using keeps_tables_calls(1) by (simp add: keeps_def)

end

text \<open>Before the first pass is over nothing is served, and nothing but it has touched the counters.\<close>

definition early :: "checkout_phase \<Rightarrow> bool" where
  "early ph \<longleftrightarrow> ph = CkConnectRedis \<or> ph = CkConnectPostgres \<or> ph = CkSeed"

definition unserved :: "'w checkout_process \<Rightarrow> bool" where
  "unserved p \<longleftrightarrow> serving (cp_server p) = ServeStarting \<and> in_flight (cp_server p) = [] \<and> cp_answers p = []
     \<and> cp_reconciler p = RecAbsent"

definition boot_ok :: "'w checkout_process \<Rightarrow> bool" where
  "boot_ok p \<longleftrightarrow> (early (cp_phase p) \<longrightarrow> cp_seeded p = None)
     \<and> (cp_seeded p = None \<or> cp_phase p = CkStart \<longrightarrow> unserved p)
     \<and> (cp_seeded p = None \<longrightarrow> early (cp_phase p) \<or> exited (cp_phase p))"

lemma checkout_next_cases:
  assumes "checkout_next C S V cfg ev p = Some p'"
  obtains (main) "\<not> exited (cp_phase p)" "checkout_main S V cfg ev p = Some p'"
  | (serve) "\<not> exited (cp_phase p)" "checkout_serving C S V cfg ev p = Some p'"
  | (reconcile) "\<not> exited (cp_phase p)" "checkout_reconciling S V cfg ev p = Some p'"
  | (outside) "\<not> exited (cp_phase p)" "checkout_outside S V ev p = Some p'"
  using assms by (auto simp: checkout_next_def split: if_splits option.splits)

fun_cases checkout_mainE: "checkout_main S V cfg ev p = Some p'"
fun_cases checkout_servingE: "checkout_serving C S V cfg ev p = Some p'"
fun_cases checkout_reconcilingE: "checkout_reconciling S V cfg ev p = Some p'"
fun_cases checkout_outsideE: "checkout_outside S V ev p = Some p'"

lemma boot_ok_start: "boot_ok (checkout_start w)"
  by (simp add: boot_ok_def checkout_start_def early_def unserved_def new_http_server_def)

lemma boot_ok_main:
  assumes "checkout_main S V cfg ev p = Some p'" "boot_ok p"
  shows "boot_ok p'"
  using assms
  by (elim checkout_mainE)
    (auto simp: boot_ok_def early_def unserved_def server_defs
      split: if_splits option.splits sum.splits prod.splits list.splits)

lemma boot_ok_serving:
  assumes "checkout_serving C S V cfg ev p = Some p'" "boot_ok p" "\<not> exited (cp_phase p)"
  shows "boot_ok p'"
  using assms
  by (elim checkout_servingE)
    (auto simp: boot_ok_def early_def unserved_def server_defs serve_started_def serve_ended_def
      split: if_splits option.splits prod.splits)

lemma boot_ok_next:
  assumes "checkout_next C S V cfg ev p = Some p'" "boot_ok p"
  shows "boot_ok p'"
  using assms(1)
proof (cases rule: checkout_next_cases)
  case main
  from boot_ok_main [OF main(2) assms(2)] show ?thesis .
next
  case serve
  from boot_ok_serving [OF serve(2) assms(2) serve(1)] show ?thesis .
next
  case reconcile
  with assms(2) show ?thesis
    by (elim checkout_reconcilingE) (auto simp: boot_ok_def early_def unserved_def split: if_splits)
next
  case outside
  with assms(2) show ?thesis
    by (elim checkout_outsideE) (auto simp: boot_ok_def early_def unserved_def)
qed

definition answers_found :: "string \<Rightarrow> 'w checkout_process \<Rightarrow> bool" where
  "answers_found i p \<longleftrightarrow> (\<forall>(rq, a)\<in>set (cp_answers p). asks_item i rq \<longrightarrow> answer_status a \<noteq> 404)"

lemma serve_ended_sel [simp]:
  "cp_world (serve_ended r p) = cp_world p" "cp_answers (serve_ended r p) = cp_answers p"
  "cp_seeded (serve_ended r p) = cp_seeded p"
  by (simp_all add: serve_ended_def split: option.split)

lemma runReconciler_tick: "snd (run_state (runReconciler S V [Tick]) w) = snd (run_state (reconcileOnce S V) w)"
  by (simp split: prod.split)

text \<open>The invariant of a process over the keys and tables of its world.\<close>

definition seeded_inv :: "('w \<Rightarrow> store) \<Rightarrow> ('w \<Rightarrow> db) \<Rightarrow> db \<Rightarrow> string \<Rightarrow> 'w checkout_process \<Rightarrow> bool" where
  "seeded_inv keys tables d0 i p \<longleftrightarrow> boot_ok p \<and> catalogued d0 (tables (cp_world p))
     \<and> (\<forall>n. cp_seeded p = Some (Some (n, 0)) \<longrightarrow> stocked (keys (cp_world p)) i \<and> answers_found i p)"

context platform
begin

lemma next_catalogued:
  assumes "checkout_next C S V cfg ev p = Some p'" "uuid_io S" "catalogued d0 (tables (cp_world p))"
  shows "catalogued d0 (tables (cp_world p'))"
  using assms(1)
proof (cases rule: checkout_next_cases)
  case main
  with assms(3) keepsD [OF reconcileOnce_tables [where S = S]] show ?thesis
    by (elim checkout_mainE) (auto split: if_splits sum.splits prod.splits list.splits)
next
  case serve
  with assms(3) keepsD [OF ServeHTTP_tables [where S = S]] show ?thesis
    by (elim checkout_servingE) (auto split: if_splits option.splits prod.splits)
next
  case reconcile
  with assms(3) reconcileOnce_tables [where S = S] show ?thesis
    by (elim checkout_reconcilingE) (auto simp: runReconciler_tick keeps_def simp del: runReconciler.simps split: if_splits)
next
  case outside
  with assms(3) sale_sql_catalogued [OF assms(2)] show ?thesis
    by (elim checkout_outsideE) (auto simp: other_command_tables)
qed

lemma next_stocked:
  assumes "checkout_next C S V cfg ev p = Some p'" "event_ok i ev" "schema_ok (tables (cp_world p))"
    and "stocked (keys (cp_world p)) i" "answers_found i p"
  shows "stocked (keys (cp_world p')) i \<and> answers_found i p'"
  using assms(1)
proof (cases rule: checkout_next_cases)
  case main
  with assms(3-5) reconcileOnce_stocked [where S = S] show ?thesis
    by (elim checkout_mainE) (auto simp: answers_found_def split: if_splits sum.splits prod.splits list.splits)
next
  case serve
  show ?thesis
  proof (cases "\<exists>rq. ev = CkHandle rq")
    case True
    then obtain rq where rq: "ev = CkHandle rq" by blast
    then obtain s a w where fin: "finish_request rq (cp_server p) = Some s"
      and w: "run_state (checkout_ServeHTTP C S V (NewWriter (chk_brokers cfg)) (chk_admissionTTL cfg) rq) (cp_world p) = (a, w)"
      and p': "p' = p\<lparr>cp_server := s, cp_answers := cp_answers p @ [(rq, a)], cp_world := w\<rparr>"
      using serve(2) by (auto split: option.splits prod.splits)
    from ServeHTTP_stocked [OF w assms(4,3)] assms(2,5) show ?thesis
      unfolding p' rq by (auto simp: answers_found_def)
  next
    case False
    with serve assms(4,5) show ?thesis
      by (elim checkout_servingE) (auto simp: answers_found_def split: if_splits option.splits prod.splits)
  qed
next
  case reconcile
  with assms(3-5) reconcileOnce_stocked [where S = S, OF prod.collapse [symmetric]] show ?thesis
    by (elim checkout_reconcilingE)
      (auto simp: runReconciler_tick answers_found_def simp del: runReconciler.simps split: if_splits)
next
  case outside
  with assms(2,4,5) other_command_stocked sql_stocked show ?thesis
    by (elim checkout_outsideE) (auto simp: answers_found_def)
qed

text \<open>The step that ends the first pass.\<close>

lemma next_seeded:
  assumes "checkout_next C S V cfg ev p = Some p'" "cp_seeded p \<noteq> cp_seeded p'"
  shows "\<exists>r. cp_phase p = CkSeed \<and> cp_seeded p' = Some r \<and> cp_answers p' = cp_answers p
    \<and> run_state (reconcileOnce S V) (cp_world p) = (r, cp_world p')"
  using assms(1)
proof (cases rule: checkout_next_cases)
  case main
  with assms(2) show ?thesis
    by (elim checkout_mainE) (auto split: if_splits sum.splits prod.splits list.splits)
next
  case serve
  with assms(2) show ?thesis by (elim checkout_servingE) (auto split: if_splits option.splits prod.splits)
next
  case reconcile
  with assms(2) show ?thesis by (elim checkout_reconcilingE) (auto split: if_splits)
next
  case outside
  with assms(2) show ?thesis by (elim checkout_outsideE) auto
qed

lemma seeded_inv_next:
  assumes "checkout_next C S V cfg ev p = Some p'" "seeded_inv keys tables d0 (uuid_out S (item_id it)) p"
    and "event_ok (uuid_out S (item_id it)) ev" "uuid_io S" "it \<in> set (items d0)" "active it"
  shows "seeded_inv keys tables d0 (uuid_out S (item_id it)) p'"
proof -
  let ?i = "uuid_out S (item_id it)"
  have inv: "boot_ok p" "catalogued d0 (tables (cp_world p))" using assms(2) by (simp_all add: seeded_inv_def)
  have "stocked (keys (cp_world p')) ?i \<and> answers_found ?i p'" if seeded: "cp_seeded p' = Some (Some (n, 0))" for n
  proof (cases "cp_seeded p = cp_seeded p'")
    case True
    with assms(2) seeded have "stocked (keys (cp_world p)) ?i \<and> answers_found ?i p" by (simp add: seeded_inv_def)
    with next_stocked [OF assms(1,3)] inv(2) show ?thesis by (simp add: catalogued_def)
  next
    case False
    from next_seeded [OF assms(1) False] seeded
    have pass: "cp_phase p = CkSeed" "cp_answers p' = cp_answers p"
      "run_state (reconcileOnce S V) (cp_world p) = (Some (n, 0), cp_world p')" by auto
    obtain it' where it': "it' \<in> set (items (tables (cp_world p)))" "item_id it' = item_id it" "active it'"
      using catalogued_active [OF inv(2) assms(5,6)] by blast
    have "stocked (keys (cp_world p')) ?i"
      using reconcileOnce_stocks [OF pass(3) assms(4) _ it'(1,3)] inv(2) it'(2) by (simp add: catalogued_def)
    moreover have "cp_answers p' = []"
      using inv(1) pass(1,2) by (simp add: boot_ok_def early_def unserved_def)
    ultimately show ?thesis by (simp add: answers_found_def)
  qed
  with boot_ok_next [OF assms(1) inv(1)] next_catalogued [OF assms(1,4) inv(2)] show ?thesis
    by (simp add: seeded_inv_def)
qed

lemma seeded_run:
  assumes run: "checkout_run C S V cfg evs w = Some p" and "uuid_io S" "schema_ok (tables w)"
    and it: "it \<in> set (items (tables w))" "active it"
    and evs: "list_all (event_ok (uuid_out S (item_id it))) evs"
  shows "seeded_inv keys tables (tables w) (uuid_out S (item_id it)) p"
proof (rule run_events_invariant [OF run [unfolded checkout_run_def]])
  show "seeded_inv keys tables (tables w) (uuid_out S (item_id it)) (checkout_start w)"
    using assms(3) boot_ok_start [of w] by (simp add: seeded_inv_def catalogued_def checkout_start_def)
next
  fix ev q q' assume step: "checkout_next C S V cfg ev q = Some q'" and ev: "ev \<in> set evs"
    and inv: "seeded_inv keys tables (tables w) (uuid_out S (item_id it)) q"
  from ev evs have "event_ok (uuid_out S (item_id it)) ev" by (simp add: list_all_iff)
  from seeded_inv_next [OF step inv this assms(2) it] show "seeded_inv keys tables (tables w) (uuid_out S (item_id it)) q'" .
qed

end

section \<open>The way out\<close>

text \<open>
  What is open and what was closed in each phase: the process ends with status 0 only after it closed
  everything it opened, the last opened first, and after the signal.
\<close>

definition checkout_resources :: "resource list" where
  "checkout_resources = [ShutdownTimer, KafkaWriter, Database, RedisClient, SignalContext]"

fun defers_ok :: "checkout_phase \<Rightarrow> bool \<Rightarrow> resource list \<Rightarrow> resource list \<Rightarrow> bool" where
  "defers_ok CkConnectRedis stop open_res closed_res = (open_res = [SignalContext] \<and> closed_res = [])"
| "defers_ok CkConnectPostgres stop open_res closed_res = (open_res = [RedisClient, SignalContext] \<and> closed_res = [])"
| "defers_ok CkShutdown stop open_res closed_res = (open_res = checkout_resources \<and> closed_res = [] \<and> stop)"
| "defers_ok CkReturn stop open_res closed_res = (closed_res @ open_res = checkout_resources \<and> stop)"
| "defers_ok (CkExit n) stop open_res closed_res = (n = 0 \<longrightarrow> closed_res = checkout_resources \<and> stop)"
| "defers_ok _ stop open_res closed_res = (open_res = tl checkout_resources \<and> closed_res = [])"

lemma checkout_defers:
  assumes "checkout_run C S V cfg evs w = Some p"
  shows "defers_ok (cp_phase p) (cp_ctx_done p) (cp_defers p) (cp_closed p)"
proof (rule run_events_invariant [OF assms [unfolded checkout_run_def]])
  show "defers_ok (cp_phase (checkout_start w)) (cp_ctx_done (checkout_start w)) (cp_defers (checkout_start w))
      (cp_closed (checkout_start w))" by (simp add: checkout_start_def)
next
  fix ev and q q' :: "'a checkout_process"
  assume step: "checkout_next C S V cfg ev q = Some q'"
    and inv: "defers_ok (cp_phase q) (cp_ctx_done q) (cp_defers q) (cp_closed q)"
  from step show "defers_ok (cp_phase q') (cp_ctx_done q') (cp_defers q') (cp_closed q')"
  proof (cases rule: checkout_next_cases)
    case main
    with inv show ?thesis
      by (elim checkout_mainE)
        (auto simp: checkout_resources_def split: if_splits option.splits sum.splits prod.splits list.splits)
  next
    case serve
    with inv show ?thesis
      by (elim checkout_servingE) (auto simp: serve_ended_def split: if_splits option.splits prod.splits)
  next
    case reconcile
    with inv show ?thesis by (elim checkout_reconcilingE) (auto split: if_splits)
  next
    case outside
    with inv show ?thesis by (elim checkout_outsideE; cases "cp_phase q") auto
  qed
qed

lemma checkout_exit_closes:
  "checkout_run C S V cfg evs w = Some p \<Longrightarrow> cp_phase p = CkExit 0
    \<Longrightarrow> cp_ctx_done p \<and> cp_closed p = [ShutdownTimer, KafkaWriter, Database, RedisClient, SignalContext]"
  using checkout_defers by (fastforce simp: checkout_resources_def)

section \<open>Properties\<close>


definition demo_config :: checkout_config where
  "demo_config = checkout_main_config (\<lambda>_. None)"

definition demo_inventory_request :: checkout_http where
  "demo_inventory_request =
     \<lparr> rq_method = ''GET'', rq_path = [''items'', uuid_out canonical_server 7, ''inventory''], rq_body = [] \<rparr>"

definition demo_boot :: "checkout_event list" where
  "demo_boot = [CkRedisPing None, CkPgOpen None None, CkSeedPass, CkStarted, CkListen None,
     CkArrive demo_inventory_request, CkHandle demo_inventory_request]"

lemma demo_boot_pass:
  "fst (run_state (reconcileOnce canonical_server mem_services) mem_demo) = Some (1, 0)"
  by (simp add: reconcileOnce_def reconcile_All_def ActiveItemIDs_def mem_sql select_active_def mem_demo_def
      mem_five_def pop_def quiet_env_def Let_def demo_db_def demo_item_def active_def reconcile_Item_def
      select_available_def canonical.uuid_in_out SeedInventory_def mem_redis_def)

lemma demo_route:
  "checkout_newServer ''GET'' [''items'', i, ''inventory''] = Inr (ItemInventory i)"
  by (simp add: checkout_newServer_def)

lemma demo_boot_run:
  "\<exists>p a. checkout_run C canonical_server mem_services demo_config demo_boot mem_demo = Some p
    \<and> cp_seeded p = Some (Some (1, 0)) \<and> cp_answers p = [(demo_inventory_request, a)]"
proof -
  obtain w where w: "run_state (reconcileOnce canonical_server mem_services) mem_demo = (Some (1, 0), w)"
    using demo_boot_pass by (metis prod.collapse)
  show ?thesis
    by (simp add: checkout_run_def demo_boot_def checkout_next_def checkout_start_def redis_NewClient_def pgdb_New_def
        Let_def w server_defs serve_started_def serve_ended_def new_http_server_def split: prod.split)
qed


text \<open>
  The start-up pass is not a condition of serving: when it cannot list the items, \<open>main\<close> logs that and
  goes on, and the first request of an item on sale is answered that it is unknown.
\<close>

definition mem_cold :: mem where
  "mem_cold = mem_demo\<lparr>m_store := Map.empty,
     m_tx := [(quiet_env 0)\<lparr>fault := (\<lambda>pt. if pt = AtSelect then Some (PlainErr ''EOF'') else None)\<rparr>]\<rparr>"

theorem failed_seed_still_serves:
  "\<exists>p a. checkout_run text_codec canonical_server mem_services demo_config demo_boot mem_cold = Some p
    \<and> cp_seeded p = Some None \<and> cp_answers p = [(demo_inventory_request, a)] \<and> answer_status a = 404"
proof -
  have pass: "run_state (reconcileOnce canonical_server mem_services) mem_cold = (None, mem_cold\<lparr>m_tx := []\<rparr>)"
    by (simp add: reconcileOnce_def reconcile_All_def ActiveItemIDs_def mem_sql select_active_def mem_cold_def mem_demo_def
        mem_five_def pop_def quiet_env_def Let_def)
  have ne: "uuid_out canonical_server 7 \<noteq> []" by (simp add: canonical_server_def canonical_out_nonempty)
  have "\<exists>w r. run_state (handleGetInventory mem_services (uuid_out canonical_server 7)) (mem_cold\<lparr>m_tx := []\<rparr>) = (r, w)
      \<and> resp_status r = 404"
    using ne by (simp add: handleGetInventory_def go_defs mem_redis_def mem_cold_def mem_demo_def mem_five_def pop_def
        Let_def ErrInventoryNotFound_def status_defs)
  then obtain w r where get: "run_state (handleGetInventory mem_services (uuid_out canonical_server 7)) (mem_cold\<lparr>m_tx := []\<rparr>) = (r, w)"
    "resp_status r = 404" by blast
  have "run_state (checkout_ServeHTTP text_codec canonical_server mem_services wr ttl demo_inventory_request) (mem_cold\<lparr>m_tx := []\<rparr>)
      = (AvailableAnswer r, w)" for wr ttl
    by (simp add: checkout_ServeHTTP_def demo_inventory_request_def demo_route get)
  with get(2) show ?thesis
    by (simp add: checkout_run_def demo_boot_def checkout_next_def checkout_start_def redis_NewClient_def pgdb_New_def
        Let_def pass server_defs serve_started_def serve_ended_def new_http_server_def split: prod.split)
qed

end
