(* ===== verification/WaitingRoomMain.thy ===== *)
theory WaitingRoomMain
  imports Server JsonRequests "HOL-Library.Multiset"
begin

text \<open>
  The process of \<open>cmd/waiting-room-api/main.go\<close>.  Its goroutines are \<open>main\<close>, the server with its
  handlers, the loops of the registry's admitters, and one publisher per admitted buyer; \<open>room_main_step\<close>
  interleaves them.  A handler that waits in a line is split where it waits: it enters the line with
  \<open>For\<close> and the call of \<open>Join\<close> or \<open>Depth\<close>, the registry goes on by itself, and the handler runs to its end
  once its call has returned.  The lemmas say what \<open>main\<close> waited for when it ends.
\<close>

section \<open>The server\<close>

definition room_handleHealthz :: health_response where
  "room_handleHealthz = health ''waiting-room-api''"

text \<open>A request; the number tells requests apart that are otherwise the same.\<close>

record room_http =
  wq_number :: nat
  wq_method :: string
  wq_path :: "string list"
  wq_remoteAddr :: string
  wq_body :: string

datatype room_answer =
    RoomHealthAnswer health_response
  | JoinAnswer "joinResponse response option"
  | DepthAnswer "queueDepthResponse response"
  | RoomRouterAnswer int
  | PanicAnswer

text \<open>The line a request has to wait in, when its handler gets that far: its item, and whether it joins.\<close>

definition waits_in :: "room_http \<Rightarrow> (bool \<times> string) option" where
  "waits_in rq =
     (case waitingroom_newServer (wq_method rq) (wq_path rq) of
        Inr (JoinItem i) \<Rightarrow>
          (case decode_join (wq_body rq) of
             None \<Rightarrow> None
           | Some req \<Rightarrow> if i = [] \<or> jq_UserID req = [] then None else Some (True, i))
      | Inr (QueueDepth i) \<Rightarrow> if i = [] then None else Some (False, i)
      | _ \<Rightarrow> None)"

text \<open>
  A handler from its call to its answer, where \<open>joined\<close> and \<open>depth\<close> are what its call of \<open>Join\<close> or \<open>Depth\<close>
  returned.
\<close>

definition room_ServeHTTP ::
  "'w services \<Rightarrow> goerr + int \<Rightarrow> goerr + int \<Rightarrow> int \<Rightarrow> room_http \<Rightarrow> ('w, room_answer \<times> buyer_joined option) io" where
  "room_ServeHTTP V joined depth admissionTTL rq =
     (case waitingroom_newServer (wq_method rq) (wq_path rq) of
        Inl st \<Rightarrow> ret (RoomRouterAnswer st, None)
      | Inr WaitingRoomHealth \<Rightarrow> ret (RoomHealthAnswer room_handleHealthz, None)
      | Inr (JoinItem i) \<Rightarrow> do {
          (r, job) \<leftarrow> handleJoin V (\<lambda>_. ret joined) admissionTTL i (wq_remoteAddr rq) (decode_join (wq_body rq));
          ret (JoinAnswer r, job)
        }
      | Inr (QueueDepth i) \<Rightarrow> do {
          r \<leftarrow> handleQueueDepth V (\<lambda>_. ret depth) i;
          ret (DepthAnswer r, None)
        })"

definition errStopped :: goerr where
  "errStopped = SentinelErr ''admission: admitter has stopped''"

text \<open>What \<open>Join\<close> and \<open>Depth\<close> return, once they do.\<close>

fun join_result :: "join_phase option \<Rightarrow> (goerr + int) option" where
  "join_result (Some (Joined n)) = Some (Inr n)"
| "join_result (Some JoinCancelled) = Some (Inl ErrCanceled)"
| "join_result _ = None"

fun depth_result :: "depth_phase option \<Rightarrow> (goerr + int) option" where
  "depth_result (Some (DepthIs n)) = Some (Inr n)"
| "depth_result (Some DepthCancelled) = Some (Inl ErrCanceled)"
| "depth_result (Some DepthStopped) = Some (Inl errStopped)"
| "depth_result _ = None"

section \<open>The process\<close>

datatype room_phase =
    WrConnectRedis
  | WrStart
  | WrWait
  | WrShutdown
  | WrRegistry
  | WrPublishes
  | WrReturn
  | WrExit exit_status

text \<open>
  A handler in a line is at an admitter's \<open>Join\<close> or \<open>Depth\<close> call with a number of its own.  The program's
  state ends with \<open>wp_world\<close>; the rest records what it did: the answers with the events of the publishers
  they started, what each publisher published and whether the writer was open, and whether \<open>Shutdown\<close>
  returned without error.
\<close>

record 'w room_process =
  wp_phase :: room_phase
  wp_ctx_done :: bool
  wp_defers :: "resource list"
  wp_closed :: "resource list"
  wp_server :: "room_http http_server"
  wp_registry :: registry
  wp_in_line :: "(nat \<times> nat \<times> nat) list"
  wp_publishWG :: int
  wp_publishers :: "buyer_joined list"
  wp_world :: 'w
  wp_answers :: "(room_http \<times> room_answer \<times> buyer_joined option) list"
  wp_published :: "(buyer_joined \<times> bool) list"
  wp_clean :: bool

definition room_process_start :: "waitingroom_config \<Rightarrow> 'w \<Rightarrow> 'w room_process" where
  "room_process_start cfg w =
     \<lparr> wp_phase = WrConnectRedis, wp_ctx_done = False, wp_defers = [SignalContext], wp_closed = [],
       wp_server = new_http_server, wp_registry = NewRegistry (wrm_ratePerSecond cfg), wp_in_line = [],
       wp_publishWG = 0, wp_publishers = [], wp_world = w, wp_answers = [], wp_published = [], wp_clean = False \<rparr>"

fun room_exited :: "room_phase \<Rightarrow> bool" where
  "room_exited (WrExit n) = True"
| "room_exited _ = False"

subsection \<open>main\<close>

text \<open>\<open>main\<close> up to the wait for the signal, and from there to its return.\<close>

definition connect_redis :: "waitingroom_config \<Rightarrow> goerr option \<Rightarrow> 'w room_process \<Rightarrow> 'w room_process option" where
  "connect_redis cfg ping p =
     (if wp_phase p \<noteq> WrConnectRedis then None
      else case redis_NewClient (\<lambda>_. ping) \<lparr> rc_Addr = wrm_redisAddr cfg, rc_DialTimeout = 0, rc_ReadTimeout = 0,
                  rc_WriteTimeout = 0 \<rparr> of
        Inl err \<Rightarrow> Some (p\<lparr>wp_phase := WrExit 1\<rparr>)
      | Inr client \<Rightarrow> Some (p\<lparr>wp_phase := WrStart, wp_defers := KafkaWriter # RedisClient # wp_defers p\<rparr>))"

definition start_serving :: "waitingroom_config \<Rightarrow> 'w room_process \<Rightarrow> 'w room_process option" where
  "start_serving cfg p =
     (if wp_phase p \<noteq> WrStart then None
      else Some (p\<lparr>wp_phase := WrWait, wp_registry := NewRegistry (wrm_ratePerSecond cfg), wp_server := new_http_server\<rparr>))"

definition context_done :: "'w room_process \<Rightarrow> 'w room_process option" where
  "context_done p =
     (if wp_phase p = WrWait \<and> wp_ctx_done p
      then Some (p\<lparr>wp_phase := WrShutdown, wp_server := call_shutdown (wp_server p),
                   wp_defers := ShutdownTimer # wp_defers p\<rparr>)
      else None)"

definition shutdown_returns :: "goerr option \<Rightarrow> 'w room_process \<Rightarrow> 'w room_process option" where
  "shutdown_returns r p =
     (if wp_phase p = WrShutdown \<and> shutdown_may_return r (wp_server p)
      then Some (p\<lparr>wp_phase := WrRegistry, wp_clean := (r = None)\<rparr>) else None)"

definition registry_down :: "'w room_process \<Rightarrow> 'w room_process option" where
  "registry_down p =
     (if wp_phase p = WrRegistry \<and> Shutdown_registry (wp_registry p)
      then Some (p\<lparr>wp_phase := WrPublishes\<rparr>) else None)"

definition publishes_done :: "'w room_process \<Rightarrow> 'w room_process option" where
  "publishes_done p =
     (if wp_phase p = WrPublishes \<and> wp_publishWG p = 0
      then Some (p\<lparr>wp_phase := WrReturn\<rparr>) else None)"

definition run_deferred :: "'w room_process \<Rightarrow> 'w room_process option" where
  "run_deferred p =
     (if wp_phase p \<noteq> WrReturn then None
      else case wp_defers p of
        [] \<Rightarrow> Some (p\<lparr>wp_phase := WrExit 0\<rparr>)
      | r # rs \<Rightarrow> Some (p\<lparr>wp_defers := rs, wp_closed := wp_closed p @ [r]\<rparr>))"

lemmas room_main_defs =
  connect_redis_def start_serving_def context_done_def shutdown_returns_def registry_down_def publishes_done_def
  run_deferred_def

subsection \<open>Serving\<close>

definition room_serve_started :: "'w room_process \<Rightarrow> bool" where
  "room_serve_started p \<longleftrightarrow> wp_phase p \<noteq> WrConnectRedis \<and> wp_phase p \<noteq> WrStart"

text \<open>Any error of \<open>ListenAndServe\<close> but \<open>ErrServerClosed\<close> is fatal.\<close>

definition room_serve_ended :: "goerr option \<Rightarrow> 'w room_process \<Rightarrow> 'w room_process" where
  "room_serve_ended r p =
     (case r of
        None \<Rightarrow> p
      | Some err \<Rightarrow> if errors_is err ErrServerClosed then p else p\<lparr>wp_phase := WrExit 1\<rparr>)"

text \<open>The end of a handler: its answer, and the publisher it started after \<open>publishWG.Add(1)\<close>.\<close>

definition answered :: "room_http \<Rightarrow> room_answer \<Rightarrow> buyer_joined option \<Rightarrow> 'w room_process \<Rightarrow> 'w room_process" where
  "answered rq a job p =
     p\<lparr>wp_answers := wp_answers p @ [(rq, a, job)],
       wp_publishWG := wp_publishWG p + (case job of None \<Rightarrow> 0 | Some j \<Rightarrow> 1),
       wp_publishers := wp_publishers p @ (case job of None \<Rightarrow> [] | Some j \<Rightarrow> [j])\<rparr>"

text \<open>A publisher's run, up to its deferred \<open>publishWG.Done()\<close>.\<close>

definition published :: "buyer_joined \<Rightarrow> 'w \<Rightarrow> 'w room_process \<Rightarrow> 'w room_process" where
  "published job w p =
     p\<lparr>wp_world := w, wp_publishers := remove1 job (wp_publishers p), wp_publishWG := wp_publishWG p - 1,
       wp_published := wp_published p @ [(job, KafkaWriter \<notin> set (wp_closed p))]\<rparr>"

fun own_event :: "room_event \<Rightarrow> bool" where
  "own_event (JoinCalled r) = False"
| "own_event (DepthCalled k) = False"
| "own_event ev = True"

text \<open>
  A panic of \<open>NewAdmitter\<close> itself is in the handler, where \<open>net/http\<close> recovers it and drops the request; one of
  its loop's ticker is in a goroutine of its own and ends the process.
\<close>

inductive room_main_step ::
    "codec \<Rightarrow> 'w services \<Rightarrow> waitingroom_config \<Rightarrow> 'w room_process \<Rightarrow> 'w room_process \<Rightarrow> bool"
  for C V cfg where
  connects: "connect_redis cfg ping p = Some p' \<Longrightarrow> room_main_step C V cfg p p'"
| starts: "start_serving cfg p = Some p' \<Longrightarrow> room_main_step C V cfg p p'"
| ctx_ends: "context_done p = Some p' \<Longrightarrow> room_main_step C V cfg p p'"
| shut_down: "shutdown_returns r p = Some p' \<Longrightarrow> room_main_step C V cfg p p'"
| lines_down: "registry_down p = Some p' \<Longrightarrow> room_main_step C V cfg p p'"
| waited: "publishes_done p = Some p' \<Longrightarrow> room_main_step C V cfg p p'"
| defers_run: "run_deferred p = Some p' \<Longrightarrow> room_main_step C V cfg p p'"
| signalled: "\<not> room_exited (wp_phase p) \<Longrightarrow> registry_step CtxCancelled (wp_registry p) reg
    \<Longrightarrow> room_main_step C V cfg p (p\<lparr>wp_ctx_done := True, wp_registry := reg\<rparr>)"
| listens: "\<not> room_exited (wp_phase p) \<Longrightarrow> room_serve_started p \<Longrightarrow> serving (wp_server p) = ServeStarting
    \<Longrightarrow> listen er (wp_server p) = (r, s)
    \<Longrightarrow> room_main_step C V cfg p (room_serve_ended r (p\<lparr>wp_server := s\<rparr>))"
| serve_back: "\<not> room_exited (wp_phase p) \<Longrightarrow> serve_returns err (wp_server p) = Some s
    \<Longrightarrow> room_main_step C V cfg p (room_serve_ended (Some err) (p\<lparr>wp_server := s\<rparr>))"
| arrives: "\<not> room_exited (wp_phase p) \<Longrightarrow> accept_request rq (wp_server p) = Some s
    \<Longrightarrow> wq_number rq \<notin> wq_number ` set (in_flight (wp_server p))
    \<Longrightarrow> room_main_step C V cfg p (p\<lparr>wp_server := s\<rparr>)"
| answers_now: "\<not> room_exited (wp_phase p) \<Longrightarrow> waits_in rq = None \<Longrightarrow> finish_request rq (wp_server p) = Some s
    \<Longrightarrow> run_state (room_ServeHTTP V (Inl ErrCanceled) (Inl ErrCanceled) (wrm_admissionTTL cfg) rq) (wp_world p)
      = ((a, job), w)
    \<Longrightarrow> room_main_step C V cfg p (answered rq a job (p\<lparr>wp_server := s, wp_world := w\<rparr>))"
| enters: "\<not> room_exited (wp_phase p) \<Longrightarrow> waits_in rq = Some (joining, i) \<Longrightarrow> rq \<in> set (in_flight (wp_server p))
    \<Longrightarrow> wq_number rq \<notin> fst ` set (wp_in_line p) \<Longrightarrow> For i (wp_registry p) = (Inr a, reg)
    \<Longrightarrow> registry_step (In_room a (if joining then JoinCalled r else DepthCalled r)) reg reg'
    \<Longrightarrow> room_main_step C V cfg p (p\<lparr>wp_registry := reg', wp_in_line := (wq_number rq, a, r) # wp_in_line p\<rparr>)"
| handler_panics: "\<not> room_exited (wp_phase p) \<Longrightarrow> waits_in rq = Some (joining, i)
    \<Longrightarrow> wq_number rq \<notin> fst ` set (wp_in_line p) \<Longrightarrow> fst (For i (wp_registry p)) = Inl DivideByZero
    \<Longrightarrow> finish_request rq (wp_server p) = Some s
    \<Longrightarrow> room_main_step C V cfg p (answered rq PanicAnswer None (p\<lparr>wp_server := s\<rparr>))"
| loop_panics: "\<not> room_exited (wp_phase p) \<Longrightarrow> waits_in rq = Some (joining, i) \<Longrightarrow> rq \<in> set (in_flight (wp_server p))
    \<Longrightarrow> wq_number rq \<notin> fst ` set (wp_in_line p) \<Longrightarrow> fst (For i (wp_registry p)) = Inl NonPositiveTicker
    \<Longrightarrow> room_main_step C V cfg p (p\<lparr>wp_phase := WrExit 2\<rparr>)"
| line_moves: "\<not> room_exited (wp_phase p) \<Longrightarrow> registry_step (In_room a ev) (wp_registry p) reg \<Longrightarrow> own_event ev
    \<Longrightarrow> room_main_step C V cfg p (p\<lparr>wp_registry := reg\<rparr>)"
| leaves: "\<not> room_exited (wp_phase p) \<Longrightarrow> waits_in rq = Some (joining, i) \<Longrightarrow> finish_request rq (wp_server p) = Some s
    \<Longrightarrow> (wq_number rq, a, r) \<in> set (wp_in_line p)
    \<Longrightarrow> (if joining then join_result (joins (rooms (wp_registry p) ! a) r)
        else depth_result (asks (rooms (wp_registry p) ! a) r)) = Some res
    \<Longrightarrow> run_state (room_ServeHTTP V res res (wrm_admissionTTL cfg) rq) (wp_world p) = ((ans, job), w)
    \<Longrightarrow> room_main_step C V cfg p (answered rq ans job (p\<lparr>wp_server := s, wp_world := w,
          wp_in_line := filter (\<lambda>(n, _). n \<noteq> wq_number rq) (wp_in_line p)\<rparr>))"
| publishes: "\<not> room_exited (wp_phase p) \<Longrightarrow> job \<in> set (wp_publishers p)
    \<Longrightarrow> run_state (publish_joined C V (NewWaitingRoomWriter (wrm_brokers cfg)) job) (wp_world p) = ((), w)
    \<Longrightarrow> room_main_step C V cfg p (published job w p)"
| elsewhere: "\<not> room_exited (wp_phase p) \<Longrightarrow> redis_cmd V c (wp_world p) = (rr, w)
    \<Longrightarrow> room_main_step C V cfg p (p\<lparr>wp_world := w\<rparr>)"

text \<open>The states a process gets to.\<close>

inductive room_reaches :: "codec \<Rightarrow> 'w services \<Rightarrow> waitingroom_config \<Rightarrow> 'w \<Rightarrow> 'w room_process \<Rightarrow> bool"
  for C V cfg w where
  reaches_start: "room_reaches C V cfg w (room_process_start cfg w)"
| reaches_step: "room_reaches C V cfg w p \<Longrightarrow> room_main_step C V cfg p p' \<Longrightarrow> room_reaches C V cfg w p'"

section \<open>What a handler answers\<close>

text \<open>An answer of 200 to a join comes with the event that names the request's item and buyer.\<close>

definition answer_published :: "room_http \<Rightarrow> room_answer \<Rightarrow> buyer_joined option \<Rightarrow> bool" where
  "answer_published rq a job \<longleftrightarrow> (\<forall>resp. a = JoinAnswer (Some resp) \<longrightarrow> resp_status resp = 200 \<longrightarrow>
     (\<exists>i req t. waitingroom_newServer (wq_method rq) (wq_path rq) = Inr (JoinItem i) \<and> decode_join (wq_body rq) = Some req
        \<and> job = Some \<lparr> bj_ItemID = i, bj_UserID = jq_UserID req, bj_RemoteAddr = wq_remoteAddr rq, bj_JoinedAt = t \<rparr>))"

lemma room_ServeHTTP_published:
  assumes "run_state (room_ServeHTTP V joined depth ttl rq) w = ((a, job), w')"
  shows "answer_published rq a job"
proof (cases "waitingroom_newServer (wq_method rq) (wq_path rq)")
  case (Inl st)
  with assms show ?thesis by (auto simp: room_ServeHTTP_def answer_published_def)
next
  case (Inr route)
  show ?thesis
  proof (cases route)
    case (JoinItem i)
    obtain r where r: "run_state (handleJoin V (\<lambda>_. ret joined) ttl i (wq_remoteAddr rq) (decode_join (wq_body rq))) w = ((r, job), w')"
      "a = JoinAnswer r"
      using assms Inr JoinItem by (auto simp: room_ServeHTTP_def split: prod.splits)
    from r(1) show ?thesis
      by (cases rule: handleJoin_cases) (use r(2) Inr JoinItem in \<open>auto simp: answer_published_def\<close>)
  qed (use assms Inr in \<open>auto simp: room_ServeHTTP_def answer_published_def split: prod.splits\<close>)
qed

section \<open>Publishers\<close>

text \<open>
  The counter of \<open>publishWG\<close> is the number of publishers that run, and the events of all answers are those
  being published and those that were.
\<close>

definition answer_jobs :: "(room_http \<times> room_answer \<times> buyer_joined option) list \<Rightarrow> buyer_joined list" where
  "answer_jobs as = concat (map (\<lambda>(rq, a, job). case job of None \<Rightarrow> [] | Some j \<Rightarrow> [j]) as)"

definition publishers_ok :: "'w room_process \<Rightarrow> bool" where
  "publishers_ok p \<longleftrightarrow> wp_publishWG p = int (length (wp_publishers p))
     \<and> mset (answer_jobs (wp_answers p)) = mset (wp_publishers p) + mset (map fst (wp_published p))
     \<and> list_all (\<lambda>(rq, a, job). answer_published rq a job) (wp_answers p)"

lemma answered_ok:
  assumes "publishers_ok p" "answer_published rq a job"
  shows "publishers_ok (answered rq a job p)"
  using assms by (auto simp: publishers_ok_def answered_def answer_jobs_def split: option.split)

lemma published_ok:
  assumes "publishers_ok p" "job \<in> set (wp_publishers p)"
  shows "publishers_ok (published job w p)"
proof -
  have "1 \<le> length (wp_publishers p)" using assms(2) by (cases "wp_publishers p") auto
  then have "int (length (remove1 job (wp_publishers p))) = int (length (wp_publishers p)) - 1"
    using assms(2) by (simp add: length_remove1 of_nat_diff)
  with assms show ?thesis
    by (auto simp: publishers_ok_def published_def)
qed

lemma serve_ended_publishers: "publishers_ok p \<Longrightarrow> publishers_ok (room_serve_ended r p)"
  by (simp add: room_serve_ended_def publishers_ok_def split: option.split)

lemma publishers_step: "room_main_step C V cfg p p' \<Longrightarrow> publishers_ok p \<Longrightarrow> publishers_ok p'"
proof (induction rule: room_main_step.induct)
  case (listens p er r s)
  then show ?case by (intro serve_ended_publishers) (simp add: publishers_ok_def)
next
  case (serve_back p err s)
  then show ?case by (intro serve_ended_publishers) (simp add: publishers_ok_def)
next
  case (answers_now p rq s a job w)
  then show ?case by (intro answered_ok room_ServeHTTP_published) (auto simp: publishers_ok_def)
next
  case (handler_panics p rq joining i s)
  then show ?case by (intro answered_ok) (auto simp: publishers_ok_def answer_published_def)
next
  case (leaves p rq joining i s a r res ans job w)
  then show ?case by (intro answered_ok room_ServeHTTP_published) (auto simp: publishers_ok_def)
next
  case (publishes p job w)
  then show ?case by (intro published_ok)
qed (auto simp: room_main_defs publishers_ok_def split: if_splits option.splits sum.splits list.splits)

section \<open>The way out\<close>

definition room_resources :: "resource list" where
  "room_resources = [ShutdownTimer, KafkaWriter, RedisClient, SignalContext]"

fun room_defers_ok :: "room_phase \<Rightarrow> bool \<Rightarrow> resource list \<Rightarrow> resource list \<Rightarrow> bool" where
  "room_defers_ok WrConnectRedis stop open_res closed_res = (open_res = [SignalContext] \<and> closed_res = [])"
| "room_defers_ok WrStart stop open_res closed_res = (open_res = tl room_resources \<and> closed_res = [])"
| "room_defers_ok WrWait stop open_res closed_res = (open_res = tl room_resources \<and> closed_res = [])"
| "room_defers_ok WrReturn stop open_res closed_res = (closed_res @ open_res = room_resources \<and> stop)"
| "room_defers_ok (WrExit n) stop open_res closed_res = (n = 0 \<longrightarrow> closed_res = room_resources \<and> stop)"
| "room_defers_ok _ stop open_res closed_res = (open_res = room_resources \<and> closed_res = [] \<and> stop)"

lemma room_defers_step:
  "room_main_step C V cfg p p' \<Longrightarrow> room_defers_ok (wp_phase p) (wp_ctx_done p) (wp_defers p) (wp_closed p)
    \<Longrightarrow> room_defers_ok (wp_phase p') (wp_ctx_done p') (wp_defers p') (wp_closed p')"
proof (induction rule: room_main_step.induct)
  case (signalled p reg)
  then show ?case by (cases "wp_phase p") auto
qed (auto simp: room_main_defs room_resources_def room_serve_ended_def answered_def published_def
      split: if_splits option.splits sum.splits list.splits)

text \<open>
  What a \<open>Shutdown\<close> without an error gives: no handler is left, so the lines that have stopped stay all there
  are, no publisher is started any more, and none runs once \<open>publishWG.Wait\<close> has returned.
\<close>

fun shut :: "room_phase \<Rightarrow> bool" where
  "shut WrRegistry = True"
| "shut WrPublishes = True"
| "shut WrReturn = True"
| "shut (WrExit n) = True"
| "shut _ = False"

definition clean_ok :: "'w room_process \<Rightarrow> bool" where
  "clean_ok p \<longleftrightarrow>
     (wp_clean p \<longrightarrow> shut (wp_phase p) \<and> in_flight (wp_server p) = [] \<and> shutdown_called (wp_server p)
        \<and> list_all snd (wp_published p)
        \<and> (wp_phase p = WrPublishes \<or> wp_phase p = WrReturn \<or> wp_phase p = WrExit 0 \<longrightarrow> Shutdown_registry (wp_registry p))
        \<and> (wp_phase p = WrReturn \<or> wp_phase p = WrExit 0 \<longrightarrow> wp_publishers p = []))
   \<and> (\<not> shut (wp_phase p) \<longrightarrow> list_all snd (wp_published p))"

lemma room_step_loop_done: "room_step ev s s' \<Longrightarrow> loop_done (adm s) \<Longrightarrow> loop_done (adm s')"
  by (induction rule: room_step.induct) (auto simp: recv_join_def recv_tick_def recv_done_def split: list.split)

lemma in_room_shutdown:
  assumes "registry_step (In_room a ev) reg reg'" "Shutdown_registry reg"
  shows "Shutdown_registry reg'"
  using assms(1)
proof (rule registry_step_cases)
  fix b ev' s assume "In_room a ev = In_room b ev'" "reg' = reg\<lparr>rooms := (rooms reg)[b := s]\<rparr>"
    "b < length (rooms reg)" "room_step ev' (rooms reg ! b) s"
  then have in_room: "reg' = reg\<lparr>rooms := (rooms reg)[a := s]\<rparr>" "a < length (rooms reg)" "room_step ev (rooms reg ! a) s"
    by simp_all
  have "loop_done (adm (rooms reg' ! b))" if "loop_done (adm (rooms reg ! b))" for b
    using in_room that room_step_loop_done by (cases "b = a") auto
  with assms(2) in_room(1) show ?thesis by (fastforce simp: Shutdown_registry_def Shutdown_admitter_def list_all_iff)
qed simp_all

lemma cancel_shutdown:
  assumes "registry_step CtxCancelled reg reg'"
  shows "Shutdown_registry reg' = Shutdown_registry reg"
  using assms by (rule registry_step_cases) (simp_all add: Shutdown_registry_def)

lemma no_handler_left: "clean_ok p \<Longrightarrow> wp_clean p \<Longrightarrow> in_flight (wp_server p) = []"
  by (simp add: clean_ok_def)

lemma finish_some: "finish_request rq s = Some s' \<Longrightarrow> in_flight s \<noteq> []"
  by (auto simp: finish_request_def split: if_splits)

lemma clean_answered:
  assumes "clean_ok p" "\<not> wp_clean p"
  shows "clean_ok (answered rq a job (p\<lparr>wp_server := s\<rparr>))"
    "clean_ok (answered rq a job (p\<lparr>wp_server := s, wp_world := w\<rparr>))"
    "clean_ok (answered rq a job (p\<lparr>wp_server := s, wp_world := w, wp_in_line := ls\<rparr>))"
  using assms by (simp_all add: clean_ok_def answered_def)

lemma clean_step:
  assumes "room_main_step C V cfg p p'"
    and "clean_ok p" "publishers_ok p" "room_defers_ok (wp_phase p) (wp_ctx_done p) (wp_defers p) (wp_closed p)"
  shows "clean_ok p'"
  using assms
proof (induction rule: room_main_step.induct)
  case (connects ping p p')
  then show ?case by (auto simp: connect_redis_def clean_ok_def split: if_splits sum.splits)
next
  case (starts p p')
  then show ?case by (auto simp: start_serving_def clean_ok_def split: if_splits)
next
  case (ctx_ends p p')
  then show ?case by (auto simp: context_done_def clean_ok_def call_shutdown_def split: if_splits)
next
  case (shut_down r p p')
  then show ?case by (auto simp: shutdown_returns_def clean_ok_def shutdown_may_return_def split: if_splits)
next
  case (lines_down p p')
  then show ?case by (auto simp: registry_down_def clean_ok_def split: if_splits)
next
  case (waited p p')
  then show ?case by (auto simp: publishes_done_def clean_ok_def publishers_ok_def split: if_splits)
next
  case (defers_run p p')
  then show ?case by (auto simp: run_deferred_def clean_ok_def split: if_splits list.splits)
next
  case (signalled p reg)
  then show ?case by (simp add: clean_ok_def cancel_shutdown)
next
  case (listens p er r s)
  then show ?case
    by (auto simp: listen_def room_serve_ended_def clean_ok_def split: if_splits option.splits)
next
  case (serve_back p err s)
  then show ?case
    by (auto simp: serve_returns_def room_serve_ended_def clean_ok_def split: if_splits)
next
  case (arrives p rq s)
  then show ?case by (auto simp: accept_request_def clean_ok_def split: if_splits)
next
  case (answers_now p rq s a job w)
  have "\<not> wp_clean p" using no_handler_left [OF answers_now.prems(1)] finish_some [OF answers_now.hyps(3)] by auto
  with answers_now show ?case by (intro clean_answered)
next
  case (enters p rq joining i a reg r reg')
  have "\<not> wp_clean p" using no_handler_left [OF enters.prems(1)] enters.hyps(3) by auto
  with enters show ?case by (simp add: clean_ok_def)
next
  case (handler_panics p rq joining i s)
  have "\<not> wp_clean p" using no_handler_left [OF handler_panics.prems(1)] finish_some [OF handler_panics.hyps(5)] by auto
  with handler_panics show ?case by (intro clean_answered)
next
  case (loop_panics p rq joining i)
  have "\<not> wp_clean p" using no_handler_left [OF loop_panics.prems(1)] loop_panics.hyps(3) by auto
  with loop_panics show ?case by (simp add: clean_ok_def)
next
  case (line_moves p a ev reg)
  then show ?case using in_room_shutdown [OF line_moves.hyps(2)] unfolding clean_ok_def by simp
next
  case (leaves p rq joining i s a r res ans job w)
  have "\<not> wp_clean p" using no_handler_left [OF leaves.prems(1)] finish_some [OF leaves.hyps(3)] by auto
  with leaves show ?case by (intro clean_answered)
next
  case (publishes p job w)
  then have "wp_phase p \<noteq> WrReturn \<or> \<not> wp_clean p" by (auto simp: clean_ok_def)
  with publishes show ?case
    by (cases "wp_phase p") (auto simp: clean_ok_def published_def)
next
  case (elsewhere p c rr w)
  then show ?case by (simp add: clean_ok_def)
qed

text \<open>All of it in every state a process gets to.\<close>

lemma room_reaches_ok:
  assumes "room_reaches C V cfg w p"
  shows "publishers_ok p \<and> room_defers_ok (wp_phase p) (wp_ctx_done p) (wp_defers p) (wp_closed p) \<and> clean_ok p"
  using assms
proof (induction rule: room_reaches.induct)
  case reaches_start
  show ?case by (simp add: room_process_start_def publishers_ok_def answer_jobs_def clean_ok_def)
next
  case (reaches_step p p')
  then show ?case using publishers_step room_defers_step clean_step by blast
qed

section \<open>Properties\<close>

text \<open>
  C13.  A clean end of \<open>waiting-room-api\<close> loses no event.  When the process ends with status 0 after a
  \<open>Shutdown\<close> without error, it was told to stop, the loop of every line has exited, no handler is left,
  every answer of 200 to a join has its event for that buyer and item, all these events and no others
  were handed to the writer, each while it was open, and everything was closed in the reverse order of
  opening.
\<close>

theorem clean_exit_publishes_all:
  assumes "room_reaches C V cfg w p" "wp_phase p = WrExit 0" "wp_clean p"
  shows "wp_ctx_done p \<and> Shutdown_registry (wp_registry p) \<and> in_flight (wp_server p) = []
    \<and> (\<forall>rq resp job. (rq, JoinAnswer (Some resp), job) \<in> set (wp_answers p) \<longrightarrow> resp_status resp = 200 \<longrightarrow>
         (\<exists>i req t. waitingroom_newServer (wq_method rq) (wq_path rq) = Inr (JoinItem i) \<and> decode_join (wq_body rq) = Some req
            \<and> job = Some \<lparr> bj_ItemID = i, bj_UserID = jq_UserID req, bj_RemoteAddr = wq_remoteAddr rq, bj_JoinedAt = t \<rparr>))
    \<and> mset (map fst (wp_published p)) = mset (concat (map (\<lambda>(rq, a, job). case job of None \<Rightarrow> [] | Some j \<Rightarrow> [j]) (wp_answers p)))
    \<and> (\<forall>(j, open_writer)\<in>set (wp_published p). open_writer)
    \<and> wp_closed p = [ShutdownTimer, KafkaWriter, RedisClient, SignalContext]"
proof -
  note ok = room_reaches_ok [OF assms(1)]
  have "list_all (\<lambda>(rq, a, job). answer_published rq a job) (wp_answers p)"
    using ok by (simp add: publishers_ok_def)
  then have named: "answer_published rq (JoinAnswer (Some resp)) job"
    if "(rq, JoinAnswer (Some resp), job) \<in> set (wp_answers p)" for rq resp job
    using that by (auto simp: list_all_iff)
  have clean: "in_flight (wp_server p) = []" "Shutdown_registry (wp_registry p)" "wp_publishers p = []"
    "list_all snd (wp_published p)"
    using ok assms(2,3) by (simp_all add: clean_ok_def)
  have "mset (map fst (wp_published p)) = mset (answer_jobs (wp_answers p))"
    using ok clean(3) by (simp add: publishers_ok_def)
  moreover have "wp_ctx_done p" "wp_closed p = room_resources" using ok assms(2) by simp_all
  ultimately show ?thesis
    using clean named unfolding answer_published_def answer_jobs_def room_resources_def
    by (auto simp: list_all_iff)
qed

text \<open>One buyer comes, is let in by a tick and answered; its event is published; then the process is stopped.\<close>

definition demo_visit :: room_http where
  "demo_visit = \<lparr> wq_number = 0, wq_method = ''POST'', wq_path = [''items'', ''i'', ''join''],
     wq_remoteAddr = ''10.0.0.1:4242'', wq_body = join_text demo_join \<rparr>"

lemma demo_body: "decode_join (join_text \<lparr> jq_UserID = ''u'' \<rparr>) = Some \<lparr> jq_UserID = ''u'' \<rparr>"
  using decode_join_text [of "\<lparr> jq_UserID = ''u'' \<rparr>" "[]"] by (simp add: valid_utf8_ascii)

definition demo_room_config :: waitingroom_config where
  "demo_room_config = waitingroom_main_config (\<lambda>_. None)"

lemma demo_visit_waits: "waits_in demo_visit = Some (True, ''i'')"
  by (simp add: waits_in_def demo_visit_def demo_join_def demo_body waitingroom_newServer_def)

lemma demo_room_rate: "wrm_ratePerSecond demo_room_config = 5"
  by (simp add: demo_room_config_def waitingroom_main_config_def config_Int_def getenv_def Let_def)

lemma demo_visit_answer:
  "\<exists>resp job w. run_state (room_ServeHTTP mem_services (Inr 0) (Inr 0) (wrm_admissionTTL demo_room_config) demo_visit) mem_empty
      = ((JoinAnswer (Some resp), Some job), w) \<and> resp_status resp = 200"
  by (simp add: room_ServeHTTP_def demo_visit_def demo_join_def demo_body waitingroom_newServer_def handleJoin_def GrantAdmission_def
      mem_redis_def pop_def Let_def mem_empty_def mem_five_def duration_defs status_defs demo_room_config_def
      waitingroom_main_config_def config_Int_def getenv_def seconds_def wrap64_def)

lemma demo_line_run:
  "\<exists>s. room_run [JoinReceived 0, PositionRead 0, Ticked, AdmissionRead 0]
       (room_start\<lparr>joins := (joins room_start)(0 \<mapsto> Enqueueing)\<rparr>) s \<and> joins s 0 = Some (Joined 0)"
proof -
  let ?s1 = "room_start\<lparr>joins := (joins room_start)(0 \<mapsto> Enqueueing)\<rparr>"
  define s2 where "s2 = ?s1\<lparr>adm := recv_join 0 (adm ?s1), joins := (joins ?s1)(0 \<mapsto> AwaitingPosition)\<rparr>"
  define s3 where "s3 = s2\<lparr>joins := (joins s2)(0 \<mapsto> AwaitingAdmission 0)\<rparr>"
  define s4 where "s4 = s3\<lparr>adm := recv_tick (adm s3)\<rparr>"
  define s5 where "s5 = s4\<lparr>joins := (joins s4)(0 \<mapsto> Joined 0)\<rparr>"
  note defs = s2_def s3_def s4_def s5_def room_start_def admitter_start_def recv_join_def recv_tick_def
  have "room_step (JoinReceived 0) ?s1 s2" "room_step (PositionRead 0) s2 s3" "room_step Ticked s3 s4"
    "room_step (AdmissionRead 0) s4 s5"
    by (auto simp: room_step_simps defs)
  then have "room_run [JoinReceived 0, PositionRead 0, Ticked, AdmissionRead 0] ?s1 s5"
    by (intro room_run_Cons [OF room_run_Cons [OF room_run_Cons [OF room_run_Cons [OF run_none]]]])
  then show ?thesis by (intro exI [of _ s5]) (simp add: s5_def)
qed

lemma lines_move:
  assumes "registry_run (map (In_room a) evs) reg reg'" "room_reaches C V cfg w p" "wp_registry p = reg"
    "\<not> room_exited (wp_phase p)" "list_all own_event evs"
  shows "room_reaches C V cfg w (p\<lparr>wp_registry := reg'\<rparr>)"
  using assms
proof (induction "map (In_room a) evs" reg reg' arbitrary: evs p rule: registry_run.induct)
  case (reg_none reg)
  then have "p\<lparr>wp_registry := reg\<rparr> = p" by (cases p) simp
  with reg_none(2) show ?case by (simp only:)
next
  case (reg_more evs' reg reg' ev reg'')
  then obtain es e where es: "evs = es @ [e]" "evs' = map (In_room a) es" "ev = In_room a e"
    by (cases evs rule: rev_cases) auto
  from reg_more(2) [OF es(2) reg_more(5-7)] reg_more(8)
  have "room_reaches C V cfg w (p\<lparr>wp_registry := reg'\<rparr>)" by (simp add: es(1))
  moreover have "room_main_step C V cfg (p\<lparr>wp_registry := reg'\<rparr>)
      ((p\<lparr>wp_registry := reg'\<rparr>)\<lparr>wp_registry := reg''\<rparr>)"
    by (rule line_moves) (use reg_more(3,7,8) es in auto)
  ultimately show ?case by (auto dest: reaches_step)
qed


definition demo_process :: "room_phase \<Rightarrow> bool \<Rightarrow> resource list \<Rightarrow> resource list \<Rightarrow> room_http http_server \<Rightarrow> registry
    \<Rightarrow> (nat \<times> nat \<times> nat) list \<Rightarrow> buyer_joined list \<Rightarrow> mem \<Rightarrow> (room_http \<times> room_answer \<times> buyer_joined option) list
    \<Rightarrow> (buyer_joined \<times> bool) list \<Rightarrow> bool \<Rightarrow> mem room_process" where
  "demo_process ph stop ds cs srv reg ls js w as pb cl =
     \<lparr> wp_phase = ph, wp_ctx_done = stop, wp_defers = ds, wp_closed = cs, wp_server = srv, wp_registry = reg,
       wp_in_line = ls, wp_publishWG = int (length js), wp_publishers = js, wp_world = w, wp_answers = as,
       wp_published = pb, wp_clean = cl \<rparr>"

abbreviation demo_reaches :: "mem room_process \<Rightarrow> bool" where
  "demo_reaches \<equiv> room_reaches text_codec mem_services demo_room_config mem_empty"

lemma demo_up:
  "demo_reaches (demo_process WrWait False (tl room_resources) []
     \<lparr> serving = Serving, shutdown_called = False, in_flight = [demo_visit] \<rparr> (NewRegistry 5) [] [] mem_empty [] [] False)"
proof -
  let ?srv = "\<lparr> serving = Serving, shutdown_called = False, in_flight = [] \<rparr>"
  have 0: "demo_reaches (demo_process WrConnectRedis False [SignalContext] [] new_http_server (NewRegistry 5) [] [] mem_empty [] [] False)"
    using reaches_start [of text_codec mem_services demo_room_config mem_empty]
    by (simp add: room_process_start_def demo_process_def demo_room_rate)
  have 1: "demo_reaches (demo_process WrStart False (tl room_resources) [] new_http_server (NewRegistry 5) [] [] mem_empty [] [] False)"
    by (rule reaches_step [OF 0 connects [of _ None]])
      (simp add: connect_redis_def redis_NewClient_def Let_def demo_process_def room_resources_def)
  have 2: "demo_reaches (demo_process WrWait False (tl room_resources) [] new_http_server (NewRegistry 5) [] [] mem_empty [] [] False)"
    by (rule reaches_step [OF 1 starts]) (simp add: start_serving_def demo_process_def demo_room_rate)
  have "room_main_step text_codec mem_services demo_room_config
      (demo_process WrWait False (tl room_resources) [] new_http_server (NewRegistry 5) [] [] mem_empty [] [] False)
      (room_serve_ended None (demo_process WrWait False (tl room_resources) [] new_http_server (NewRegistry 5) [] [] mem_empty [] [] False
         \<lparr>wp_server := ?srv\<rparr>))"
    by (rule listens [of _ None]) (simp_all add: demo_process_def room_serve_started_def new_http_server_def listen_def)
  from reaches_step [OF 2 this]
  have 3: "demo_reaches (demo_process WrWait False (tl room_resources) [] ?srv (NewRegistry 5) [] [] mem_empty [] [] False)"
    by (simp add: room_serve_ended_def demo_process_def)
  have "room_main_step text_codec mem_services demo_room_config
      (demo_process WrWait False (tl room_resources) [] ?srv (NewRegistry 5) [] [] mem_empty [] [] False)
      (demo_process WrWait False (tl room_resources) [] ?srv (NewRegistry 5) [] [] mem_empty [] [] False
         \<lparr>wp_server := ?srv\<lparr>in_flight := [demo_visit]\<rparr>\<rparr>)"
    by (rule arrives [of _ demo_visit]) (simp_all add: demo_process_def accept_request_def)
  from reaches_step [OF 3 this] show ?thesis by (simp add: demo_process_def)
qed

lemma demo_served:
  "\<exists>s w resp job. demo_reaches (demo_process WrWait False (tl room_resources) []
       \<lparr> serving = Serving, shutdown_called = False, in_flight = [] \<rparr> ((demo_line [''i''])\<lparr>rooms := [s]\<rparr>) [] []
       w [(demo_visit, JoinAnswer (Some resp), Some job)] [(job, True)] False) \<and> resp_status resp = 200"
proof -
  let ?srv = "\<lparr> serving = Serving, shutdown_called = False, in_flight = [demo_visit] \<rparr>"
  let ?idle = "\<lparr> serving = Serving, shutdown_called = False, in_flight = [] \<rparr>"
  let ?s1 = "room_start\<lparr>joins := (joins room_start)(0 \<mapsto> Enqueueing)\<rparr>"
  let ?reg = "\<lambda>s. (demo_line [''i''])\<lparr>rooms := [s]\<rparr>"
  obtain s where s: "room_run [JoinReceived 0, PositionRead 0, Ticked, AdmissionRead 0] ?s1 s" "joins s 0 = Some (Joined 0)"
    using demo_line_run by blast
  obtain resp job w where ans: "run_state (room_ServeHTTP mem_services (Inr 0) (Inr 0) (wrm_admissionTTL demo_room_config) demo_visit) mem_empty
      = ((JoinAnswer (Some resp), Some job), w)" "resp_status resp = 200" using demo_visit_answer by blast
  let ?p0 = "demo_process WrWait False (tl room_resources) [] ?srv (NewRegistry 5) [] [] mem_empty [] [] False"
  have call: "registry_step (In_room 0 (if True then JoinCalled 0 else DepthCalled 0)) (demo_line [''i'']) (?reg ?s1)"
  proof -
    have "room_step (JoinCalled 0) room_start ?s1" by (rule join_called) (simp add: room_start_def)
    then have "registry_step (In_room 0 (JoinCalled 0)) (demo_line [''i''])
        ((demo_line [''i''])\<lparr>rooms := (rooms (demo_line [''i'']))[0 := ?s1]\<rparr>)"
      by (intro in_room) (simp_all add: demo_line_def)
    then show ?thesis by (simp add: demo_line_def)
  qed
  have "room_main_step text_codec mem_services demo_room_config ?p0
      (?p0\<lparr>wp_registry := ?reg ?s1, wp_in_line := (wq_number demo_visit, 0, 0) # wp_in_line ?p0\<rparr>)"
    by (rule enters [OF _ demo_visit_waits _ _ _ call]) (simp_all add: demo_process_def demo_line_For)
  from reaches_step [OF demo_up this]
  have 1: "demo_reaches (demo_process WrWait False (tl room_resources) [] ?srv (?reg ?s1) [(0, 0, 0)] [] mem_empty [] [] False)"
    by (simp add: demo_process_def demo_visit_def)
  have "registry_run (map (In_room 0) [JoinReceived 0, PositionRead 0, Ticked, AdmissionRead 0]) (?reg ?s1)
      ((?reg ?s1)\<lparr>rooms := (rooms (?reg ?s1))[0 := s]\<rparr>)"
    by (rule room_in_registry [OF s(1)]) simp_all
  from lines_move [OF this 1]
  have 2: "demo_reaches (demo_process WrWait False (tl room_resources) [] ?srv (?reg s) [(0, 0, 0)] [] mem_empty [] [] False)"
    by (simp add: demo_process_def)
  let ?p2 = "demo_process WrWait False (tl room_resources) [] ?srv (?reg s) [(0, 0, 0)] [] mem_empty [] [] False"
  have "room_main_step text_codec mem_services demo_room_config ?p2
      (answered demo_visit (JoinAnswer (Some resp)) (Some job) (?p2\<lparr>wp_server := ?idle, wp_world := w,
          wp_in_line := filter (\<lambda>(n, _). n \<noteq> wq_number demo_visit) (wp_in_line ?p2)\<rparr>))"
    by (rule leaves [OF _ demo_visit_waits, where a = 0 and r = 0 and res = "Inr 0"])
      (simp_all add: demo_process_def finish_request_def demo_visit_def [symmetric] s(2) ans(1),
       simp add: demo_visit_def)
  from reaches_step [OF 2 this]
  have 3: "demo_reaches (demo_process WrWait False (tl room_resources) [] ?idle (?reg s) [] [job] w
      [(demo_visit, JoinAnswer (Some resp), Some job)] [] False)"
    by (simp add: demo_process_def answered_def demo_visit_def)
  let ?p3 = "demo_process WrWait False (tl room_resources) [] ?idle (?reg s) [] [job] w
      [(demo_visit, JoinAnswer (Some resp), Some job)] [] False"
  obtain w' where pub: "run_state (publish_joined text_codec mem_services (NewWaitingRoomWriter (wrm_brokers demo_room_config)) job) w
      = ((), w')"
    by (cases "run_state (publish_joined text_codec mem_services (NewWaitingRoomWriter (wrm_brokers demo_room_config)) job) w") simp
  have "room_main_step text_codec mem_services demo_room_config ?p3 (published job w' ?p3)"
    by (rule publishes) (simp_all add: demo_process_def pub)
  from reaches_step [OF 3 this] ans(2) show ?thesis
    by (intro exI [of _ s] exI [of _ w'] exI [of _ resp] exI [of _ job]) (simp add: demo_process_def published_def)
qed

lemma demo_stopped:
  assumes "demo_reaches (demo_process WrWait False (tl room_resources) []
       \<lparr> serving = Serving, shutdown_called = False, in_flight = [] \<rparr> ((demo_line [''i''])\<lparr>rooms := [s]\<rparr>) [] [] w as pb False)"
  shows "\<exists>srv reg. demo_reaches (demo_process (WrExit 0) True [] room_resources srv reg [] [] w as pb True)"
proof -
  let ?srv = "\<lparr> serving = Serving, shutdown_called = False, in_flight = [] \<rparr>"
  let ?down = "\<lparr> serving = Serving, shutdown_called = True, in_flight = [] \<rparr>"
  let ?reg = "(demo_line [''i''])\<lparr>rooms := [s], ctx_done := True\<rparr>"
  let ?s' = "s\<lparr>adm := recv_done (adm s)\<rparr>"
  let ?p = "\<lambda>ph ds cs srv reg cl. demo_process ph True ds cs srv reg [] [] w as pb cl"
  have "room_main_step text_codec mem_services demo_room_config
      (demo_process WrWait False (tl room_resources) [] ?srv ((demo_line [''i''])\<lparr>rooms := [s]\<rparr>) [] [] w as pb False)
      (demo_process WrWait False (tl room_resources) [] ?srv ((demo_line [''i''])\<lparr>rooms := [s]\<rparr>) [] [] w as pb False
         \<lparr>wp_ctx_done := True, wp_registry := ((demo_line [''i''])\<lparr>rooms := [s]\<rparr>)\<lparr>ctx_done := True\<rparr>\<rparr>)"
    by (rule signalled) (simp_all add: demo_process_def ctx_cancelled)
  from reaches_step [OF assms this]
  have 1: "demo_reaches (?p WrWait (tl room_resources) [] ?srv ?reg False)" by (simp add: demo_process_def)
  have "room_step Stopped s ?s'" by (rule stopped)
  then have "registry_step (In_room 0 Stopped) ?reg (?reg\<lparr>rooms := (rooms ?reg)[0 := ?s']\<rparr>)"
    by (intro in_room) simp_all
  then have "room_main_step text_codec mem_services demo_room_config (?p WrWait (tl room_resources) [] ?srv ?reg False)
      ((?p WrWait (tl room_resources) [] ?srv ?reg False)\<lparr>wp_registry := ?reg\<lparr>rooms := (rooms ?reg)[0 := ?s']\<rparr>\<rparr>)"
    by (intro line_moves [of _ 0 Stopped]) (simp_all add: demo_process_def)
  from reaches_step [OF 1 this]
  have 2: "demo_reaches (?p WrWait (tl room_resources) [] ?srv (?reg\<lparr>rooms := [?s']\<rparr>) False)"
    by (simp add: demo_process_def)
  have 3: "demo_reaches (?p WrShutdown room_resources [] ?down (?reg\<lparr>rooms := [?s']\<rparr>) False)"
    by (rule reaches_step [OF 2 ctx_ends]) (simp add: context_done_def demo_process_def call_shutdown_def room_resources_def)
  have 4: "demo_reaches (?p WrRegistry room_resources [] ?down (?reg\<lparr>rooms := [?s']\<rparr>) True)"
    by (rule reaches_step [OF 3 shut_down [of None]]) (simp add: shutdown_returns_def demo_process_def shutdown_may_return_def)
  have 5: "demo_reaches (?p WrPublishes room_resources [] ?down (?reg\<lparr>rooms := [?s']\<rparr>) True)"
    by (rule reaches_step [OF 4 lines_down])
      (simp add: registry_down_def demo_process_def Shutdown_registry_def Shutdown_admitter_def demo_line_def recv_done_def)
  have 6: "demo_reaches (?p WrReturn room_resources [] ?down (?reg\<lparr>rooms := [?s']\<rparr>) True)"
    by (rule reaches_step [OF 5 waited]) (simp add: publishes_done_def demo_process_def)
  have close: "demo_reaches (?p WrReturn rs (cs @ [r]) ?down (?reg\<lparr>rooms := [?s']\<rparr>) True)"
    if "demo_reaches (?p WrReturn (r # rs) cs ?down (?reg\<lparr>rooms := [?s']\<rparr>) True)" for r rs cs
    by (rule reaches_step [OF that defers_run]) (simp add: run_deferred_def demo_process_def)
  from close [OF close [OF close [OF close [OF 6 [unfolded room_resources_def]]]]]
  have 7: "demo_reaches (?p WrReturn [] room_resources ?down (?reg\<lparr>rooms := [?s']\<rparr>) True)"
    by (simp add: room_resources_def)
  have "demo_reaches (?p (WrExit 0) [] room_resources ?down (?reg\<lparr>rooms := [?s']\<rparr>) True)"
    by (rule reaches_step [OF 7 defers_run]) (simp add: run_deferred_def demo_process_def)
  then show ?thesis by blast
qed

theorem clean_exit_publishes_all_witness:
  "\<exists>p resp job. room_reaches text_codec mem_services demo_room_config mem_empty p \<and> wp_phase p = WrExit 0 \<and> wp_clean p
    \<and> wp_answers p = [(demo_visit, JoinAnswer (Some resp), Some job)] \<and> bj_UserID job = jq_UserID demo_join
    \<and> map fst (wp_published p) = [job]"
proof -
  obtain s w resp job where served: "demo_reaches (demo_process WrWait False (tl room_resources) []
       \<lparr> serving = Serving, shutdown_called = False, in_flight = [] \<rparr> ((demo_line [''i''])\<lparr>rooms := [s]\<rparr>) [] []
       w [(demo_visit, JoinAnswer (Some resp), Some job)] [(job, True)] False)" "resp_status resp = 200"
    using demo_served by blast
  obtain srv reg where p: "demo_reaches (demo_process (WrExit 0) True [] room_resources srv reg [] [] w
      [(demo_visit, JoinAnswer (Some resp), Some job)] [(job, True)] True)"
    using demo_stopped [OF served(1)] by blast
  have "wp_phase (demo_process (WrExit 0) True [] room_resources srv reg [] [] w
      [(demo_visit, JoinAnswer (Some resp), Some job)] [(job, True)] True) = WrExit 0"
    "wp_clean (demo_process (WrExit 0) True [] room_resources srv reg [] [] w
      [(demo_visit, JoinAnswer (Some resp), Some job)] [(job, True)] True)"
    by (simp_all add: demo_process_def)
  from clean_exit_publishes_all [OF p this] served(2) p show ?thesis
    by (intro exI [of _ "demo_process (WrExit 0) True [] room_resources srv reg [] [] w
      [(demo_visit, JoinAnswer (Some resp), Some job)] [(job, True)] True"] exI [of _ resp] exI [of _ job])
      (auto simp: demo_process_def demo_visit_def demo_join_def demo_body)
qed

end
