(* ===== verification/JsonResponses.thy ===== *)
theory JsonResponses
  imports CheckoutMain WaitingRoomMain JsonText "HOL-Library.Char_ord" "HOL-Library.List_Lexorder"
begin

text \<open>
  The bodies of the HTTP responses as \<open>json.NewEncoder(w).Encode(v)\<close> writes them: one JSON object, with the
  members of a struct in the order of its fields and those of a Go map in the order of their keys, and a
  newline.
\<close>

section \<open>Objects of texts and integers\<close>

datatype field_value = TextValue string | IntValue int

fun value_text :: "field_value \<Rightarrow> string" where
  "value_text (TextValue s) = quote s"
| "value_text (IntValue n) = int_text n"

fun value_read_back :: "field_value \<Rightarrow> json" where
  "value_read_back (TextValue s) = JString (quote_body s)"
| "value_read_back (IntValue n) = JNumber (int_text n)"

definition encode_object :: "(string \<times> field_value) list \<Rightarrow> string" where
  "encode_object ms = object_text (map (\<lambda>(k, v). (k, value_text v)) ms) @ [char_of (10 :: nat)]"

lemma encode_object_reads:
  assumes "ms \<noteq> []"
  shows "only_value (encode_object ms) = Some (JObject (map (\<lambda>(k, v). (quote_body k, value_read_back v)) ms))"
proof -
  let ?fs = "map (\<lambda>(k, v). (k, value_text v, value_read_back v)) ms"
  have "reads_as (value_text v) (value_read_back v)" for v
    by (cases v) (simp_all add: quote_reads int_reads)
  then have "\<forall>(k, x, v)\<in>set ?fs. reads_as x v" by auto
  from parse_object [OF this, of "[char_of (10 :: nat)]"] assms show ?thesis
    by (simp add: encode_object_def only_value_def space_def comp_def split_def)
qed

text \<open>The names of the members of an object, in order, as a client reads them.\<close>

definition object_keys :: "string \<Rightarrow> string list option" where
  "object_keys t = (case only_value t of Some (JObject ms) \<Rightarrow> Some (map (\<lambda>(k, v). unquote_body k) ms) | _ \<Rightarrow> None)"

lemma object_keys_encode:
  assumes "ms \<noteq> []" "list_all (\<lambda>(k, v). \<forall>c\<in>set k. code c < 0x80) ms"
  shows "object_keys (encode_object ms) = Some (map fst ms)"
  using assms(2) by (auto simp: object_keys_def encode_object_reads [OF assms(1)] list_all_iff unquote_quote valid_utf8_ascii)

section \<open>The payloads\<close>

definition checkout_members :: "checkoutResponse \<Rightarrow> (string \<times> field_value) list" where
  "checkout_members r =
     [(''item_id'', TextValue (cr_ItemID r)), (''user_id'', TextValue (cr_UserID r)), (''quantity'', IntValue (cr_Quantity r)),
      (''remaining_inventory'', IntValue (cr_Remaining r)), (''idempotency_key'', TextValue (cr_IdempotencyKey r)),
      (''status'', TextValue (cr_Status r)), (''note'', TextValue (cr_Note r))]"

definition available_members :: "item_available \<Rightarrow> (string \<times> field_value) list" where
  "available_members r = [(''available'', IntValue (ia_available r)), (''item_id'', TextValue (ia_item_id r))]"

definition health_members :: "(string \<times> string) list \<Rightarrow> (string \<times> field_value) list" where
  "health_members b = sort_key fst (map (\<lambda>(k, s). (k, TextValue s)) b)"

definition join_members :: "joinResponse \<Rightarrow> (string \<times> field_value) list" where
  "join_members r =
     [(''item_id'', TextValue (jr_ItemID r)), (''user_id'', TextValue (jr_UserID r)), (''position'', IntValue (jr_Position r)),
      (''status'', TextValue (jr_Status r)), (''admission_ttl_seconds'', IntValue (jr_AdmissionTTLSeconds r))]"

definition depth_members :: "queueDepthResponse \<Rightarrow> (string \<times> field_value) list" where
  "depth_members r = [(''item_id'', TextValue (qd_ItemID r)), (''waiting'', IntValue (qd_Waiting r))]"

definition response_text :: "('b \<Rightarrow> (string \<times> field_value) list) \<Rightarrow> 'b response \<Rightarrow> string" where
  "response_text members r =
     (case resp_body r of
        ErrorResponse message \<Rightarrow> encode_object [(''error'', TextValue message)]
      | Payload b \<Rightarrow> encode_object (members b))"

text \<open>What a client reads: the members of the payload when the status is 200, otherwise \<open>error\<close>.\<close>

definition body_keys :: "string list \<Rightarrow> ('b \<Rightarrow> (string \<times> field_value) list) \<Rightarrow> 'b response \<Rightarrow> bool" where
  "body_keys ks members r \<longleftrightarrow>
     object_keys (response_text members r) = Some (if resp_status r = 200 then ks else [''error''])"

lemma response_keys:
  assumes "case resp_body r of Payload b \<Rightarrow> resp_status r = 200 | ErrorResponse message \<Rightarrow> resp_status r \<noteq> 200"
    and "\<And>b. resp_body r = Payload b \<Longrightarrow> map fst (members b) = ks" "ks \<noteq> []" "\<forall>k\<in>set ks. \<forall>c\<in>set k. code c < 0x80"
  shows "body_keys ks members r"
proof (cases "resp_body r")
  case (Payload b)
  note keys = assms(2) [OF Payload]
  then have "members b \<noteq> []" using assms(3) by auto
  moreover have "list_all (\<lambda>(k, v). \<forall>c\<in>set k. code c < 0x80) (members b)"
    using assms(4) unfolding keys [symmetric] by (auto simp: list_all_iff)
  ultimately show ?thesis
    using assms(1) keys Payload by (simp add: body_keys_def response_text_def object_keys_encode)
next
  case (ErrorResponse message)
  then show ?thesis using assms(1) by (simp add: body_keys_def response_text_def object_keys_encode)
qed

lemma health_text:
  "response_text health_members (health s) = encode_object [(''service'', TextValue s), (''status'', TextValue ''ok'')]"
  by (simp add: response_text_def health_def health_members_def less_char_def)

lemmas member_defs = checkout_members_def available_members_def join_members_def depth_members_def

end
