(* ===== verification/Responses.thy ===== *)
theory Responses
  imports JsonResponses
begin

text \<open>
  The shape of what the two HTTP services answer.  \<open>yields P m\<close> says that every result of the program \<open>m\<close>,
  in whatever world it runs, satisfies \<open>P\<close>; its rules follow the structure of a program.  The lemmas show
  that each route answers with one of its statuses, in JSON, with the body that belongs to the status.
\<close>

section \<open>Results of programs\<close>

definition yields :: "('a \<Rightarrow> bool) \<Rightarrow> ('w, 'a) io \<Rightarrow> bool" where
  "yields P m \<longleftrightarrow> (\<forall>w. P (fst (run_state m w)))"

lemma yieldsD: "yields P m \<Longrightarrow> run_state m w = (r, w') \<Longrightarrow> P r"
  unfolding yields_def by (metis fst_conv)

lemma yields_ret [simp]: "yields P (ret x) \<longleftrightarrow> P x"
  by (simp add: yields_def)

lemma yields_bind: "(\<And>x. yields P (f x)) \<Longrightarrow> yields P (State_Monad.bind m f)"
  by (auto simp: yields_def split: prod.split)

lemma yields_mono: "yields P m \<Longrightarrow> (\<And>x. P x \<Longrightarrow> Q x) \<Longrightarrow> yields Q m"
  by (auto simp: yields_def)

lemma yields_then: "yields P m \<Longrightarrow> (\<And>x. P x \<Longrightarrow> yields Q (f x)) \<Longrightarrow> yields Q (State_Monad.bind m f)"
  by (auto simp: yields_def split: prod.split) (metis fst_conv)

section \<open>Well-formed responses\<close>

text \<open>A JSON response with one of the given statuses; its body is a payload exactly when the status is 200.\<close>

definition json_response :: "int set \<Rightarrow> ('b \<Rightarrow> bool) \<Rightarrow> 'b response \<Rightarrow> bool" where
  "json_response statuses body_ok r \<longleftrightarrow> resp_status r \<in> statuses \<and> resp_content_type r = ''application/json''
     \<and> (case resp_body r of
          Payload b \<Rightarrow> resp_status r = 200 \<and> body_ok b
        | ErrorResponse message \<Rightarrow> resp_status r \<noteq> 200 \<and> message \<noteq> [])"

lemma json_response_write [simp]:
  "json_response sts P (WriteJSON st (Payload b)) \<longleftrightarrow> st \<in> sts \<and> st = 200 \<and> P b"
  "json_response sts P (WriteError st message) \<longleftrightarrow> st \<in> sts \<and> st \<noteq> 200 \<and> message \<noteq> []"
  by (auto simp: json_response_def WriteJSON_def WriteError_def)

lemma handleCheckout_response:
  "yields (json_response {200, 400, 403, 404, 409, 500, 503}
     (\<lambda>cr. cr_ItemID cr = i \<and> cr_Status cr = ''pending_confirmation''
        \<and> (\<exists>req. body = Some req \<and> cr_UserID cr = req_UserID req \<and> cr_Quantity cr = req_Quantity req \<and> 0 < req_Quantity req)))
     (handleCheckout C V wr ttl i body)"
  unfolding handleCheckout_def
  by (auto simp: status_defs intro!: yields_bind split: option.split sum.split)

lemma handleReconcileItem_response:
  "yields (json_response {200, 400, 404, 500} (\<lambda>a. ia_item_id a = i)) (handleReconcileItem S V i)"
  unfolding handleReconcileItem_def
  by (auto simp: status_defs intro!: yields_bind split: sum.split)

lemma handleGetInventory_response:
  "yields (json_response {200, 400, 404, 500} (\<lambda>a. ia_item_id a = i)) (handleGetInventory V i)"
  unfolding handleGetInventory_def
  by (auto simp: status_defs intro!: yields_bind split: sum.split)

lemma handleJoin_response:
  "yields (\<lambda>(out, job). case out of
       None \<Rightarrow> job = None
     | Some r \<Rightarrow> json_response {200, 400, 500}
         (\<lambda>jr. jr_ItemID jr = i \<and> jr_Status jr = ''admitted'' \<and> (\<exists>req. body = Some req \<and> jr_UserID jr = jq_UserID req)) r
         \<and> (job \<noteq> None \<longleftrightarrow> resp_status r = 200))
     (handleJoin V Join ttl i ra body)"
  unfolding handleJoin_def
  by (auto simp: status_defs intro!: yields_bind split: option.split sum.split)

lemma handleQueueDepth_response:
  "yields (json_response {200, 400, 500} (\<lambda>q. qd_ItemID q = i)) (handleQueueDepth V Depth i)"
  unfolding handleQueueDepth_def
  by (auto simp: status_defs intro!: yields_bind split: sum.split)

lemma health_response [simp]: "json_response {200} (\<lambda>b. b = [(''status'', ''ok''), (''service'', s)]) (health s)"
  by (simp add: health_def StatusOK_def)

section \<open>Well-formed answers\<close>

text \<open>What a request may be answered by the handler of its route, or by the router when it has none.\<close>

definition checkout_answer_ok :: "checkout_http \<Rightarrow> checkout_answer \<Rightarrow> bool" where
  "checkout_answer_ok rq a \<longleftrightarrow>
     (case (checkout_newServer (rq_method rq) (rq_path rq), a) of
        (Inl st, RouterAnswer st') \<Rightarrow> st' = st \<and> st \<in> {404, 405}
      | (Inr CheckoutHealth, HealthAnswer r) \<Rightarrow>
          json_response {200} (\<lambda>b. b = [(''status'', ''ok''), (''service'', ''checkout-api'')]) r
      | (Inr (Checkout i), CheckoutAnswer r) \<Rightarrow>
          json_response {200, 400, 403, 404, 409, 500, 503}
            (\<lambda>cr. cr_ItemID cr = i \<and> cr_Status cr = ''pending_confirmation''
               \<and> (\<exists>req. decode_checkout (rq_body rq) = Some req \<and> cr_UserID cr = req_UserID req \<and> cr_Quantity cr = req_Quantity req
                    \<and> 0 < req_Quantity req)) r
      | (Inr (ReconcileItem i), AvailableAnswer r) \<Rightarrow> json_response {200, 400, 404, 500} (\<lambda>b. ia_item_id b = i) r
      | (Inr (ItemInventory i), AvailableAnswer r) \<Rightarrow> json_response {200, 400, 404, 500} (\<lambda>b. ia_item_id b = i) r
      | _ \<Rightarrow> False)"

definition room_answer_ok :: "room_http \<Rightarrow> room_answer \<times> buyer_joined option \<Rightarrow> bool" where
  "room_answer_ok rq x \<longleftrightarrow>
     (case (waitingroom_newServer (wq_method rq) (wq_path rq), x) of
        (Inl st, (RoomRouterAnswer st', job)) \<Rightarrow> st' = st \<and> st \<in> {404, 405} \<and> job = None
      | (Inr WaitingRoomHealth, (RoomHealthAnswer r, job)) \<Rightarrow>
          json_response {200} (\<lambda>b. b = [(''status'', ''ok''), (''service'', ''waiting-room-api'')]) r \<and> job = None
      | (Inr (JoinItem i), (JoinAnswer None, job)) \<Rightarrow> job = None
      | (Inr (JoinItem i), (JoinAnswer (Some r), job)) \<Rightarrow>
          json_response {200, 400, 500} (\<lambda>jr. jr_ItemID jr = i \<and> jr_Status jr = ''admitted''
             \<and> (\<exists>req. decode_join (wq_body rq) = Some req \<and> jr_UserID jr = jq_UserID req)) r
          \<and> (job \<noteq> None \<longleftrightarrow> resp_status r = 200)
      | (Inr (QueueDepth i), (DepthAnswer r, job)) \<Rightarrow> json_response {200, 400, 500} (\<lambda>q. qd_ItemID q = i) r \<and> job = None
      | _ \<Rightarrow> False)"

text \<open>The bytes of an answer are one JSON object with these members, or \<open>error\<close> alone.\<close>

definition checkout_answer_json :: "checkout_answer \<Rightarrow> bool" where
  "checkout_answer_json a \<longleftrightarrow>
     (case a of
        HealthAnswer r \<Rightarrow> body_keys [''service'', ''status''] health_members r
      | CheckoutAnswer r \<Rightarrow>
          body_keys [''item_id'', ''user_id'', ''quantity'', ''remaining_inventory'', ''idempotency_key'', ''status'', ''note'']
            checkout_members r
      | AvailableAnswer r \<Rightarrow> body_keys [''available'', ''item_id''] available_members r
      | RouterAnswer st \<Rightarrow> True)"

definition room_answer_json :: "room_answer \<Rightarrow> bool" where
  "room_answer_json a \<longleftrightarrow>
     (case a of
        RoomHealthAnswer r \<Rightarrow> body_keys [''service'', ''status''] health_members r
      | JoinAnswer (Some r) \<Rightarrow>
          body_keys [''item_id'', ''user_id'', ''position'', ''status'', ''admission_ttl_seconds''] join_members r
      | DepthAnswer r \<Rightarrow> body_keys [''item_id'', ''waiting''] depth_members r
      | _ \<Rightarrow> True)"

lemma json_response_keys:
  assumes "json_response sts P r" "\<And>b. P b \<Longrightarrow> map fst (members b) = ks" "ks \<noteq> []" "\<forall>k\<in>set ks. \<forall>c\<in>set k. code c < 0x80"
  shows "body_keys ks members r"
  using assms by (intro response_keys) (auto simp: json_response_def split: payload.splits)

lemma health_keys:
  "json_response sts (\<lambda>b. b = [(''status'', x), (''service'', y)]) r \<Longrightarrow> body_keys [''service'', ''status''] health_members r"
  by (rule json_response_keys, assumption) (auto simp: health_members_def less_char_def)

lemma member_keys:
  "json_response sts P1 r1 \<Longrightarrow> body_keys [''item_id'', ''user_id'', ''quantity'', ''remaining_inventory'', ''idempotency_key'',
     ''status'', ''note''] checkout_members r1"
  "json_response sts P2 r2 \<Longrightarrow> body_keys [''available'', ''item_id''] available_members r2"
  "json_response sts P3 r3 \<Longrightarrow> body_keys [''item_id'', ''user_id'', ''position'', ''status'', ''admission_ttl_seconds'']
     join_members r3"
  "json_response sts P4 r4 \<Longrightarrow> body_keys [''item_id'', ''waiting''] depth_members r4"
  by (rule json_response_keys, assumption, auto simp: member_defs)+

lemma checkout_answer_ok_json: "checkout_answer_ok rq a \<Longrightarrow> checkout_answer_json a"
  by (cases a)
    (auto simp: checkout_answer_ok_def checkout_answer_json_def split: sum.splits checkout_route.splits
      intro: health_keys member_keys)

lemma room_answer_ok_json: "room_answer_ok rq (a, job) \<Longrightarrow> room_answer_json a"
  by (cases a)
    (auto simp: room_answer_ok_def room_answer_json_def split: sum.splits waitingroom_route.splits option.splits
      intro: health_keys member_keys)

lemma checkout_router: "checkout_newServer m path = Inl st \<Longrightarrow> st = 404 \<or> st = 405"
  by (auto simp: checkout_newServer_def status_defs Let_def split: list.splits if_splits)

lemma waitingroom_router: "waitingroom_newServer m path = Inl st \<Longrightarrow> st = 404 \<or> st = 405"
  by (auto simp: waitingroom_newServer_def status_defs Let_def split: list.splits if_splits)

lemma checkout_ServeHTTP_ok: "yields (checkout_answer_ok rq) (checkout_ServeHTTP C S V wr ttl rq)"
proof (cases "checkout_newServer (rq_method rq) (rq_path rq)")
  case (Inl st)
  with checkout_router [OF Inl] show ?thesis by (auto simp: checkout_ServeHTTP_def checkout_answer_ok_def)
next
  case (Inr route)
  then show ?thesis
    by (cases route) (simp_all add: checkout_ServeHTTP_def checkout_answer_ok_def handleHealthz_def
      yields_then [OF handleCheckout_response] yields_then [OF handleReconcileItem_response]
      yields_then [OF handleGetInventory_response])
qed

lemma room_ServeHTTP_ok: "yields (room_answer_ok rq) (room_ServeHTTP V joined depth ttl rq)"
proof (cases "waitingroom_newServer (wq_method rq) (wq_path rq)")
  case (Inl st)
  with waitingroom_router [OF Inl] show ?thesis by (auto simp: room_ServeHTTP_def room_answer_ok_def)
next
  case (Inr route)
  show ?thesis
  proof (cases route)
    case (JoinItem i)
    note route = Inr [unfolded JoinItem]
    show ?thesis
      unfolding room_ServeHTTP_def route sum.case waitingroom_route.case
    proof (rule yields_then [OF handleJoin_response])
      fix x :: "joinResponse response option \<times> buyer_joined option"
      assume "case x of (out, job) \<Rightarrow> case out of
           None \<Rightarrow> job = None
         | Some r \<Rightarrow> json_response {200, 400, 500}
             (\<lambda>jr. jr_ItemID jr = i \<and> jr_Status jr = ''admitted''
                \<and> (\<exists>req. decode_join (wq_body rq) = Some req \<and> jr_UserID jr = jq_UserID req)) r
             \<and> (job \<noteq> None \<longleftrightarrow> resp_status r = 200)"
      then show "yields (room_answer_ok rq) (case x of (r, job) \<Rightarrow> ret (JoinAnswer r, job))"
        by (cases x, cases "fst x") (simp_all add: room_answer_ok_def route)
    qed
  next
    case WaitingRoomHealth
    show ?thesis
      unfolding room_ServeHTTP_def Inr [unfolded WaitingRoomHealth] sum.case waitingroom_route.case
      by (simp add: room_answer_ok_def Inr WaitingRoomHealth room_handleHealthz_def)
  next
    case (QueueDepth i)
    show ?thesis
      unfolding room_ServeHTTP_def Inr [unfolded QueueDepth] sum.case waitingroom_route.case
      by (rule yields_then [OF handleQueueDepth_response]) (simp add: room_answer_ok_def Inr QueueDepth)
  qed
qed

section \<open>Properties\<close>


end
