(* ===== verification/GoTime.thy ===== *)
theory GoTime
  imports GoLib "HOL-Library.Monad_Syntax"
begin

text \<open>
  The part of package \<open>time\<close> behind the JSON of an event: \<open>Time.MarshalJSON\<close> of an instant in UTC and
  \<open>Time.UnmarshalJSON\<close>, that is \<open>Parse\<close> with the layout \<open>RFC3339\<close>.  The lemmas show that the calendar
  goes both ways, and that parsing undoes printing in the years 0 to 9999.
\<close>

section \<open>The calendar\<close>

definition leap_year :: "int \<Rightarrow> bool" where
  "leap_year y \<longleftrightarrow> y mod 4 = 0 \<and> (y mod 100 \<noteq> 0 \<or> y mod 400 = 0)"

definition days_in :: "int \<Rightarrow> int \<Rightarrow> int" where
  "days_in m y = (if m = 2 then (if leap_year y then 29 else 28) else if m \<in> {4, 6, 9, 11} then 30 else 31)"

text \<open>Days since 1970 of a date.\<close>

definition days_of_date :: "int \<Rightarrow> int \<Rightarrow> int \<Rightarrow> int" where
  "days_of_date y m d =
     (let yy = (if m \<le> 2 then y - 1 else y); yoe = yy mod 400; mp = (if m \<le> 2 then m + 9 else m - 3);
          doy = (153 * mp + 2) div 5 + d - 1
      in 146097 * (yy div 400) + 365 * yoe + yoe div 4 - yoe div 100 + doy - 719468)"

lemma month_cases:
  fixes doy :: int
  assumes "0 \<le> doy" "doy \<le> 365" "mp = (5 * doy + 2) div 153"
  shows "0 \<le> mp \<and> mp \<le> 11 \<and> (153 * mp + 2) div 5 \<le> doy
    \<and> doy - (153 * mp + 2) div 5 < (if mp = 11 then 29 else if mp \<in> {1, 3, 6, 8} then 30 else 31)"
proof -
  have "0 \<le> mp" "mp \<le> 11" using assms by auto
  then have "mp \<in> {0, 1, 2, 3, 4, 5, 6, 7, 8, 9, 10, 11}" by (simp, presburger)
  moreover have "153 * mp \<le> 5 * doy + 2" "5 * doy + 2 < 153 * mp + 153" using assms(3) by auto
  ultimately show ?thesis using assms(1,2) by auto
qed

text \<open>A day of the four-hundred-year era, split into centuries, leap cycles and years.\<close>

lemma year_of_era:
  fixes doe :: int
  assumes doe: "0 \<le> doe" "doe \<le> 146096"
    and defs: "century = min 3 (doe div 36524)" "doc = doe - 36524 * century" "doq = doc mod 1461"
      "year = min 3 (doq div 365)" "doy = doq - 365 * year" "yoe = 100 * century + 4 * (doc div 1461) + year"
  shows "0 \<le> century" "century \<le> 3" "century < 3 \<Longrightarrow> doc < 36524"
    and "0 \<le> doc div 1461" "doc div 1461 \<le> 24" "doc = 1461 * (doc div 1461) + doq" "doq \<le> 1460"
    and "0 \<le> year" "year \<le> 3" "0 \<le> doy" "doy \<le> 365" "year < 3 \<Longrightarrow> doy < 365"
    and "0 \<le> yoe" "yoe < 400" "yoe div 4 = 25 * century + doc div 1461" "yoe div 100 = century"
    and "doe = 36524 * century + 1461 * (doc div 1461) + 365 * year + doy"
proof -
  show century: "0 \<le> century" "century \<le> 3" "century < 3 \<Longrightarrow> doc < 36524"
    using doe by (auto simp: defs(1,2) min_def)
  have doc: "0 \<le> doc" "doc \<le> 36524" using doe by (auto simp: defs(1,2) min_def)
  show cycle: "0 \<le> doc div 1461" "doc div 1461 \<le> 24" "doc = 1461 * (doc div 1461) + doq" "doq \<le> 1460"
    using doc by (auto simp: defs(3))
  have "0 \<le> doq" by (simp add: defs(3))
  with cycle(4) show year: "0 \<le> year" "year \<le> 3" "0 \<le> doy" "doy \<le> 365" "year < 3 \<Longrightarrow> doy < 365"
    by (auto simp: defs(4,5) min_def)
  show "0 \<le> yoe" "yoe < 400" "yoe div 4 = 25 * century + doc div 1461" "yoe div 100 = century"
    using century cycle year by (auto simp: defs(6))
  show "doe = 36524 * century + 1461 * (doc div 1461) + 365 * year + doy"
    using cycle(3) unfolding defs(2,5) by linarith
qed

text \<open>The last day of a year that starts in March is the 29th of February, and then the year is a leap year.\<close>

lemma leap_day:
  fixes era :: int
  assumes "0 \<le> century" "0 \<le> c" "c \<le> 24" "c = 24 \<Longrightarrow> century = 3"
    and "y = 100 * century + 4 * c + 3 + 400 * era + 1"
  shows "leap_year y"
proof (cases "c = 24")
  case True
  with assms(4,5) have "y mod 400 = 0" "y mod 4 = 0" by simp_all
  then show ?thesis by (simp add: leap_year_def)
next
  case False
  have "y = (4 * c + 4) + 100 * (century + 4 * era)" using assms(5) by simp
  then have "y mod 100 = (4 * c + 4) mod 100" by (simp only: mod_mult_self2)
  then have "y mod 100 \<noteq> 0" using False assms(2,3) by simp
  moreover have "y mod 4 = 0" using assms(5) by simp
  ultimately show ?thesis by (simp add: leap_year_def)
qed

lemma civil_date_inverse:
  assumes "civil_date day = (y, m, d)"
  shows "days_of_date y m d = day \<and> 1 \<le> m \<and> m \<le> 12 \<and> 1 \<le> d \<and> d \<le> days_in m y
    \<and> 400 * ((day + 719468) div 146097) \<le> y \<and> y \<le> 400 * ((day + 719468) div 146097) + 400"
proof -
  define z where "z = day + 719468"
  define doe where "doe = z mod 146097"
  define century where "century = min 3 (doe div 36524)"
  define doc where "doc = doe - 36524 * century"
  define doq where "doq = doc mod 1461"
  define year where "year = min 3 (doq div 365)"
  define doy where "doy = doq - 365 * year"
  define yoe where "yoe = 100 * century + 4 * (doc div 1461) + year"
  define mp where "mp = (5 * doy + 2) div 153"
  note defs = z_def doe_def century_def doc_def doq_def year_def doy_def yoe_def mp_def
  have "0 \<le> doe" "doe \<le> 146096" by (simp_all add: doe_def)
  note era = year_of_era [OF this century_def doc_def doq_def year_def doy_def yoe_def]
  note month = month_cases [OF era(10,11) mp_def]
  have date: "m = (if mp < 10 then mp + 3 else mp - 9)" "y = yoe + 400 * (z div 146097) + (if m \<le> 2 then 1 else 0)"
    "d = doy - (153 * mp + 2) div 5 + 1"
    using assms unfolding civil_date_def Let_def defs [symmetric] by (auto split: if_splits)
  have m: "(if m \<le> 2 then y - 1 else y) = yoe + 400 * (z div 146097)" "(if m \<le> 2 then m + 9 else m - 3) = mp"
    using date(1,2) month by auto
  have "(yoe + 400 * (z div 146097)) mod 400 = yoe" "(yoe + 400 * (z div 146097)) div 400 = z div 146097"
    using era(13,14) by simp_all
  then have "days_of_date y m d = 146097 * (z div 146097) + 365 * yoe + yoe div 4 - yoe div 100
      + ((153 * mp + 2) div 5 + d - 1) - 719468"
    unfolding days_of_date_def m Let_def by simp
  moreover have "z = 146097 * (z div 146097) + doe" by (simp only: doe_def mult_div_mod_eq)
  ultimately have "days_of_date y m d = day"
    using era(15-17) date(3) z_def yoe_def by linarith
  moreover have "d \<le> days_in m y"
  proof (cases "mp = 11 \<and> doy = 365")
    case True
    then have "year = 3" using era(9,12) by linarith
    moreover from this True have "doq = 1460" by (simp add: doy_def)
    moreover have "century = 3" if "doc div 1461 = 24" using that \<open>doq = 1460\<close> era(2,3,6) by force
    ultimately have "leap_year y"
      using True date by (intro leap_day [OF era(1,4,5), of y "z div 146097"]) (simp_all add: yoe_def)
    with date True show ?thesis by (simp add: days_in_def)
  next
    case False
    with era(11) month date show ?thesis by (auto simp: days_in_def split: if_splits)
  qed
  ultimately show ?thesis using date month era(13,14) by (auto simp: z_def)
qed

section \<open>Printing and parsing\<close>

text \<open>\<open>Time.MarshalJSON\<close> without its quotes: the fraction is trimmed, and only years of four digits are printed.\<close>

definition time_text :: "int \<Rightarrow> string option" where
  "time_text t =
     (let secs = t div 10 ^ 9; (y, m, d) = civil_date (secs div 86400); s = nat (secs mod 86400)
      in if y < 0 \<or> 9999 < y then None
         else Some (pad_text 4 (nat y) @ ''-'' @ pad_text 2 (nat m) @ ''-'' @ pad_text 2 (nat d) @ ''T''
           @ pad_text 2 (s div 3600) @ '':'' @ pad_text 2 (s div 60 mod 60) @ '':'' @ pad_text 2 (s mod 60)
           @ frac_text 9 (nat (t mod 10 ^ 9)) @ ''Z''))"

text \<open>A number of a fixed count of digits, and a literal character.\<close>

definition read_fixed :: "nat \<Rightarrow> string \<Rightarrow> (nat \<times> string) option" where
  "read_fixed k s = (if length s < k then None else map_option (\<lambda>n. (n, drop k s)) (read_digits 0 (take k s)))"

definition skip_char :: "char \<Rightarrow> string \<Rightarrow> string option" where
  "skip_char c s = (case s of x # t \<Rightarrow> if x = c then Some t else None | [] \<Rightarrow> None)"

text \<open>The hour may have one digit.\<close>

definition read_hour :: "string \<Rightarrow> (nat \<times> string) option" where
  "read_hour s =
     (case s of
        [] \<Rightarrow> None
      | c # t \<Rightarrow> if \<not> is_digit c then None
                else (case t of
                        d # _ \<Rightarrow> if is_digit d then read_fixed 2 s else Some (digit_val c, t)
                      | [] \<Rightarrow> Some (digit_val c, t)))"

text \<open>A fraction after the seconds, cut off after nine digits, in nanoseconds.\<close>

definition read_frac :: "string \<Rightarrow> nat \<times> string" where
  "read_frac s =
     (case s of
        c # t \<Rightarrow>
          (let ds = takeWhile is_digit t; ds9 = take 9 ds
           in if (c = CHR ''.'' \<or> c = CHR '','') \<and> ds \<noteq> []
              then (case read_digits 0 ds9 of None \<Rightarrow> 0 | Some n \<Rightarrow> n * 10 ^ (9 - length ds9), dropWhile is_digit t)
              else (0, s))
      | [] \<Rightarrow> (0, s))"

text \<open>The offset of the zone in seconds; a zone ends the text.\<close>

definition read_zone :: "string \<Rightarrow> int option" where
  "read_zone s =
     (if s = ''Z'' then Some 0
      else case s of
        g # t \<Rightarrow>
          do {
            (hr, t1) \<leftarrow> read_fixed 2 t;
            t2 \<leftarrow> skip_char CHR '':'' t1;
            (mm, t3) \<leftarrow> read_fixed 2 t2;
            if t3 \<noteq> [] \<or> 24 < hr \<or> 60 < mm then None
            else if g = CHR ''+'' then Some (int (hr * 3600 + mm * 60))
            else if g = CHR ''-'' then Some (- int (hr * 3600 + mm * 60))
            else None
          }
      | [] \<Rightarrow> None)"

definition parse_time :: "string \<Rightarrow> int option" where
  "parse_time s = do {
     (y, s1) \<leftarrow> read_fixed 4 s;
     s2 \<leftarrow> skip_char CHR ''-'' s1;
     (m, s3) \<leftarrow> read_fixed 2 s2;
     s4 \<leftarrow> skip_char CHR ''-'' s3;
     (d, s5) \<leftarrow> read_fixed 2 s4;
     s6 \<leftarrow> skip_char CHR ''T'' s5;
     (hh, s7) \<leftarrow> read_hour s6;
     s8 \<leftarrow> skip_char CHR '':'' s7;
     (mm, s9) \<leftarrow> read_fixed 2 s8;
     s10 \<leftarrow> skip_char CHR '':'' s9;
     (ss, s11) \<leftarrow> read_fixed 2 s10;
     let (ns, s12) = read_frac s11;
     offset \<leftarrow> read_zone s12;
     if m < 1 \<or> 12 < m \<or> d < 1 \<or> days_in (int m) (int y) < int d \<or> 24 \<le> hh \<or> 60 \<le> mm \<or> 60 \<le> ss then None
     else Some ((days_of_date (int y) (int m) (int d) * 86400 + int (hh * 3600 + mm * 60 + ss) - offset) * 10 ^ 9 + int ns)
   }"

lemma length_pad_text [simp]: "length (pad_text k n) = k"
  by (induction k arbitrary: n) simp_all

lemma read_digits_pad: "n < 10 ^ k \<Longrightarrow> read_digits 0 (pad_text k n) = Some n"
proof (induction k arbitrary: n)
  case (Suc k)
  then have "n div 10 < 10 ^ k" by (simp add: less_mult_imp_div_less mult.commute)
  with Suc.IH show ?case by (simp add: read_digits_append is_digit_digit_char digit_val_digit_char)
qed simp

lemma read_fixed_pad: "n < 10 ^ k \<Longrightarrow> read_fixed k (pad_text k n @ s) = Some (n, s)"
  by (simp add: read_fixed_def read_digits_pad)

lemma skip_char_same [simp]: "skip_char c (c # s) = Some s"
  by (simp add: skip_char_def)

lemma pad_text_digits: "c \<in> set (pad_text k n) \<Longrightarrow> is_digit c"
  by (induction k arbitrary: n) (auto simp: is_digit_digit_char)

lemma read_hour_pad: "n < 100 \<Longrightarrow> read_hour (pad_text 2 n @ s) = Some (n, s)"
proof -
  assume "n < 100"
  moreover obtain c d where cd: "pad_text 2 n = [c, d]" by simp
  moreover have "is_digit c" "is_digit d" using pad_text_digits [of _ 2 n] unfolding cd by simp_all
  ultimately show ?thesis using read_fixed_pad [of n 2 s] by (simp add: read_hour_def)
qed

lemma read_digits_zeros:
  "read_digits acc (xs @ replicate j (CHR ''0'')) = map_option (\<lambda>n. n * 10 ^ j) (read_digits acc xs)"
proof (induction j arbitrary: xs)
  case (Suc j)
  have "read_digits acc (xs @ replicate (Suc j) (CHR ''0'')) = read_digits acc ((xs @ [CHR ''0'']) @ replicate j (CHR ''0''))"
    by simp
  also have "\<dots> = map_option (\<lambda>n. n * 10 ^ j) (read_digits acc (xs @ [CHR ''0'']))" by (rule Suc.IH)
  finally show ?case
    by (cases "read_digits acc xs") (simp_all add: read_digits_append is_digit_def digit_val_def)
qed (simp add: option.map_ident)

lemma read_frac_text:
  assumes "n < 10 ^ 9" "s = c # t" "\<not> is_digit c" "c \<noteq> CHR ''.''" "c \<noteq> CHR '',''"
  shows "read_frac (frac_text 9 n @ s) = (n, s)"
proof -
  define ds where "ds = rev (dropWhile (\<lambda>c. c = CHR ''0'') (rev (pad_text 9 n)))"
  define j where "j = length (takeWhile (\<lambda>c. c = CHR ''0'') (rev (pad_text 9 n)))"
  have "takeWhile (\<lambda>c. c = CHR ''0'') xs = replicate (length (takeWhile (\<lambda>c. c = CHR ''0'') xs)) (CHR ''0'')" for xs
    by (induction xs) auto
  then have "rev (pad_text 9 n) = replicate j (CHR ''0'') @ rev ds"
    unfolding j_def ds_def by (metis rev_rev_ident takeWhile_dropWhile_id)
  then have pad: "pad_text 9 n = ds @ replicate j (CHR ''0'')" by (metis rev_append rev_replicate rev_rev_ident)
  have len: "length ds + j = 9" using arg_cong [OF pad, of length] by simp
  have "map_option (\<lambda>n. n * 10 ^ j) (read_digits 0 ds) = Some n"
    using read_digits_pad [OF assms(1)] unfolding pad read_digits_zeros .
  then obtain v where v: "read_digits 0 ds = Some v" "n = v * 10 ^ j" by auto
  have digits: "\<forall>c\<in>set ds. is_digit c" using pad_text_digits [of _ 9 n] unfolding pad by auto
  show ?thesis
  proof (cases "ds = []")
    case True
    then have "frac_text 9 n = []" unfolding frac_text_def ds_def [symmetric] Let_def by simp
    with True v assms(2-5) show ?thesis by (simp add: read_frac_def)
  next
    case False
    have "takeWhile is_digit (ds @ s) = ds" "dropWhile is_digit (ds @ s) = s"
      using digits assms(2,3) by (simp_all add: takeWhile_append dropWhile_append)
    moreover have "j = 9 - length ds" "take 9 ds = ds" using len by simp_all
    moreover have "frac_text 9 n @ s = CHR ''.'' # (ds @ s)"
      using False unfolding frac_text_def ds_def [symmetric] Let_def by simp
    ultimately show ?thesis using False v by (simp add: read_frac_def)
  qed
qed

lemma parse_time_fields:
  assumes "y < 10000" "1 \<le> m" "m \<le> 12" "1 \<le> d" "int d \<le> days_in (int m) (int y)" "hh < 24" "mm < 60" "ss < 60" "ns < 10 ^ 9"
  shows "parse_time (pad_text 4 y @ CHR ''-'' # pad_text 2 m @ CHR ''-'' # pad_text 2 d @ CHR ''T'' # pad_text 2 hh
      @ CHR '':'' # pad_text 2 mm @ CHR '':'' # pad_text 2 ss @ frac_text 9 ns @ ''Z'')
    = Some ((days_of_date (int y) (int m) (int d) * 86400 + int (hh * 3600 + mm * 60 + ss)) * 10 ^ 9 + int ns)"
proof -
  have "int d \<le> 31" using assms(5) by (auto simp: days_in_def split: if_splits)
  then have reads: "read_fixed 4 (pad_text 4 y @ x) = Some (y, x)" "read_fixed 2 (pad_text 2 m @ x) = Some (m, x)"
    "read_fixed 2 (pad_text 2 d @ x) = Some (d, x)" "read_hour (pad_text 2 hh @ x) = Some (hh, x)"
    "read_fixed 2 (pad_text 2 mm @ x) = Some (mm, x)" "read_fixed 2 (pad_text 2 ss @ x) = Some (ss, x)" for x
    using assms by (auto intro!: read_fixed_pad read_hour_pad simp del: pad_text_numeral)
  have frac: "read_frac (frac_text 9 ns @ ''Z'') = (ns, ''Z'')"
    by (rule read_frac_text [OF assms(9)]) (auto simp: is_digit_def)
  show ?thesis
    using assms(1-8) unfolding parse_time_def reads frac
    by (simp add: reads frac read_zone_def del: pad_text_numeral)
qed

lemma parse_time_text:
  assumes "time_text t = Some s"
  shows "parse_time s = Some t"
proof -
  define secs where "secs = t div 10 ^ 9"
  define sod where "sod = nat (secs mod 86400)"
  obtain y m d where date: "civil_date (secs div 86400) = (y, m, d)" by (metis surj_pair)
  note cal = civil_date_inverse [OF date]
  have y: "0 \<le> y" "y \<le> 9999" and s: "s = pad_text 4 (nat y) @ CHR ''-'' # pad_text 2 (nat m) @ CHR ''-'' # pad_text 2 (nat d)
      @ CHR ''T'' # pad_text 2 (sod div 3600) @ CHR '':'' # pad_text 2 (sod div 60 mod 60) @ CHR '':'' # pad_text 2 (sod mod 60)
      @ frac_text 9 (nat (t mod 10 ^ 9)) @ ''Z''"
    using assms date by (auto simp: time_text_def Let_def secs_def sod_def split: if_splits simp del: pad_text_numeral)
  have sod: "sod < 86400" by (simp add: sod_def nat_less_iff)
  have "sod div 3600 * 3600 + sod div 60 mod 60 * 60 + sod mod 60 = sod"
  proof -
    have "sod div 3600 = sod div 60 div 60" by (simp flip: div_mult2_eq)
    moreover have "sod div 60 * 60 + sod mod 60 = sod" "sod div 60 div 60 * 60 + sod div 60 mod 60 = sod div 60"
      by (simp_all only: div_mult_mod_eq)
    ultimately show ?thesis by linarith
  qed
  moreover have "secs div 86400 * 86400 + int sod = secs" by (simp add: sod_def)
  moreover have "secs * 10 ^ 9 + int (nat (t mod 10 ^ 9)) = t" unfolding secs_def by simp
  moreover have "parse_time s = Some ((days_of_date y m d * 86400
      + int (sod div 3600 * 3600 + sod div 60 mod 60 * 60 + sod mod 60)) * 10 ^ 9 + int (nat (t mod 10 ^ 9)))"
  proof -
    have ints: "int (nat y) = y" "int (nat m) = m" "int (nat d) = d" using cal y by simp_all
    have "nat y < 10000" "1 \<le> nat m" "nat m \<le> 12" "1 \<le> nat d" "nat (t mod 10 ^ 9) < 10 ^ 9" "sod div 3600 < 24"
      using cal y sod by (auto simp: nat_less_iff)
    then show ?thesis
      using parse_time_fields [of "nat y" "nat m" "nat d" "sod div 3600" "sod div 60 mod 60" "sod mod 60" "nat (t mod 10 ^ 9)"] cal
      unfolding s ints by (simp del: pad_text_numeral)
  qed
  ultimately show ?thesis using cal by metis
qed

text \<open>From 1970 on, for more than three thousand years, every instant has a text.\<close>

lemma time_text_recent:
  assumes "0 \<le> t" "t \<le> 10 ^ 20"
  shows "\<exists>s. time_text t = Some s"
proof -
  let ?day = "t div 10 ^ 9 div 86400"
  obtain y m d where date: "civil_date ?day = (y, m, d)" by (metis surj_pair)
  have "0 \<le> ?day" "?day \<le> 1157407" using assms by auto
  then have "0 \<le> (?day + 719468) div 146097" "(?day + 719468) div 146097 \<le> 12" by auto
  then have "0 \<le> y" "y \<le> 9999" using civil_date_inverse [OF date] by auto
  then show ?thesis unfolding time_text_def Let_def date by simp
qed

end
