(* ===== verification/JsonEvents.thy ===== *)
theory JsonEvents
  imports RedisX KafkaX JsonText GoTime
begin

text \<open>
  The events of \<open>internal/kafkax\<close> as \<open>encoding/json\<close> writes and reads them, following the tags of their
  structs: \<open>go_json\<close> is the codec the program runs with.  The lemmas show that reading undoes writing for
  every event whose texts are valid UTF-8.  Which text an error of the decoder carries is not modelled.
\<close>

section \<open>Writing\<close>

definition time_value :: "string \<Rightarrow> string" where
  "time_value s = CHR 0x22 # s @ [CHR 0x22]"

text \<open>A struct whose last field is a time, which is all that can fail.\<close>

definition marshal_stamped :: "(string \<times> string) list \<Rightarrow> string \<Rightarrow> int \<Rightarrow> goerr + string" where
  "marshal_stamped ms name t =
     (case time_text t of
        None \<Rightarrow> Inl (PlainErr ''json: error calling MarshalJSON for type time.Time: Time.MarshalJSON: year outside of range [0,9999]'')
      | Some s \<Rightarrow> Inr (object_text (ms @ [(name, time_value s)])))"

definition json_attempt :: "purchase_attempted \<Rightarrow> goerr + string" where
  "json_attempt a = marshal_stamped
     [(''item_id'', quote (pa_ItemID a)), (''user_id'', quote (pa_UserID a)), (''quantity'', int_text (pa_Quantity a)),
      (''idempotency_key'', quote (pa_IdempotencyKey a))] ''attempted_at'' (pa_AttemptedAt a)"

definition json_joined :: "buyer_joined \<Rightarrow> goerr + string" where
  "json_joined b = marshal_stamped
     [(''item_id'', quote (bj_ItemID b)), (''user_id'', quote (bj_UserID b)), (''remote_addr'', quote (bj_RemoteAddr b))]
     ''joined_at'' (bj_JoinedAt b)"

definition json_dead :: "dead_letter \<Rightarrow> goerr + string" where
  "json_dead l = marshal_stamped
     [(''original_topic'', quote (dl_OriginalTopic l)), (''original_partition'', int_text (dl_OriginalPartition l)),
      (''original_offset'', int_text (dl_OriginalOffset l)), (''original_key'', quote (dl_OriginalKey l)),
      (''original_value'', quote (dl_OriginalValue l)), (''reason'', quote (dl_Reason l)),
      (''attempt_count'', int_text (dl_AttemptCount l))] ''failed_at'' (dl_FailedAt l)"

section \<open>Reading\<close>

definition time_field :: "(int \<Rightarrow> 'r \<Rightarrow> 'r) \<Rightarrow> json \<Rightarrow> 'r \<Rightarrow> 'r option" where
  "time_field upd v r =
     (case v of JNull \<Rightarrow> Some r | JString raw \<Rightarrow> map_option (\<lambda>t. upd t r) (parse_time raw) | _ \<Rightarrow> None)"

text \<open>The zero time is the first of January of the year 1.\<close>

definition zero_time :: int where
  "zero_time = - 62135596800 * 10 ^ 9"

definition attempt_fields :: "purchase_attempted field list" where
  "attempt_fields =
     [(''item_id'', text_field (\<lambda>s r. r\<lparr>pa_ItemID := s\<rparr>)), (''user_id'', text_field (\<lambda>s r. r\<lparr>pa_UserID := s\<rparr>)),
      (''quantity'', int_field (\<lambda>n r. r\<lparr>pa_Quantity := n\<rparr>)),
      (''idempotency_key'', text_field (\<lambda>s r. r\<lparr>pa_IdempotencyKey := s\<rparr>)),
      (''attempted_at'', time_field (\<lambda>t r. r\<lparr>pa_AttemptedAt := t\<rparr>))]"

definition zero_attempt :: purchase_attempted where
  "zero_attempt = \<lparr> pa_ItemID = [], pa_UserID = [], pa_Quantity = 0, pa_IdempotencyKey = [], pa_AttemptedAt = zero_time \<rparr>"

definition joined_fields :: "buyer_joined field list" where
  "joined_fields =
     [(''item_id'', text_field (\<lambda>s r. r\<lparr>bj_ItemID := s\<rparr>)), (''user_id'', text_field (\<lambda>s r. r\<lparr>bj_UserID := s\<rparr>)),
      (''remote_addr'', text_field (\<lambda>s r. r\<lparr>bj_RemoteAddr := s\<rparr>)), (''joined_at'', time_field (\<lambda>t r. r\<lparr>bj_JoinedAt := t\<rparr>))]"

definition zero_joined :: buyer_joined where
  "zero_joined = \<lparr> bj_ItemID = [], bj_UserID = [], bj_RemoteAddr = [], bj_JoinedAt = zero_time \<rparr>"

definition or_json_error :: "'a option \<Rightarrow> goerr + 'a" where
  "or_json_error x = (case x of None \<Rightarrow> Inl (PlainErr ''json: cannot unmarshal'') | Some v \<Rightarrow> Inr v)"

definition go_json :: codec where
  "go_json =
     \<lparr> marshal_attempt = json_attempt, unmarshal_attempt = (\<lambda>s. or_json_error (unmarshal_struct attempt_fields zero_attempt s)),
       marshal_joined = json_joined, unmarshal_joined = (\<lambda>s. or_json_error (unmarshal_struct joined_fields zero_joined s)),
       marshal_dead = json_dead \<rparr>"

section \<open>Reading undoes writing\<close>

text \<open>Plain texts are quoted as they are.\<close>

definition plain_char :: "char \<Rightarrow> bool" where
  "plain_char c \<longleftrightarrow> quote_ascii c = [c] \<and> code c < 0x80"

lemma quote_body_plain: "\<forall>c\<in>set s. plain_char c \<Longrightarrow> quote_body s = s"
  by (induction s) (auto simp: quote_body.simps(2) plain_char_def Let_def)

lemma digit_plain: "is_digit c \<Longrightarrow> plain_char c"
  by (auto simp: is_digit_def plain_char_def quote_ascii_def)

lemma frac_text_plain: "\<forall>c\<in>set (frac_text k n). plain_char c"
proof -
  have "plain_char c" if "c \<in> set (rev (dropWhile P (rev (pad_text k n))))" for c P
    using that pad_text_digits [of c k n] by (auto intro!: digit_plain dest: set_dropWhileD)
  then show ?thesis by (auto simp: frac_text_def Let_def) (simp add: plain_char_def quote_ascii_def)
qed

lemma time_text_plain:
  assumes "time_text t = Some s"
  shows "\<forall>c\<in>set s. plain_char c"
proof -
  have punct: "plain_char (CHR ''-'')" "plain_char (CHR '':'')" "plain_char (CHR ''T'')" "plain_char (CHR ''Z'')"
    by (simp_all add: plain_char_def quote_ascii_def)
  have pad: "\<forall>c\<in>set (pad_text k n). plain_char c" for k n using pad_text_digits digit_plain by blast
  show ?thesis
    using assms pad frac_text_plain punct
    by (auto simp: time_text_def Let_def split: if_splits prod.splits simp del: pad_text_numeral)
qed

lemma time_reads:
  assumes "time_text t = Some s"
  shows "reads_as (time_value s) (JString s)"
  using quote_reads [of s] quote_body_plain [OF time_text_plain [OF assms]] by (simp add: time_value_def quote_def)

text \<open>The names in the tags are of small letters and underscores.\<close>

definition name_char :: "char \<Rightarrow> bool" where
  "name_char c \<longleftrightarrow> code c = 95 \<or> 97 \<le> code c \<and> code c \<le> 122"

lemma name_plain: "list_all name_char s \<Longrightarrow> unquote_body (quote_body s) = s"
  by (rule unquote_quote, rule valid_utf8_ascii) (auto simp: list_all_iff name_char_def)

lemma unmarshal_stamped:
  assumes "marshal_stamped (map (\<lambda>(k, x, v). (k, x)) fs) name t = Inr s" "\<forall>(k, x, v)\<in>set fs. reads_as x v"
  obtains x where "parse_time x = Some t"
    "unmarshal_struct fds zero s
      = decode_members fds (map (\<lambda>(k, x, v). (quote_body k, v)) fs @ [(quote_body name, JString x)]) zero"
proof -
  obtain x where x: "time_text t = Some x"
    "s = object_text (map (\<lambda>(k, x, v). (k, x)) (fs @ [(name, time_value x, JString x)]))"
    using assms(1) by (auto simp: marshal_stamped_def split: option.splits)
  have "\<forall>(k, x, v)\<in>set (fs @ [(name, time_value x, JString x)]). reads_as x v"
    using assms(2) time_reads [OF x(1)] by auto
  from unmarshal_object [OF this, of fds zero] parse_time_text [OF x(1)] that x(2) show thesis by simp
qed

lemma json_attempt_roundtrip:
  assumes "json_attempt a = Inr s" "valid_utf8 (pa_ItemID a)" "valid_utf8 (pa_UserID a)" "valid_utf8 (pa_IdempotencyKey a)"
    and "int64 (pa_Quantity a)"
  shows "unmarshal_struct attempt_fields zero_attempt s = Some a"
proof -
  let ?fs = "[(''item_id'', quote (pa_ItemID a), JString (quote_body (pa_ItemID a))),
     (''user_id'', quote (pa_UserID a), JString (quote_body (pa_UserID a))),
     (''quantity'', int_text (pa_Quantity a), JNumber (int_text (pa_Quantity a))),
     (''idempotency_key'', quote (pa_IdempotencyKey a), JString (quote_body (pa_IdempotencyKey a)))]"
  have "marshal_stamped (map (\<lambda>(k, x, v). (k, x)) ?fs) ''attempted_at'' (pa_AttemptedAt a) = Inr s"
    using assms(1) by (simp add: json_attempt_def)
  moreover have "\<forall>(k, x, v)\<in>set ?fs. reads_as x v" by (simp add: quote_reads int_reads)
  ultimately obtain x where x: "parse_time x = Some (pa_AttemptedAt a)"
    "unmarshal_struct attempt_fields zero_attempt s
      = decode_members attempt_fields (map (\<lambda>(k, x, v). (quote_body k, v)) ?fs @ [(quote_body ''attempted_at'', JString x)]) zero_attempt"
    by (rule unmarshal_stamped)
  have names: "unquote_body (quote_body k) = k"
    if "k \<in> {''item_id'', ''user_id'', ''quantity'', ''idempotency_key'', ''attempted_at''}" for k
    using that by (elim insertE emptyE) (simp_all add: name_plain name_char_def)
  show ?thesis
    unfolding x(2)
    by (simp add: names field_named_def attempt_fields_def text_field_def int_field_def time_field_def x(1)
        unquote_quote assms(2-5) parse_int64_int_text zero_attempt_def)
qed

lemma json_joined_roundtrip:
  assumes "json_joined b = Inr s" "valid_utf8 (bj_ItemID b)" "valid_utf8 (bj_UserID b)" "valid_utf8 (bj_RemoteAddr b)"
  shows "unmarshal_struct joined_fields zero_joined s = Some b"
proof -
  let ?fs = "[(''item_id'', quote (bj_ItemID b), JString (quote_body (bj_ItemID b))),
     (''user_id'', quote (bj_UserID b), JString (quote_body (bj_UserID b))),
     (''remote_addr'', quote (bj_RemoteAddr b), JString (quote_body (bj_RemoteAddr b)))]"
  have "marshal_stamped (map (\<lambda>(k, x, v). (k, x)) ?fs) ''joined_at'' (bj_JoinedAt b) = Inr s"
    using assms(1) by (simp add: json_joined_def)
  moreover have "\<forall>(k, x, v)\<in>set ?fs. reads_as x v" by (simp add: quote_reads)
  ultimately obtain x where x: "parse_time x = Some (bj_JoinedAt b)"
    "unmarshal_struct joined_fields zero_joined s
      = decode_members joined_fields (map (\<lambda>(k, x, v). (quote_body k, v)) ?fs @ [(quote_body ''joined_at'', JString x)]) zero_joined"
    by (rule unmarshal_stamped)
  have names: "unquote_body (quote_body k) = k" if "k \<in> {''item_id'', ''user_id'', ''remote_addr'', ''joined_at''}" for k
    using that by (elim insertE emptyE) (simp_all add: name_plain name_char_def)
  show ?thesis
    unfolding x(2)
    by (simp add: names field_named_def joined_fields_def text_field_def time_field_def x(1)
        unquote_quote assms(2-4) zero_joined_def)
qed

lemma go_json_attempt:
  assumes "marshal_attempt go_json a = Inr s" "valid_utf8 (pa_ItemID a)" "valid_utf8 (pa_UserID a)"
    "valid_utf8 (pa_IdempotencyKey a)" "int64 (pa_Quantity a)"
  shows "DecodeAttempt go_json s = Inr a"
  using json_attempt_roundtrip [OF _ assms(2-5), of s] assms(1)
  by (simp add: go_json_def DecodeAttempt_def or_json_error_def)

lemma go_json_joined:
  assumes "marshal_joined go_json b = Inr s" "valid_utf8 (bj_ItemID b)" "valid_utf8 (bj_UserID b)" "valid_utf8 (bj_RemoteAddr b)"
  shows "DecodeBuyerJoined go_json s = Inr b"
  using json_joined_roundtrip [OF _ assms(2-4), of s] assms(1)
  by (simp add: go_json_def DecodeBuyerJoined_def or_json_error_def)

text \<open>Idempotency keys are ASCII.\<close>

lemma hex_text_ascii: "c \<in> set (hex_text k n) \<Longrightarrow> code c < 0x80"
  by (induction k arbitrary: n) (auto simp: hex_char_def)

lemma NewIdempotencyKey_valid: "run_state (NewIdempotencyKey V) w = (Inr key, w') \<Longrightarrow> valid_utf8 key"
  by (rule valid_utf8_ascii)
    (auto simp: NewIdempotencyKey_def idempotency_key_def hex_bytes_def split: prod.splits sum.splits dest: hex_text_ascii)

context kafka_service
begin

lemma PublishBuyerJoined_acknowledged:
  assumes "run_state (PublishBuyerJoined C V wr b) w = (None, w')"
  shows "\<exists>v n. marshal_joined C b = Inr v
    \<and> topic (w_Topic wr) w' = topic (w_Topic wr) w @ replicate (Suc n) \<lparr> msg_key = bj_UserID b, msg_value = v \<rparr>"
  using assms acknowledged
  by (auto simp: PublishBuyerJoined_def split: sum.splits prod.splits)

end

section \<open>Properties\<close>

text \<open>
  C33.  A published event is read as it was written.  When \<open>PublishAttempt\<close> or \<open>PublishBuyerJoined\<close> of an
  event with valid UTF-8 texts and an \<open>int64\<close> quantity is acknowledged, its topic has grown by messages
  under the item's key or the buyer's, and the decoder gives back the event from each, to the nanosecond.
\<close>

theorem published_event_decodes:
  assumes "kafka_service V topic" "valid_utf8 (pa_ItemID a)" "valid_utf8 (pa_UserID a)" "valid_utf8 (pa_IdempotencyKey a)"
    and "int64 (pa_Quantity a)" "run_state (PublishAttempt go_json V wr a) w = (None, w1)"
    and "valid_utf8 (bj_ItemID b)" "valid_utf8 (bj_UserID b)" "valid_utf8 (bj_RemoteAddr b)"
    and "run_state (PublishBuyerJoined go_json V wr' b) w1 = (None, w2)"
  shows "\<exists>v k v' k'. topic (w_Topic wr) w1 = topic (w_Topic wr) w @ replicate (Suc k) \<lparr> msg_key = pa_ItemID a, msg_value = v \<rparr>
    \<and> DecodeAttempt go_json v = Inr a
    \<and> topic (w_Topic wr') w2 = topic (w_Topic wr') w1 @ replicate (Suc k') \<lparr> msg_key = bj_UserID b, msg_value = v' \<rparr>
    \<and> DecodeBuyerJoined go_json v' = Inr b"
proof -
  obtain v k where "marshal_attempt go_json a = Inr v"
    "topic (w_Topic wr) w1 = topic (w_Topic wr) w @ replicate (Suc k) \<lparr> msg_key = pa_ItemID a, msg_value = v \<rparr>"
    using kafka_service.PublishAttempt_acknowledged [OF assms(1,6)] by blast
  moreover obtain v' k' where "marshal_joined go_json b = Inr v'"
    "topic (w_Topic wr') w2 = topic (w_Topic wr') w1 @ replicate (Suc k') \<lparr> msg_key = bj_UserID b, msg_value = v' \<rparr>"
    using kafka_service.PublishBuyerJoined_acknowledged [OF assms(1,10)] by blast
  ultimately show ?thesis
    using go_json_attempt [OF _ assms(2-5)] go_json_joined [OF _ assms(7-9)] by blast
qed

definition demo_purchase :: purchase_attempted where
  "demo_purchase = \<lparr> pa_ItemID = ''i'', pa_UserID = [CHR 0x22, CHR 0xC3, CHR 0xA9], pa_Quantity = 3, pa_IdempotencyKey = ''k'',
     pa_AttemptedAt = 1709210096500000000 \<rparr>"

definition demo_joined :: buyer_joined where
  "demo_joined = \<lparr> bj_ItemID = ''i'', bj_UserID = ''u'', bj_RemoteAddr = ''10.0.0.1:5000'', bj_JoinedAt = 0 \<rparr>"

lemma demo_dates: "civil_date 19782 = (2024, 2, 29)" "civil_date 0 = (1970, 1, 1)"
  by (simp_all add: civil_date_def Let_def cong: let_weak_cong)

lemma demo_times: "time_text 1709210096500000000 = Some ''2024-02-29T12:34:56.5Z''" "time_text 0 = Some ''1970-01-01T00:00:00Z''"
  by (simp_all add: time_text_def demo_dates frac_text_def digit_char_def char_of_def bit_Suc_0_iff)

lemma demo_texts: "valid_utf8 [CHR 0x22, CHR 0xC3, CHR 0xA9]" "\<forall>c\<in>set s. code c < 0x80 \<Longrightarrow> valid_utf8 s"
  by (simp_all add: valid_utf8.simps(2) continues_def valid_utf8_ascii)

theorem published_event_decodes_witness:
  "\<exists>w1 w2 v v'. run_state (PublishAttempt go_json steady_services (NewWriter []) demo_purchase) mem_five = (None, w1)
    \<and> run_state (PublishBuyerJoined go_json steady_services (NewWaitingRoomWriter []) demo_joined) w1 = (None, w2)
    \<and> \<lparr> msg_key = ''i'', msg_value = v \<rparr> \<in> set (m_topics w1 CheckoutAttemptsTopic) \<and> DecodeAttempt go_json v = Inr demo_purchase
    \<and> \<lparr> msg_key = ''u'', msg_value = v' \<rparr> \<in> set (m_topics w2 WaitingRoomJoinsTopic) \<and> DecodeBuyerJoined go_json v' = Inr demo_joined"
proof -
  obtain w1 where w1: "run_state (PublishAttempt go_json steady_services (NewWriter []) demo_purchase) mem_five = (None, w1)"
    by (simp add: PublishAttempt_def go_json_def json_attempt_def marshal_stamped_def demo_purchase_def demo_times)
  obtain w2 where w2: "run_state (PublishBuyerJoined go_json steady_services (NewWaitingRoomWriter []) demo_joined) w1 = (None, w2)"
    by (simp add: PublishBuyerJoined_def go_json_def json_joined_def marshal_stamped_def demo_joined_def demo_times)
  have valid: "valid_utf8 (pa_ItemID demo_purchase)" "valid_utf8 (pa_UserID demo_purchase)" "valid_utf8 (pa_IdempotencyKey demo_purchase)"
    "int64 (pa_Quantity demo_purchase)" "valid_utf8 (bj_ItemID demo_joined)" "valid_utf8 (bj_UserID demo_joined)"
    "valid_utf8 (bj_RemoteAddr demo_joined)"
    by (simp_all add: demo_purchase_def demo_joined_def demo_texts int64_def int64_min_def int64_max_def)
  have names: "w_Topic (NewWriter []) = CheckoutAttemptsTopic" "pa_ItemID demo_purchase = ''i''"
    "w_Topic (NewWaitingRoomWriter []) = WaitingRoomJoinsTopic" "bj_UserID demo_joined = ''u''"
    by (simp_all add: NewWriter_def NewWaitingRoomWriter_def demo_purchase_def demo_joined_def)
  from published_event_decodes [OF steady.kafka_service_axioms valid(1-4) w1 valid(5-7) w2, unfolded names] w1 w2 show ?thesis
    by (metis in_set_conv_decomp replicate_Suc)
qed

end
