(* ===== verification/DecisionService.thy ===== *)
theory DecisionService
  imports EnvConfig KafkaX Decision
begin

text \<open>
  \<open>cmd/decision-service/main.go\<close>: what to do with the result of an attempt (\<open>classifyOutcome\<close>), the
  retry loop of one message (\<open>process_loop\<close>), the dead-letter record and the consume loop.  The loops
  can run for as long as the database or the broker is away, so they are partial functions whose
  value \<open>None\<close> is not returning.  The lemmas show when the retry loop returns, and what every return
  means for the tables, the dead-letter topic and the committed offsets.
\<close>

section \<open>Classification\<close>

datatype dec_outcome = OutcomeCommit | OutcomeDeadLetter | OutcomeRetryUncounted | OutcomeRetryCounted

definition isConnectivityError :: "goerr \<Rightarrow> bool" where
  "isConnectivityError err \<longleftrightarrow> errors_as_pq err = None"

definition classifyOutcome :: "goerr option \<Rightarrow> policy \<Rightarrow> int \<Rightarrow> int \<Rightarrow> dec_outcome" where
  "classifyOutcome res p attemptCount elapsed =
     (case res of
        None \<Rightarrow> OutcomeCommit
      | Some err \<Rightarrow>
          if errors_is err ErrItemNotFound \<or> errors_is err ErrInvalidQuantity then OutcomeDeadLetter
          else if isConnectivityError err then OutcomeRetryUncounted
          else if \<not> ShouldRetry p attemptCount elapsed then OutcomeDeadLetter
          else OutcomeRetryCounted)"

section \<open>Dead letters and offsets\<close>

definition sendToDeadLetter ::
  "codec \<Rightarrow> 'w services \<Rightarrow> writer \<Rightarrow> kafka_message \<Rightarrow> goerr \<Rightarrow> int \<Rightarrow> ('w, unit) io" where
  "sendToDeadLetter C V dlqWriter msg cause attemptCount = do {
     t \<leftarrow> now V;
     r \<leftarrow> PublishDeadLetter C V dlqWriter
       \<lparr> dl_OriginalTopic = km_Topic msg, dl_OriginalPartition = km_Partition msg,
         dl_OriginalOffset = km_Offset msg, dl_OriginalKey = km_Key msg, dl_OriginalValue = km_Value msg,
         dl_Reason = err_text cause, dl_AttemptCount = attemptCount, dl_FailedAt = t \<rparr>;
     ret ()
   }"

definition commitOrLog :: "'w consumer \<Rightarrow> kafka_message \<Rightarrow> ('w, unit) io" where
  "commitOrLog R msg = do {
     r \<leftarrow> State (commit_message R msg);
     ret ()
   }"

definition sleepOrDone :: "'w consumer \<Rightarrow> int \<Rightarrow> 'w \<Rightarrow> bool \<times> 'w" where
  "sleepOrDone R dur w =
     (case wait_first R dur w of
        (CtxDone, w1) \<Rightarrow> (False, w1)
      | (TimerFired, w1) \<Rightarrow> (True, w1))"

section \<open>The loop of one message\<close>

definition attempt_of :: "purchase_attempted \<Rightarrow> attempt" where
  "attempt_of a = \<lparr> ItemID = pa_ItemID a, UserID = pa_UserID a, Quantity = pa_Quantity a,
     IdempotencyKey = pa_IdempotencyKey a \<rparr>"

definition error_of :: "goerr + 'a \<Rightarrow> goerr option" where
  "error_of r = (case r of Inl e \<Rightarrow> Some e | Inr _ \<Rightarrow> None)"

definition cause_of :: "goerr + 'a \<Rightarrow> goerr" where
  "cause_of r = (case r of Inl e \<Rightarrow> e | Inr _ \<Rightarrow> PlainErr [])"

text \<open>One call of \<open>ProcessAttempt\<close> and the reading of the elapsed time after it.\<close>

definition process_once ::
  "pg_server \<Rightarrow> 'w services \<Rightarrow> int \<Rightarrow> policy \<Rightarrow> purchase_attempted \<Rightarrow> int \<Rightarrow> int
     \<Rightarrow> ('w, dec_outcome \<times> (goerr + outcome)) io" where
  "process_once S V ttl p a start attemptCount = do {
     r \<leftarrow> sql V (\<lambda>e d. ProcessAttempt S e (attempt_of a) ttl d);
     t \<leftarrow> now V;
     ret (classifyOutcome (error_of r) p attemptCount (wrap64 (t - start)), r)
   }"

text \<open>
  The result is whether the consume loop goes on to the next message, and the world; \<open>False\<close> is the
  return on shutdown.
\<close>

partial_function (option) process_loop ::
  "codec \<Rightarrow> pg_server \<Rightarrow> 'w services \<Rightarrow> 'w consumer \<Rightarrow> writer \<Rightarrow> int \<Rightarrow> policy \<Rightarrow> kafka_message
     \<Rightarrow> purchase_attempted \<Rightarrow> int \<Rightarrow> int \<Rightarrow> int \<Rightarrow> 'w \<Rightarrow> (bool \<times> 'w) option" where
  "process_loop C S V R dlq ttl p msg a start attemptCount uncountedRetries w =
     (case run_state (process_once S V ttl p a start attemptCount) w of
        ((oc, r), w1) \<Rightarrow>
          (case oc of
             OutcomeCommit \<Rightarrow> Some (True, snd (run_state (commitOrLog R msg) w1))
           | OutcomeDeadLetter \<Rightarrow>
               Some (True, snd (run_state (do {
                 _ \<leftarrow> sendToDeadLetter C V dlq msg (cause_of r) attemptCount;
                 commitOrLog R msg
               }) w1))
           | OutcomeRetryUncounted \<Rightarrow>
               (case sleepOrDone R (NextBackoff p (uncountedRetries + 1)) w1 of
                  (slept, w2) \<Rightarrow>
                    if slept
                    then process_loop C S V R dlq ttl p msg a start attemptCount (uncountedRetries + 1) w2
                    else Some (False, w2))
           | OutcomeRetryCounted \<Rightarrow>
               (case sleepOrDone R (NextBackoff p (attemptCount + 1)) w1 of
                  (slept, w2) \<Rightarrow>
                    if slept
                    then process_loop C S V R dlq ttl p msg a start (attemptCount + 1) uncountedRetries w2
                    else Some (False, w2))))"

section \<open>The consume loop\<close>

definition consume_message ::
  "codec \<Rightarrow> pg_server \<Rightarrow> 'w services \<Rightarrow> 'w consumer \<Rightarrow> writer \<Rightarrow> int \<Rightarrow> policy \<Rightarrow> kafka_message
     \<Rightarrow> 'w \<Rightarrow> (bool \<times> 'w) option" where
  "consume_message C S V R dlq ttl p msg w =
     (case DecodeAttempt C (km_Value msg) of
        Inl decodeErr \<Rightarrow>
          Some (True, snd (run_state (do {
            _ \<leftarrow> sendToDeadLetter C V dlq msg decodeErr 0;
            commitOrLog R msg
          }) w))
      | Inr a \<Rightarrow>
          (case time_now V w of (start, w1) \<Rightarrow> process_loop C S V R dlq ttl p msg a start 0 0 w1))"

partial_function (option) runConsumeLoop ::
  "codec \<Rightarrow> pg_server \<Rightarrow> 'w services \<Rightarrow> 'w consumer \<Rightarrow> writer \<Rightarrow> int \<Rightarrow> policy \<Rightarrow> 'w \<Rightarrow> 'w option" where
  "runConsumeLoop C S V R dlq ttl p w =
     (case fetch_message R w of
        (Inl err, w1) \<Rightarrow>
          if errors_is err ErrCanceled then Some w1
          else runConsumeLoop C S V R dlq ttl p w1
      | (Inr msg, w1) \<Rightarrow>
          Option.bind (consume_message C S V R dlq ttl p msg w1)
            (\<lambda>(continue, w2). if continue then runConsumeLoop C S V R dlq ttl p w2 else Some w2))"

section \<open>Induction over the calls of one message\<close>

text \<open>One round of the loop, whatever the recursive call does.\<close>

lemma process_round_cases:
  assumes "(case run_state (process_once S V ttl p a start m) w of
        ((oc, r), w1) \<Rightarrow>
          (case oc of
             OutcomeCommit \<Rightarrow> Some (True, snd (run_state (commitOrLog R msg) w1))
           | OutcomeDeadLetter \<Rightarrow>
               Some (True, snd (run_state (do {
                 _ \<leftarrow> sendToDeadLetter C V dlq msg (cause_of r) m;
                 commitOrLog R msg
               }) w1))
           | OutcomeRetryUncounted \<Rightarrow>
               (case sleepOrDone R (NextBackoff p (n + 1)) w1 of
                  (slept, w2) \<Rightarrow> if slept then loop m (n + 1) w2 else Some (False, w2))
           | OutcomeRetryCounted \<Rightarrow>
               (case sleepOrDone R (NextBackoff p (m + 1)) w1 of
                  (slept, w2) \<Rightarrow> if slept then loop (m + 1) n w2 else Some (False, w2)))) = Some y"
  obtains
    (commit) r w1 where "run_state (process_once S V ttl p a start m) w = ((OutcomeCommit, r), w1)"
      "y = (True, snd (run_state (commitOrLog R msg) w1))"
  | (dead) r w1 where "run_state (process_once S V ttl p a start m) w = ((OutcomeDeadLetter, r), w1)"
      "y = (True, snd (run_state (do {
            _ \<leftarrow> sendToDeadLetter C V dlq msg (cause_of r) m;
            commitOrLog R msg
          }) w1))"
  | (stop) oc r w1 dur w2 where "run_state (process_once S V ttl p a start m) w = ((oc, r), w1)"
      "oc = OutcomeRetryUncounted \<or> oc = OutcomeRetryCounted" "sleepOrDone R dur w1 = (False, w2)" "y = (False, w2)"
  | (infra) r w1 w2 where "run_state (process_once S V ttl p a start m) w = ((OutcomeRetryUncounted, r), w1)"
      "sleepOrDone R (NextBackoff p (n + 1)) w1 = (True, w2)" "loop m (n + 1) w2 = Some y"
  | (counted) r w1 w2 where "run_state (process_once S V ttl p a start m) w = ((OutcomeRetryCounted, r), w1)"
      "sleepOrDone R (NextBackoff p (m + 1)) w1 = (True, w2)" "loop (m + 1) n w2 = Some y"
proof -
  obtain oc r w1 where once: "run_state (process_once S V ttl p a start m) w = ((oc, r), w1)" by (metis prod.exhaust)
  obtain ok w2 where uncounted: "sleepOrDone R (NextBackoff p (n + 1)) w1 = (ok, w2)" by (metis prod.exhaust)
  obtain ok' w3 where retried: "sleepOrDone R (NextBackoff p (m + 1)) w1 = (ok', w3)" by (metis prod.exhaust)
  show thesis
  proof (cases oc)
    case OutcomeRetryUncounted
    note body = assms [unfolded once [unfolded OutcomeRetryUncounted], simplified, unfolded uncounted, simplified]
    show ?thesis
    proof (cases ok)
      case True
      then show ?thesis using body once uncounted by (intro infra [of r w1 w2]) (simp_all add: OutcomeRetryUncounted)
    next
      case False
      then show ?thesis
        using body once uncounted by (intro stop [of oc r w1 "NextBackoff p (n + 1)" w2]) (simp_all add: OutcomeRetryUncounted)
    qed
  next
    case OutcomeRetryCounted
    note body = assms [unfolded once [unfolded OutcomeRetryCounted], simplified, unfolded retried, simplified]
    show ?thesis
    proof (cases ok')
      case True
      then show ?thesis using body once retried by (intro counted [of r w1 w3]) (simp_all add: OutcomeRetryCounted)
    next
      case False
      then show ?thesis
        using body once retried by (intro stop [of oc r w1 "NextBackoff p (m + 1)" w3]) (simp_all add: OutcomeRetryCounted)
    qed
  qed (use assms once commit dead in auto)
qed

lemma process_loop_induct [consumes 1, case_names commit dead stop infra counted]:
  assumes "process_loop C S V R dlq ttl p msg a start m n w = Some y"
    and commit: "\<And>m n w r w1. run_state (process_once S V ttl p a start m) w = ((OutcomeCommit, r), w1)
      \<Longrightarrow> P m n w (True, snd (run_state (commitOrLog R msg) w1))"
    and dead: "\<And>m n w r w1. run_state (process_once S V ttl p a start m) w = ((OutcomeDeadLetter, r), w1)
      \<Longrightarrow> P m n w (True, snd (run_state (do {
            _ \<leftarrow> sendToDeadLetter C V dlq msg (cause_of r) m;
            commitOrLog R msg
          }) w1))"
    and stop: "\<And>m n w oc r w1 dur w2. run_state (process_once S V ttl p a start m) w = ((oc, r), w1)
      \<Longrightarrow> oc = OutcomeRetryUncounted \<or> oc = OutcomeRetryCounted
      \<Longrightarrow> sleepOrDone R dur w1 = (False, w2) \<Longrightarrow> P m n w (False, w2)"
    and infra: "\<And>m n w r w1 w2 y. run_state (process_once S V ttl p a start m) w = ((OutcomeRetryUncounted, r), w1)
      \<Longrightarrow> sleepOrDone R (NextBackoff p (n + 1)) w1 = (True, w2) \<Longrightarrow> P m (n + 1) w2 y \<Longrightarrow> P m n w y"
    and counted: "\<And>m n w r w1 w2 y. run_state (process_once S V ttl p a start m) w = ((OutcomeRetryCounted, r), w1)
      \<Longrightarrow> sleepOrDone R (NextBackoff p (m + 1)) w1 = (True, w2) \<Longrightarrow> P (m + 1) n w2 y \<Longrightarrow> P m n w y"
  shows "P m n w y"
proof -
  let ?same = "\<lambda>C' S' V' R' dlq' ttl' p' msg' a' start'. (C', S', V', R', dlq', ttl', p', msg', a', start')
    = (C, S, V, R, dlq, ttl, p, msg, a, start)"
  have "?same C S V R dlq ttl p msg a start \<longrightarrow> P m n w y"
  proof (rule process_loop.raw_induct
      [of "\<lambda>C' S' V' R' dlq' ttl' p' msg' a' start' m n w y. ?same C' S' V' R' dlq' ttl' p' msg' a' start' \<longrightarrow> P m n w y",
        OF _ assms(1)], intro impI, elim Pair_inject, hypsubst)
    fix loop m n w y
    assume ih: "\<And>C' S' V' R' dlq' ttl' p' msg' a' start' m n w y. loop C' S' V' R' dlq' ttl' p' msg' a' start' m n w = Some y
        \<Longrightarrow> ?same C' S' V' R' dlq' ttl' p' msg' a' start' \<longrightarrow> P m n w y"
      and body: "(case run_state (process_once S V ttl p a start m) w of
        ((oc, r), w1) \<Rightarrow>
          (case oc of
             OutcomeCommit \<Rightarrow> Some (True, snd (run_state (commitOrLog R msg) w1))
           | OutcomeDeadLetter \<Rightarrow>
               Some (True, snd (run_state (do {
                 _ \<leftarrow> sendToDeadLetter C V dlq msg (cause_of r) m;
                 commitOrLog R msg
               }) w1))
           | OutcomeRetryUncounted \<Rightarrow>
               (case sleepOrDone R (NextBackoff p (n + 1)) w1 of
                  (slept, w2) \<Rightarrow> if slept then loop C S V R dlq ttl p msg a start m (n + 1) w2 else Some (False, w2))
           | OutcomeRetryCounted \<Rightarrow>
               (case sleepOrDone R (NextBackoff p (m + 1)) w1 of
                  (slept, w2) \<Rightarrow> if slept then loop C S V R dlq ttl p msg a start (m + 1) n w2 else Some (False, w2)))) = Some y"
    from body show "P m n w y"
    proof (cases rule: process_round_cases)
      case (commit r w1)
      then show ?thesis using assms(2) by simp
    next
      case (dead r w1)
      then show ?thesis using assms(3) by simp
    next
      case (stop oc r w1 dur w2)
      then show ?thesis using assms(4) by simp
    next
      case (infra r w1 w2)
      from assms(5) [OF infra(1,2)] ih [OF infra(3)] show ?thesis by simp
    next
      case (counted r w1 w2)
      from assms(6) [OF counted(1,2)] ih [OF counted(3)] show ?thesis by simp
    qed
  qed
  then show ?thesis by simp
qed

section \<open>What the steps do\<close>

text \<open>The dead letter of a message carries it verbatim.\<close>

definition letter_of :: "dead_letter \<Rightarrow> kafka_message \<Rightarrow> bool" where
  "letter_of dl msg \<longleftrightarrow> dl_OriginalTopic dl = km_Topic msg \<and> dl_OriginalPartition dl = km_Partition msg
     \<and> dl_OriginalOffset dl = km_Offset msg \<and> dl_OriginalKey dl = km_Key msg \<and> dl_OriginalValue dl = km_Value msg"

text \<open>
  What a dead-lettering adds to a topic: copies of one letter for the message, none of them when the
  letter could not be written.
\<close>

definition lettered :: "codec \<Rightarrow> kafka_message \<Rightarrow> int \<Rightarrow> kmsg list \<Rightarrow> kmsg list \<Rightarrow> bool" where
  "lettered C msg n log log' \<longleftrightarrow> (\<exists>dl k v. letter_of dl msg \<and> dl_AttemptCount dl = n
     \<and> (log' = log \<or> (marshal_dead C dl = Inr v
          \<and> log' = log @ replicate k \<lparr> msg_key = km_Key msg, msg_value = v \<rparr>)))"

text \<open>
  What it means that the loop of a message ended, for the shop, the dead-letter topic and the
  committed offsets: the shop holds at most the message's decision; when the loop goes on to the next
  message, the decision is there or the message was dead-lettered, and only then may its offset be
  committed.
\<close>

definition msg_outcome ::
  "codec \<Rightarrow> pg_server \<Rightarrow> kafka_message \<Rightarrow> purchase_attempted \<Rightarrow> int \<Rightarrow> shop \<Rightarrow> kmsg list \<Rightarrow> kafka_message list
     \<Rightarrow> bool \<Rightarrow> shop \<Rightarrow> kmsg list \<Rightarrow> kafka_message list \<Rightarrow> bool" where
  "msg_outcome C S msg a m s log com goes_on s' log' com' \<longleftrightarrow>
     decided_or_untouched S (attempt_of a) s s'
   \<and> (if goes_on
      then (com' = com \<or> com' = com @ [msg])
        \<and> ((log' = log \<and> (\<exists>u st. uuid_in S (pa_ItemID a) = Some u
                \<and> decide u (pa_IdempotencyKey a) (pa_Quantity a) s = Some (st, s')))
           \<or> (\<exists>k. m \<le> k \<and> lettered C msg k log log'))
      else com' = com \<and> log' = log)"

lemma msg_outcome_step:
  assumes "decided_or_untouched S (attempt_of a) s s1" "m \<le> m1"
    and "msg_outcome C S msg a m1 s1 log com c s' log' com'"
  shows "msg_outcome C S msg a m s log com c s' log' com'"
proof -
  have "decide u (pa_IdempotencyKey a) (pa_Quantity a) s = Some (st, s')"
    if "uuid_in S (pa_ItemID a) = Some u" "decide u (pa_IdempotencyKey a) (pa_Quantity a) s1 = Some (st, s')" for u st
    using assms(1) that by (auto simp: decided_or_untouched_def attempt_of_def decide_again_iff)
  moreover have "decided_or_untouched S (attempt_of a) s s'"
    using decided_or_untouched_trans [OF assms(1)] assms(3) by (simp add: msg_outcome_def)
  ultimately show ?thesis
    using assms(2,3) unfolding msg_outcome_def by (fastforce split: if_splits)
qed

context consumer_platform
begin

lemma sleep_frame:
  "sleepOrDone R dur w = (slept, w') \<Longrightarrow> tables w' = tables w \<and> topic t w' = topic t w \<and> committed w' = committed w"
  using wait_frame by (auto simp: sleepOrDone_def split: prod.splits wake_up.splits)

lemma process_once_effect:
  assumes "run_state (process_once S V ttl p a start m) w = ((oc, r), w1)"
  shows "(\<exists>e. ProcessAttempt S e (attempt_of a) ttl (tables w) = (r, tables w1))
    \<and> committed w1 = committed w \<and> topic t w1 = topic t w
    \<and> (\<exists>elapsed. oc = classifyOutcome (error_of r) p m elapsed)"
proof -
  let ?f = "\<lambda>e d. ProcessAttempt S e (attempt_of a) ttl d"
  obtain r' w0 where q: "run_state (sql V ?f) w = (r', w0)" by (cases "run_state (sql V ?f) w")
  obtain tm w2 where tm: "time_now V w0 = (tm, w2)" by (cases "time_now V w0")
  have "r' = r" "w2 = w1" "oc = classifyOutcome (error_of r) p m (wrap64 (tm - start))"
    using assms q tm by (auto simp: process_once_def)
  moreover from sql_tables [OF q] have "\<exists>e. ProcessAttempt S e (attempt_of a) ttl (tables w) = (r', tables w0)" .
  ultimately show ?thesis
    using sql_committed [OF q] sql_frame [OF q, of t] committed_time [OF tm] time_frame [OF tm, of t]
    by (intro conjI) (simp_all, blast)
qed

lemma commitOrLog_effect:
  assumes "run_state (commitOrLog R msg) w = ((), w')"
  shows "tables w' = tables w \<and> topic t w' = topic t w
    \<and> (committed w' = committed w \<or> committed w' = committed w @ [msg])"
proof -
  obtain r where c: "commit_message R msg w = (r, w')"
    using assms by (auto simp: commitOrLog_def split: prod.splits)
  show ?thesis
    using commit_frame [OF c, of t] commit_ok [of msg w w'] commit_err [of msg w _ w'] c by (cases r) auto
qed

lemma sendToDeadLetter_effect:
  assumes "run_state (sendToDeadLetter C V dlq msg cause m) w = ((), w')"
  shows "tables w' = tables w \<and> committed w' = committed w
    \<and> lettered C msg m (topic (w_Topic dlq) w) (topic (w_Topic dlq) w')"
proof -
  obtain t w1 where t: "time_now V w = (t, w1)" by (cases "time_now V w")
  define dl where "dl = \<lparr> dl_OriginalTopic = km_Topic msg, dl_OriginalPartition = km_Partition msg,
         dl_OriginalOffset = km_Offset msg, dl_OriginalKey = km_Key msg, dl_OriginalValue = km_Value msg,
         dl_Reason = err_text cause, dl_AttemptCount = m, dl_FailedAt = t \<rparr>"
  have dl: "letter_of dl msg" "dl_AttemptCount dl = m" by (simp_all add: letter_of_def dl_def)
  obtain r where pub: "run_state (PublishDeadLetter C V dlq dl) w1 = (r, w')"
    using assms t by (auto simp: sendToDeadLetter_def dl_def split: prod.splits)
  have base: "tables w1 = tables w" "committed w1 = committed w" "topic x w1 = topic x w" for x
    using committed_time [OF t] time_frame [OF t] by auto
  show ?thesis
  proof (cases "marshal_dead C dl")
    case (Inl e)
    with pub base dl show ?thesis by (auto simp: PublishDeadLetter_def lettered_def)
  next
    case (Inr v)
    define km where "km = \<lparr> msg_key = km_Key msg, msg_value = v \<rparr>"
    obtain ke where k: "kafka_write V (w_Topic dlq) km w1 = (ke, w')"
      using pub Inr by (auto simp: PublishDeadLetter_def km_def dl_def split: prod.splits)
    have "\<exists>k. topic (w_Topic dlq) w' = topic (w_Topic dlq) w1 @ replicate k km"
      using acknowledged [of "w_Topic dlq" km w1 w'] unacknowledged [of "w_Topic dlq" km w1 _ w'] k
      by (cases ke) blast+
    moreover have "tables w' = tables w1" "committed w' = committed w1"
      using kafka_frame [OF k] committed_kafka [OF k] by simp_all
    ultimately show ?thesis using base dl Inr unfolding lettered_def km_def by auto
  qed
qed

lemma process_loop_msg_outcome:
  assumes "process_loop C S V R dlq ttl p msg a start m n w = Some y"
  shows "msg_outcome C S msg a m (shop_of (tables w)) (topic (w_Topic dlq) w) (committed w)
    (fst y) (shop_of (tables (snd y))) (topic (w_Topic dlq) (snd y)) (committed (snd y))"
  using assms
proof (induction rule: process_loop_induct)
  case (commit m n w r w1)
  note once = process_once_effect [OF commit, where t = "w_Topic dlq"]
  then obtain e elapsed where pa: "ProcessAttempt S e (attempt_of a) ttl (tables w) = (r, tables w1)"
    and cls: "OutcomeCommit = classifyOutcome (error_of r) p m elapsed" by blast
  obtain out where r: "r = Inr out"
    using cls by (cases r) (auto simp: classifyOutcome_def error_of_def split: if_splits)
  obtain u where dec: "uuid_in S (pa_ItemID a) = Some u"
    "decide u (pa_IdempotencyKey a) (pa_Quantity a) (shop_of (tables w)) = Some (Status out, shop_of (tables w1))"
    using attempt_work_decides [OF ProcessAttempt_Inr [OF pa [unfolded r]]] by (auto simp: attempt_of_def)
  obtain w2 where c: "run_state (commitOrLog R msg) w1 = ((), w2)" by (cases "run_state (commitOrLog R msg) w1") auto
  note ce = commitOrLog_effect [OF c, where t = "w_Topic dlq"]
  have "decided_or_untouched S (attempt_of a) (shop_of (tables w)) (shop_of (tables w1))"
    using dec by (auto simp: decided_or_untouched_def attempt_of_def)
  with once ce c dec show ?case by (auto simp: msg_outcome_def)
next
  case (dead m n w r w1)
  note once = process_once_effect [OF dead, where t = "w_Topic dlq"]
  then obtain e where pa: "ProcessAttempt S e (attempt_of a) ttl (tables w) = (r, tables w1)" by blast
  obtain w2 where d: "run_state (sendToDeadLetter C V dlq msg (cause_of r) m) w1 = ((), w2)"
    by (cases "run_state (sendToDeadLetter C V dlq msg (cause_of r) m) w1") auto
  obtain w3 where c: "run_state (commitOrLog R msg) w2 = ((), w3)" by (cases "run_state (commitOrLog R msg) w2") auto
  have "decided_or_untouched S (attempt_of a) (shop_of (tables w)) (shop_of (tables w1))"
    using ProcessAttempt_decided_or_untouched [of S "attempt_of a" "tables w" e ttl] pa by simp
  with once sendToDeadLetter_effect [OF d] commitOrLog_effect [OF c, where t = "w_Topic dlq"] d c
  show ?case by (auto simp: msg_outcome_def)
next
  case (stop m n w oc r w1 dur w2)
  note once = process_once_effect [OF stop(1), where t = "w_Topic dlq"]
  then obtain e where pa: "ProcessAttempt S e (attempt_of a) ttl (tables w) = (r, tables w1)" by blast
  have "decided_or_untouched S (attempt_of a) (shop_of (tables w)) (shop_of (tables w1))"
    using ProcessAttempt_decided_or_untouched [of S "attempt_of a" "tables w" e ttl] pa by simp
  with once sleep_frame [OF stop(3), where t = "w_Topic dlq"] show ?case by (simp add: msg_outcome_def)
next
  case (infra m n w r w1 w2 y)
  note once = process_once_effect [OF infra(1), where t = "w_Topic dlq"]
  note sl = sleep_frame [OF infra(2), where t = "w_Topic dlq"]
  obtain e where pa: "ProcessAttempt S e (attempt_of a) ttl (tables w) = (r, tables w1)" using once by blast
  have "decided_or_untouched S (attempt_of a) (shop_of (tables w)) (shop_of (tables w2))"
    using ProcessAttempt_decided_or_untouched [of S "attempt_of a" "tables w" e ttl] pa sl by simp
  from msg_outcome_step [OF this order_refl infra(3)] once sl show ?case by simp
next
  case (counted m n w r w1 w2 y)
  note once = process_once_effect [OF counted(1), where t = "w_Topic dlq"]
  note sl = sleep_frame [OF counted(2), where t = "w_Topic dlq"]
  obtain e where pa: "ProcessAttempt S e (attempt_of a) ttl (tables w) = (r, tables w1)" using once by blast
  have "decided_or_untouched S (attempt_of a) (shop_of (tables w)) (shop_of (tables w2))"
    using ProcessAttempt_decided_or_untouched [of S "attempt_of a" "tables w" e ttl] pa sl by simp
  from msg_outcome_step [OF this _ counted(3), of m] once sl show ?case by simp
qed

end

section \<open>The loop of a message returns\<close>

lemma process_once_budget:
  assumes "run_state (process_once S V ttl p a start m) w = ((OutcomeRetryCounted, r), w1)"
    and "retry_budget (ShouldRetry p) (NextBackoff p) lim"
  shows "m < lim"
proof -
  obtain r' w0 where q: "run_state (sql V (\<lambda>e d. ProcessAttempt S e (attempt_of a) ttl d)) w = (r', w0)"
    by (cases "run_state (sql V (\<lambda>e d. ProcessAttempt S e (attempt_of a) ttl d)) w")
  obtain t w2 where t: "time_now V w0 = (t, w2)" by (cases "time_now V w0")
  have "ShouldRetry p m (wrap64 (t - start))"
    using assms(1) q t by (auto simp: process_once_def classifyOutcome_def split: option.splits if_splits)
  then show ?thesis by (rule retry_budget.allowed_below_limit [OF assms(2)])
qed

text \<open>
  \<open>outage w\<close> bounds how many more calls the world will fail for lack of a connection.
\<close>

lemma process_loop_total:
  fixes outage :: "'w \<Rightarrow> nat"
  assumes budget: "retry_budget (ShouldRetry p) (NextBackoff p) lim"
    and ranked: "\<And>m w oc r w1 dur w2. run_state (process_once S V ttl p a start m) w = ((oc, r), w1)
      \<Longrightarrow> sleepOrDone R dur w1 = (True, w2)
      \<Longrightarrow> outage w2 \<le> outage w \<and> (oc = OutcomeRetryUncounted \<longrightarrow> outage w2 < outage w)"
  shows "\<exists>y. process_loop C S V R dlq ttl p msg a start m n w = Some y"
proof (induction "(outage w, nat (lim - m))" arbitrary: m n w
    rule: wf_induct_rule [OF wf_lex_prod [OF wf_less_than wf_less_than]])
  case (1 m w n)
  obtain oc r w1 where once: "run_state (process_once S V ttl p a start m) w = ((oc, r), w1)"
    by (metis prod.exhaust)
  show ?case
  proof (cases oc)
    case OutcomeCommit
    with once show ?thesis by (subst process_loop.simps) auto
  next
    case OutcomeDeadLetter
    with once show ?thesis by (subst process_loop.simps) auto
  next
    case OutcomeRetryUncounted
    obtain ok w2 where sl: "sleepOrDone R (NextBackoff p (n + 1)) w1 = (ok, w2)"
      by (cases "sleepOrDone R (NextBackoff p (n + 1)) w1")
    show ?thesis
    proof (cases ok)
      case True
      with ranked [OF once] sl OutcomeRetryUncounted have "outage w2 < outage w" by simp
      then have "\<exists>y. process_loop C S V R dlq ttl p msg a start m (n + 1) w2 = Some y" by (intro 1) simp
      with once sl True OutcomeRetryUncounted show ?thesis by (subst process_loop.simps) auto
    next
      case False
      with once sl OutcomeRetryUncounted show ?thesis by (subst process_loop.simps) auto
    qed
  next
    case OutcomeRetryCounted
    obtain ok w2 where sl: "sleepOrDone R (NextBackoff p (m + 1)) w1 = (ok, w2)"
      by (cases "sleepOrDone R (NextBackoff p (m + 1)) w1")
    show ?thesis
    proof (cases ok)
      case True
      with ranked [OF once] sl have "outage w2 \<le> outage w" by simp
      moreover have "m < lim" using process_once_budget [OF once [unfolded OutcomeRetryCounted] budget] .
      ultimately have "\<exists>y. process_loop C S V R dlq ttl p msg a start (m + 1) n w2 = Some y"
        by (intro 1) auto
      with once sl True OutcomeRetryCounted show ?thesis by (subst process_loop.simps) auto
    next
      case False
      with once sl OutcomeRetryCounted show ?thesis by (subst process_loop.simps) auto
    qed
  qed
qed

section \<open>Errors of an attempt\<close>

text \<open>An error of the driver is none of the values the transaction tests for.\<close>

definition driver_fault :: "tx_env \<Rightarrow> bool" where
  "driver_fault e \<longleftrightarrow> (\<forall>pt er. fault e pt = Some er \<longrightarrow> \<not> errors_is er ErrNoRows
     \<and> \<not> errors_is er ErrItemNotFound \<and> \<not> errors_is er ErrInvalidQuantity)"

lemma sentinel_shapes [simp]:
  "PqErr c \<noteq> ErrNoRows" "PqErr c \<noteq> ErrItemNotFound" "PqErr c \<noteq> ErrInvalidQuantity"
  "WrapErr x er y \<noteq> ErrNoRows" "WrapErr x er y \<noteq> ErrItemNotFound" "WrapErr x er y \<noteq> ErrInvalidQuantity"
  "\<not> errors_is ErrNoRows ErrItemNotFound" "\<not> errors_is ErrNoRows ErrInvalidQuantity"
  "\<not> errors_is ErrItemNotFound ErrInvalidQuantity" "\<not> errors_is ErrInvalidQuantity ErrItemNotFound"
  "\<not> errors_is ErrItemNotFound ErrNoRows" "\<not> errors_is ErrInvalidQuantity ErrNoRows"
  by (simp_all add: ErrNoRows_def ErrItemNotFound_def ErrInvalidQuantity_def)

lemma sentinel_errors:
  assumes "driver_fault e" "ProcessAttempt S e a ttl d = (Inl er, d')"
  shows "(errors_is er ErrInvalidQuantity \<longrightarrow> Quantity a \<le> 0)
    \<and> (errors_is er ErrItemNotFound \<longrightarrow> (\<exists>u. uuid_in S (ItemID a) = Some u \<and> find_item u d = None))"
  using assms(2) assms(1) [unfolded driver_fault_def]
  by (auto simp: ProcessAttempt_def sql_defs Let_def errors_is_self split: option.splits if_splits)

lemma no_fault_error_kind:
  assumes "no_fault e" "ProcessAttempt S e a ttl d = (Inl er, d')"
  shows "errors_is er ErrItemNotFound \<or> errors_is er ErrInvalidQuantity \<or> errors_as_pq er \<noteq> None"
  using assms by (auto simp: ProcessAttempt_def no_fault_def sql_defs Let_def split: option.splits if_splits)

section \<open>Example runs\<close>

text \<open>
  A codec that decodes every message to one attempt, and a world whose transactions meet the given
  faults when they begin.
\<close>

definition demo_event :: purchase_attempted where
  "demo_event = \<lparr> pa_ItemID = uuid_out canonical_server 7, pa_UserID = ''alice'', pa_Quantity = 3,
     pa_IdempotencyKey = ''k1'', pa_AttemptedAt = 0 \<rparr>"

definition demo_codec :: codec where
  "demo_codec =
     \<lparr> marshal_attempt = (\<lambda>a. Inr (pa_ItemID a)), unmarshal_attempt = (\<lambda>s. Inr demo_event),
       marshal_joined = (\<lambda>b. Inr (bj_ItemID b)), unmarshal_joined = (\<lambda>s. Inl (PlainErr ''not used'')),
       marshal_dead = (\<lambda>d. Inr (int_text (dl_AttemptCount d))) \<rparr>"

definition demo_message :: kafka_message where
  "demo_message = \<lparr> km_Topic = CheckoutAttemptsTopic, km_Partition = 0, km_Offset = 41,
     km_Key = uuid_out canonical_server 7, km_Value = ''{}'' \<rparr>"

definition begin_fault :: "goerr \<Rightarrow> tx_env" where
  "begin_fault er = (quiet_env 0)\<lparr>fault := (\<lambda>pt. if pt = AtBegin then Some er else None)\<rparr>"

definition mem_faults :: "goerr list \<Rightarrow> int \<Rightarrow> mem" where
  "mem_faults ers t =
     \<lparr> m_store = Map.empty, m_clock = t, m_topics = (\<lambda>t. []), m_db = demo_db, m_redis_faults = [],
       m_kafka_faults = [], m_tx = map begin_fault ers, m_rand = [], m_inbox = [], m_committed = [],
       m_commit_faults = [], m_sleeps = None \<rparr>"

definition begin_err :: "goerr \<Rightarrow> goerr" where
  "begin_err er = wrap_err ''decision: beginning transaction: '' er"

lemma mem_faults_once:
  "run_state (process_once canonical_server mem_services ttl p demo_event start m) (mem_faults (er # ers) t)
     = ((classifyOutcome (Some (begin_err er)) p m (wrap64 (t - start)), Inl (begin_err er)), mem_faults ers t)"
  by (simp add: process_once_def mem_sql mem_faults_def pop_def begin_fault_def attempt_of_def demo_event_def
      ProcessAttempt_def error_of_def begin_err_def Let_def)

lemma mem_faults_sleep:
  "0 \<le> dur \<Longrightarrow> sleepOrDone mem_consumer dur (mem_faults ers t) = (True, mem_faults ers (t + dur))"
  by (simp add: sleepOrDone_def mem_consumer_def mem_faults_def)

lemma demo_decode: "DecodeAttempt demo_codec v = Inr demo_event"
  by (simp add: DecodeAttempt_def demo_codec_def)

lemma demo_start: "m_clock (mem_faults ers t) = t"
  by (simp add: mem_faults_def)

abbreviation demo_loop :: "policy \<Rightarrow> int \<Rightarrow> int \<Rightarrow> mem \<Rightarrow> (bool \<times> mem) option" where
  "demo_loop p m n w \<equiv> process_loop demo_codec canonical_server mem_services mem_consumer (NewDLQWriter []) 120 p
     demo_message demo_event 0 m n w"

lemma demo_loop_counted:
  assumes "sane_policy p" "classifyOutcome (Some (begin_err er)) p m (wrap64 t) = OutcomeRetryCounted"
  shows "demo_loop p m n (mem_faults (er # ers) t) = demo_loop p (m + 1) n (mem_faults ers (t + NextBackoff p (m + 1)))"
  using NextBackoff_pos [OF assms(1), of "m + 1"]
  by (subst process_loop.simps) (simp add: mem_faults_once assms(2) mem_faults_sleep)

lemma demo_loop_uncounted:
  assumes "sane_policy p" "classifyOutcome (Some (begin_err er)) p m (wrap64 t) = OutcomeRetryUncounted"
  shows "demo_loop p m n (mem_faults (er # ers) t) = demo_loop p m (n + 1) (mem_faults ers (t + NextBackoff p (n + 1)))"
  using NextBackoff_pos [OF assms(1), of "n + 1"]
  by (subst process_loop.simps) (simp add: mem_faults_once assms(2) mem_faults_sleep)

lemma demo_loop_dead:
  assumes "classifyOutcome (Some (begin_err er)) p m (wrap64 t) = OutcomeDeadLetter"
  shows "\<exists>w'. demo_loop p m n (mem_faults (er # ers) t) = Some (True, w') \<and> m_tx w' = map begin_fault ers
    \<and> m_db w' = demo_db \<and> m_committed w' = [demo_message]
    \<and> m_topics w' DeadLetterTopic = [\<lparr> msg_key = km_Key demo_message, msg_value = int_text m \<rparr>]"
  by (subst process_loop.simps, simp only: mem_faults_once diff_zero assms prod.case dec_outcome.case)
    (simp add: sendToDeadLetter_def commitOrLog_def PublishDeadLetter_def demo_codec_def
      mem_kafka_def mem_faults_def mem_consumer_def pop_def NewDLQWriter_def Let_def)

lemma begin_err_pq: "classifyOutcome (Some (begin_err (PqErr c))) p m t
    = (if ShouldRetry p m t then OutcomeRetryCounted else OutcomeDeadLetter)"
  by (simp add: classifyOutcome_def begin_err_def isConnectivityError_def)

lemma begin_err_plain: "classifyOutcome (Some (begin_err (PlainErr c))) p m t = OutcomeRetryUncounted"
  by (simp add: classifyOutcome_def begin_err_def isConnectivityError_def ErrItemNotFound_def ErrInvalidQuantity_def)

lemma wrap64_small: "0 \<le> t \<Longrightarrow> t < 2 ^ 62 \<Longrightarrow> wrap64 t = t"
  by (rule wrap64_id) (simp add: int64_def int64_min_def int64_max_def)

lemma default_backoffs:
  "NextBackoff DefaultPolicy 1 = Second" "NextBackoff DefaultPolicy 2 = 2 * Second"
  "NextBackoff DefaultPolicy 3 = 4 * Second" "NextBackoff DefaultPolicy 4 = 8 * Second"
  "NextBackoff DefaultPolicy 5 = 16 * Second" "NextBackoff DefaultPolicy 6 = 30 * Second"
  "NextBackoff DefaultPolicy 7 = 30 * Second" "NextBackoff DefaultPolicy 8 = 30 * Second"
  using sane_DefaultPolicy
  by (simp_all add: NextBackoff_closed base_of_def cap_of_def DefaultPolicy_def duration_defs)

section \<open>Properties\<close>


text \<open>
  C6.  Every message is settled.  In every configuration the environment can give, and whatever errors
  the database answers with, the loop of a message returns if the outages of the connection end;
  \<open>outage\<close> bounds the calls that are still going to fail for lack of one.
\<close>

theorem consume_message_returns:
  fixes outage :: "'w \<Rightarrow> nat"
  assumes "\<And>a start m w oc r w1 dur w2.
      run_state (process_once S V ttl (decision_policy env) a start m) w = ((oc, r), w1)
      \<Longrightarrow> sleepOrDone R dur w1 = (True, w2)
      \<Longrightarrow> outage w2 \<le> outage w \<and> (oc = OutcomeRetryUncounted \<longrightarrow> outage w2 < outage w)"
  shows "\<exists>goes_on w'. consume_message C S V R dlq ttl (decision_policy env) msg w = Some (goes_on, w')"
proof (cases "DecodeAttempt C (km_Value msg)")
  case (Inl e)
  then show ?thesis by (auto simp: consume_message_def)
next
  case (Inr a)
  obtain start w1 where t: "time_now V w = (start, w1)" by (cases "time_now V w")
  have "\<exists>y. process_loop C S V R dlq ttl (decision_policy env) msg a start 0 0 w1 = Some y"
    by (rule process_loop_total [OF decision_policy_budget assms])
  with Inr t show ?thesis by (auto simp: consume_message_def)
qed

lemma mem_outage:
  assumes "run_state (process_once S mem_services ttl p a start m) w = ((oc, r), w1)"
    and "sleepOrDone mem_consumer dur w1 = (True, w2)"
  shows "length (m_tx w2) \<le> length (m_tx w) \<and> (oc = OutcomeRetryUncounted \<longrightarrow> length (m_tx w2) < length (m_tx w))"
proof -
  obtain e es where e: "pop (quiet_env (m_clock w)) (m_tx w) = (e, es)"
    by (cases "pop (quiet_env (m_clock w)) (m_tx w)")
  obtain d' where pa: "ProcessAttempt S e (attempt_of a) ttl (m_db w) = (r, d')"
    and w1: "w1 = w\<lparr>m_tx := es, m_db := d'\<rparr>" and oc: "\<exists>t. oc = classifyOutcome (error_of r) p m t"
    using assms(1) e by (auto simp: process_once_def mem_sql Let_def split: prod.splits)
  have tx: "m_tx w2 = es"
    using assms(2) w1 by (auto simp: sleepOrDone_def mem_consumer_def split: option.splits nat.splits prod.splits wake_up.splits)
  show ?thesis
  proof (cases "m_tx w")
    case Nil
    then have "no_fault e" "es = []" using e by (auto simp: pop_def quiet_env_def no_fault_def)
    with no_fault_error_kind [of e S "attempt_of a" ttl "m_db w"] pa have "oc \<noteq> OutcomeRetryUncounted"
      using oc by (cases r) (auto simp: classifyOutcome_def error_of_def isConnectivityError_def split: if_splits)
    with tx \<open>es = []\<close> show ?thesis by simp
  next
    case (Cons x xs)
    then show ?thesis using e tx by (auto simp: pop_def)
  qed
qed

theorem consume_message_returns_witness:
  "\<exists>goes_on w'. consume_message demo_codec canonical_server mem_services mem_consumer (NewDLQWriter []) 120
     (decision_policy Map.empty) demo_message (mem_faults [PlainErr ''EOF'', PqErr ''40001''] 0) = Some (goes_on, w')"
  by (rule consume_message_returns [where outage = "\<lambda>w. length (m_tx w)"]) (rule mem_outage)


text \<open>
  C30.  A message is dead-lettered only for a cause of its own, or when its budget is spent: if a call
  whose faults are the driver's own is classified as a dead letter, the quantity is not positive, or
  the item is not in the tables, or the server answered with an error and the counted attempts or the
  elapsed time have reached their limit.  A lost connection is never the cause.
\<close>

theorem dead_letter_only_for_cause:
  assumes "driver_fault e"
    and "classifyOutcome (error_of (fst (ProcessAttempt S e a ttl d))) p attemptCount elapsed = OutcomeDeadLetter"
  shows "Quantity a \<le> 0 \<or> (\<exists>u. uuid_in S (ItemID a) = Some u \<and> find_item u d = None)
    \<or> ((\<exists>er c. fst (ProcessAttempt S e a ttl d) = Inl er \<and> errors_as_pq er = Some c)
       \<and> (0 < MaxAttempts p \<and> MaxAttempts p \<le> attemptCount \<or> 0 < MaxElapsed p \<and> MaxElapsed p \<le> elapsed))"
proof -
  obtain r d' where pa: "ProcessAttempt S e a ttl d = (r, d')" by (cases "ProcessAttempt S e a ttl d")
  show ?thesis
  proof (cases r)
    case (Inr out)
    with assms(2) pa show ?thesis by (simp add: error_of_def classifyOutcome_def)
  next
    case (Inl er)
    note sent = sentinel_errors [OF assms(1) pa [unfolded Inl]]
    show ?thesis
    proof (cases "errors_is er ErrItemNotFound \<or> errors_is er ErrInvalidQuantity")
      case True
      with sent show ?thesis by blast
    next
      case False
      with assms(2) pa Inl show ?thesis
        by (auto simp: error_of_def classifyOutcome_def isConnectivityError_def ShouldRetry_iff
            not_less split: if_splits)
    qed
  qed
qed

theorem dead_letter_only_for_cause_witness:
  "classifyOutcome (error_of (fst (ProcessAttempt canonical_server (begin_fault (PqErr ''40001'')) demo_attempt 120 demo_db)))
      DefaultPolicy 5 0 = OutcomeDeadLetter
   \<and> (\<exists>er c. fst (ProcessAttempt canonical_server (begin_fault (PqErr ''40001'')) demo_attempt 120 demo_db) = Inl er
        \<and> errors_as_pq er = Some c)"
proof -
  have pa: "ProcessAttempt canonical_server (begin_fault (PqErr ''40001'')) demo_attempt 120 demo_db
      = (Inl (begin_err (PqErr ''40001'')), demo_db)"
    by (simp add: ProcessAttempt_def begin_fault_def demo_attempt_def begin_err_def)
  have df: "driver_fault (begin_fault (PqErr ''40001''))"
    by (simp add: driver_fault_def begin_fault_def)
  have dead: "classifyOutcome (error_of (fst (ProcessAttempt canonical_server (begin_fault (PqErr ''40001'')) demo_attempt 120 demo_db)))
      DefaultPolicy 5 0 = OutcomeDeadLetter"
    by (simp only: pa fst_conv error_of_def sum.case begin_err_pq) (simp add: ShouldRetry_def DefaultPolicy_def)
  from dead_letter_only_for_cause [OF df dead] dead show ?thesis
    by (auto simp: demo_facts demo_attempt_def canonical.uuid_in_out demo_db_def demo_item_def)
qed



end
