(* ===== verification/DecisionMain.thy ===== *)
theory DecisionMain
  imports Server DecisionService
begin

text \<open>
  The consume loop of \<open>cmd/decision-service/main.go\<close> over all its messages, and the process around it:
  connecting, the health server, the loop in \<open>main\<close>'s own goroutine, shutting down, the deferred calls.
  The lemmas show that every message whose offset was committed is handled and stays so.
\<close>

section \<open>The process\<close>

datatype decision_phase = DcConnect | DcConsume | DcShutdown | DcReturn | DcExit exit_status

record 'w decision_process =
  dp_phase :: decision_phase
  dp_defers :: "resource list"
  dp_closed :: "resource list"
  dp_health :: health_server
  dp_world :: 'w

definition decision_start :: "'w \<Rightarrow> 'w decision_process" where
  "decision_start w =
     \<lparr> dp_phase = DcConnect, dp_defers = [SignalContext], dp_closed = [], dp_health = new_health_server, dp_world = w \<rparr>"

datatype decision_event =
    DcPgOpen "goerr option" "goerr option"
  | DcLoopReturns
  | DcShutdownReturns "goerr option"
  | DcDeferred
  | DcHealth health_event

definition newHealthServer_decision :: "health_request \<Rightarrow> int + health_response" where
  "newHealthServer_decision = serve_health ''decision-service''"

text \<open>
  \<open>main\<close>: \<open>pgdb.New\<close>, the reader and the dead-letter writer, then \<open>runConsumeLoop\<close>, whose return (it may not
  have one) is one step here, \<open>Shutdown\<close> of the health server and the deferred calls.
\<close>

definition decision_consumes ::
    "codec \<Rightarrow> pg_server \<Rightarrow> 'w services \<Rightarrow> 'w consumer \<Rightarrow> decision_config \<Rightarrow> 'w \<Rightarrow> 'w option" where
  "decision_consumes C S V R cfg w =
     runConsumeLoop C S V R (NewDLQWriter (dec_brokers cfg)) (dec_reservationTTL cfg) (dec_policy cfg) w"

fun decision_main :: "codec \<Rightarrow> pg_server \<Rightarrow> 'w services \<Rightarrow> 'w consumer \<Rightarrow> decision_config \<Rightarrow> decision_event
    \<Rightarrow> 'w decision_process \<Rightarrow> 'w decision_process option" where
  "decision_main C S V R cfg (DcPgOpen er ping) p =
     (if dp_phase p \<noteq> DcConnect then None
      else case pgdb_New (\<lambda>_. er) (\<lambda>_. ping) \<lparr> pg_DSN = dec_dsn cfg, pg_MaxOpenConns = 0, pg_MaxIdleConns = 0,
                  pg_ConnMaxLifetime = 0 \<rparr> of
        Inl err \<Rightarrow> Some (p\<lparr>dp_phase := DcExit 1\<rparr>)
      | Inr conn \<Rightarrow> Some (p\<lparr>dp_phase := DcConsume, dp_defers := DlqWriter # KafkaReader # Database # dp_defers p\<rparr>))"
| "decision_main C S V R cfg DcLoopReturns p =
     (if dp_phase p \<noteq> DcConsume then None
      else case decision_consumes C S V R cfg (dp_world p) of
        None \<Rightarrow> None
      | Some w \<Rightarrow> Some (p\<lparr>dp_phase := DcShutdown, dp_world := w, dp_health := shutdown_health (dp_health p),
                          dp_defers := ShutdownTimer # dp_defers p\<rparr>))"
| "decision_main C S V R cfg (DcShutdownReturns r) p =
     (if dp_phase p = DcShutdown \<and> shutdown_may_return r (hs_http (dp_health p))
      then Some (p\<lparr>dp_phase := DcReturn\<rparr>) else None)"
| "decision_main C S V R cfg DcDeferred p =
     (if dp_phase p \<noteq> DcReturn then None
      else case dp_defers p of
        [] \<Rightarrow> Some (p\<lparr>dp_phase := DcExit 0\<rparr>)
      | r # rs \<Rightarrow> Some (p\<lparr>dp_defers := rs, dp_closed := dp_closed p @ [r]\<rparr>))"
| "decision_main C S V R cfg (DcHealth hev) p =
     (case dp_phase p of
        DcConnect \<Rightarrow> None
      | DcExit st \<Rightarrow> None
      | _ \<Rightarrow> (case health_next newHealthServer_decision hev (dp_health p) of
                None \<Rightarrow> None
              | Some h \<Rightarrow> Some (p\<lparr>dp_health := h\<rparr>)))"

definition decision_run :: "codec \<Rightarrow> pg_server \<Rightarrow> 'w services \<Rightarrow> 'w consumer \<Rightarrow> decision_config \<Rightarrow> decision_event list
    \<Rightarrow> 'w \<Rightarrow> 'w decision_process option" where
  "decision_run C S V R cfg evs w = run_events (decision_main C S V R cfg) evs (decision_start w)"

fun_cases decision_mainE: "decision_main C S V R cfg ev p = Some p'"

section \<open>What a committed message left behind\<close>

text \<open>
  A message is handled when the tables hold a verdict for its attempt or the dead-letter topic holds a
  letter that carries it verbatim.
\<close>

definition has_letter :: "codec \<Rightarrow> kafka_message \<Rightarrow> kmsg list \<Rightarrow> bool" where
  "has_letter C msg log \<longleftrightarrow> (\<exists>dl v. letter_of dl msg \<and> marshal_dead C dl = Inr v
     \<and> \<lparr> msg_key = km_Key msg, msg_value = v \<rparr> \<in> set log)"

definition has_verdict :: "codec \<Rightarrow> pg_server \<Rightarrow> kafka_message \<Rightarrow> shop \<Rightarrow> bool" where
  "has_verdict C S msg s \<longleftrightarrow> (\<exists>a u. DecodeAttempt C (km_Value msg) = Inr a \<and> uuid_in S (pa_ItemID a) = Some u
     \<and> verdict s (u, pa_IdempotencyKey a) \<noteq> None)"

definition handled :: "codec \<Rightarrow> pg_server \<Rightarrow> kafka_message \<Rightarrow> shop \<Rightarrow> kmsg list \<Rightarrow> bool" where
  "handled C S msg s log \<longleftrightarrow> has_verdict C S msg s \<or> has_letter C msg log"

definition verdicts_kept :: "shop \<Rightarrow> shop \<Rightarrow> bool" where
  "verdicts_kept s s' \<longleftrightarrow> (\<forall>x. verdict s x \<noteq> None \<longrightarrow> verdict s' x = verdict s x)"

lemma verdicts_kept_refl [simp]: "verdicts_kept s s"
  by (simp add: verdicts_kept_def)

lemma verdicts_kept_trans: "verdicts_kept s s' \<Longrightarrow> verdicts_kept s' s'' \<Longrightarrow> verdicts_kept s s''"
  by (simp add: verdicts_kept_def)

lemma decide_verdict:
  assumes "decide u k q s = Some (st, s')"
  shows "verdict s' (u, k) = Some st \<and> verdicts_kept s s'"
  using assms by (auto simp: decide_def verdicts_kept_def split: option.splits if_splits)

lemma decided_keeps: "decided_or_untouched S a s s' \<Longrightarrow> verdicts_kept s s'"
  using decide_verdict by (auto simp: decided_or_untouched_def)

lemma handled_mono:
  assumes "handled C S msg s log" "verdicts_kept s s'" "set log \<subseteq> set log'"
  shows "handled C S msg s' log'"
proof (cases "has_verdict C S msg s")
  case True
  with assms(2) show ?thesis unfolding handled_def has_verdict_def verdicts_kept_def by metis
next
  case False
  with assms(1,3) show ?thesis by (auto simp: handled_def has_letter_def)
qed

text \<open>A dead-letter topic that takes what it is given, and a clock whose times can be written.\<close>

definition dlq_accepts :: "codec \<Rightarrow> 'w services \<Rightarrow> writer \<Rightarrow> bool" where
  "dlq_accepts C V dlq \<longleftrightarrow> (\<forall>km w. fst (kafka_write V (w_Topic dlq) km w) = None)
     \<and> (\<forall>dl w. dl_FailedAt dl = fst (time_now V w) \<longrightarrow> (\<exists>v. marshal_dead C dl = Inr v))"

context consumer_platform
begin

lemma sendToDeadLetter_letter:
  assumes "run_state (sendToDeadLetter C V dlq msg cause m) w = ((), w')" "dlq_accepts C V dlq"
  shows "has_letter C msg (topic (w_Topic dlq) w')"
proof -
  obtain t w1 where t: "time_now V w = (t, w1)" by (cases "time_now V w")
  define dl where "dl = \<lparr> dl_OriginalTopic = km_Topic msg, dl_OriginalPartition = km_Partition msg,
         dl_OriginalOffset = km_Offset msg, dl_OriginalKey = km_Key msg, dl_OriginalValue = km_Value msg,
         dl_Reason = err_text cause, dl_AttemptCount = m, dl_FailedAt = t \<rparr>"
  have "dl_FailedAt dl = fst (time_now V w)" by (simp add: dl_def t)
  then obtain v where v: "marshal_dead C dl = Inr v" using assms(2) unfolding dlq_accepts_def by blast
  let ?km = "\<lparr> msg_key = km_Key msg, msg_value = v \<rparr>"
  obtain r where "run_state (PublishDeadLetter C V dlq dl) w1 = (r, w')"
    using assms(1) t by (auto simp: sendToDeadLetter_def dl_def split: prod.splits)
  then obtain ke where k: "kafka_write V (w_Topic dlq) ?km w1 = (ke, w')"
    using v by (auto simp: PublishDeadLetter_def dl_def split: prod.splits)
  have "fst (kafka_write V (w_Topic dlq) ?km w1) = None" using assms(2) unfolding dlq_accepts_def by blast
  with k have "kafka_write V (w_Topic dlq) ?km w1 = (None, w')" by simp
  from acknowledged [OF this] have "?km \<in> set (topic (w_Topic dlq) w')" by auto
  moreover have "letter_of dl msg" by (simp add: letter_of_def dl_def)
  ultimately show ?thesis using v unfolding has_letter_def by blast
qed

lemma dead_lettered:
  assumes "dlq_accepts C V dlq"
  shows "has_letter C msg (topic (w_Topic dlq) (snd (run_state (do {
            _ \<leftarrow> sendToDeadLetter C V dlq msg cause m;
            commitOrLog R msg
          }) w)))"
proof -
  obtain w1 where d: "run_state (sendToDeadLetter C V dlq msg cause m) w = ((), w1)"
    by (cases "run_state (sendToDeadLetter C V dlq msg cause m) w") auto
  obtain w2 where c: "run_state (commitOrLog R msg) w1 = ((), w2)" by (cases "run_state (commitOrLog R msg) w1") auto
  from sendToDeadLetter_letter [OF d assms] commitOrLog_effect [OF c, of "w_Topic dlq"] d c show ?thesis by simp
qed

lemma process_loop_handles:
  assumes "process_loop C S V R dlq ttl p msg a start m n w = Some y" "dlq_accepts C V dlq"
    and "DecodeAttempt C (km_Value msg) = Inr a"
  shows "fst y \<longrightarrow> handled C S msg (shop_of (tables (snd y))) (topic (w_Topic dlq) (snd y))"
  using assms(1)
proof (induction rule: process_loop_induct)
  case (commit m n w r w1)
  from process_once_effect [OF commit] obtain e elapsed where
    pa: "ProcessAttempt S e (attempt_of a) ttl (tables w) = (r, tables w1)"
    and cls: "OutcomeCommit = classifyOutcome (error_of r) p m elapsed" by blast
  obtain out where r: "r = Inr out"
    using cls by (cases r) (auto simp: classifyOutcome_def error_of_def split: if_splits)
  obtain u where "uuid_in S (pa_ItemID a) = Some u"
    "decide u (pa_IdempotencyKey a) (pa_Quantity a) (shop_of (tables w)) = Some (Status out, shop_of (tables w1))"
    using attempt_work_decides [OF ProcessAttempt_Inr [OF pa [unfolded r]]] by (auto simp: attempt_of_def)
  then have "has_verdict C S msg (shop_of (tables w1))"
    using decide_verdict assms(3) unfolding has_verdict_def by (metis option.distinct(1))
  moreover obtain w2 where c: "run_state (commitOrLog R msg) w1 = ((), w2)" by (cases "run_state (commitOrLog R msg) w1") auto
  ultimately show ?case using commitOrLog_effect [OF c] by (simp add: handled_def)
next
  case (dead m n w r w1)
  from dead_lettered [OF assms(2)] show ?case by (simp add: handled_def)
qed simp_all

lemma consume_message_effect:
  assumes "consume_message C S V R dlq ttl p msg w = Some (goes_on, w')" "dlq_accepts C V dlq"
  shows "verdicts_kept (shop_of (tables w)) (shop_of (tables w'))
    \<and> set (topic (w_Topic dlq) w) \<subseteq> set (topic (w_Topic dlq) w')
    \<and> (committed w' = committed w \<or> goes_on \<and> committed w' = committed w @ [msg])
    \<and> (goes_on \<longrightarrow> handled C S msg (shop_of (tables w')) (topic (w_Topic dlq) w'))"
proof (cases "DecodeAttempt C (km_Value msg)")
  case (Inl err)
  obtain w1 where d: "run_state (sendToDeadLetter C V dlq msg err 0) w = ((), w1)"
    by (cases "run_state (sendToDeadLetter C V dlq msg err 0) w") auto
  obtain w2 where c: "run_state (commitOrLog R msg) w1 = ((), w2)" by (cases "run_state (commitOrLog R msg) w1") auto
  have w': "goes_on" "w' = w2" using assms(1) Inl d c by (auto simp: consume_message_def)
  have "set (topic (w_Topic dlq) w) \<subseteq> set (topic (w_Topic dlq) w1)" "tables w1 = tables w" "committed w1 = committed w"
    using sendToDeadLetter_effect [OF d] by (auto simp: lettered_def)
  with sendToDeadLetter_letter [OF d assms(2)] commitOrLog_effect [OF c, of "w_Topic dlq"] w' show ?thesis
    by (auto simp: handled_def)
next
  case (Inr a)
  obtain start w1 where t: "time_now V w = (start, w1)" by (cases "time_now V w")
  then have loop: "process_loop C S V R dlq ttl p msg a start 0 0 w1 = Some (goes_on, w')"
    using assms(1) Inr by (simp add: consume_message_def)
  have same: "topic (w_Topic dlq) w1 = topic (w_Topic dlq) w" "committed w1 = committed w" "tables w1 = tables w"
    using time_frame [OF t] committed_time [OF t] by auto
  note out = process_loop_msg_outcome [OF loop, unfolded same fst_conv snd_conv]
  then have "verdicts_kept (shop_of (tables w)) (shop_of (tables w'))"
    by (auto simp: msg_outcome_def intro: decided_keeps)
  moreover have "set (topic (w_Topic dlq) w) \<subseteq> set (topic (w_Topic dlq) w')"
    using out by (auto simp: msg_outcome_def lettered_def split: if_splits)
  moreover have "committed w' = committed w \<or> goes_on \<and> committed w' = committed w @ [msg]"
    using out by (auto simp: msg_outcome_def split: if_splits)
  ultimately show ?thesis using process_loop_handles [OF loop assms(2) Inr] by simp
qed

end

lemma runConsumeLoop_induct [consumes 1, case_names cancelled unfetched stopped continued]:
  assumes "runConsumeLoop C S V R dlq ttl p w = Some y"
    and cancelled: "\<And>w err w1. fetch_message R w = (Inl err, w1) \<Longrightarrow> errors_is err ErrCanceled \<Longrightarrow> P w w1"
    and unfetched: "\<And>w err w1 y. fetch_message R w = (Inl err, w1) \<Longrightarrow> \<not> errors_is err ErrCanceled \<Longrightarrow> P w1 y \<Longrightarrow> P w y"
    and stopped: "\<And>w msg w1 w2. fetch_message R w = (Inr msg, w1)
      \<Longrightarrow> consume_message C S V R dlq ttl p msg w1 = Some (False, w2) \<Longrightarrow> P w w2"
    and continued: "\<And>w msg w1 w2 y. fetch_message R w = (Inr msg, w1)
      \<Longrightarrow> consume_message C S V R dlq ttl p msg w1 = Some (True, w2) \<Longrightarrow> P w2 y \<Longrightarrow> P w y"
  shows "P w y"
proof -
  define Q where "Q = (\<lambda>C' S' V' R' dlq' ttl' p' w y.
    C' = C \<longrightarrow> S' = S \<longrightarrow> V' = V \<longrightarrow> R' = R \<longrightarrow> dlq' = dlq \<longrightarrow> ttl' = ttl \<longrightarrow> p' = p \<longrightarrow> P w y)"
  have "Q C S V R dlq ttl p w y"
  proof (rule runConsumeLoop.raw_induct [of Q, OF _ assms(1)])
    fix loop C' S' V' R' dlq' ttl' p' w y
    assume ih: "\<And>C S V R dlq ttl p w y. loop C S V R dlq ttl p w = Some y \<Longrightarrow> Q C S V R dlq ttl p w y"
      and body: "(case fetch_message R' w of
        (Inl err, w1) \<Rightarrow> if errors_is err ErrCanceled then Some w1 else loop C' S' V' R' dlq' ttl' p' w1
      | (Inr msg, w1) \<Rightarrow>
          Option.bind (consume_message C' S' V' R' dlq' ttl' p' msg w1)
            (\<lambda>(continue, w2). if continue then loop C' S' V' R' dlq' ttl' p' w2 else Some w2)) = Some y"
    show "Q C' S' V' R' dlq' ttl' p' w y"
      unfolding Q_def
    proof (intro impI)
      assume eqs: "C' = C" "S' = S" "V' = V" "R' = R" "dlq' = dlq" "ttl' = ttl" "p' = p"
      obtain f w1 where f: "fetch_message R w = (f, w1)" by (cases "fetch_message R w")
      show "P w y"
      proof (cases f)
        case (Inl err)
        show ?thesis
        proof (cases "errors_is err ErrCanceled")
          case True
          with body f Inl cancelled show ?thesis by (auto simp: eqs)
        next
          case False
          with body f Inl have "loop C S V R dlq ttl p w1 = Some y" by (simp add: eqs)
          from ih [OF this] unfetched f Inl False show ?thesis by (auto simp: Q_def)
        qed
      next
        case (Inr msg)
        with body [unfolded eqs] f obtain c w2 where c: "consume_message C S V R dlq ttl p msg w1 = Some (c, w2)"
          "(if c then loop C S V R dlq ttl p w2 else Some w2) = Some y"
          by (auto simp: Option.bind_eq_Some_conv)
        show ?thesis
        proof (cases c)
          case True
          with c have "loop C S V R dlq ttl p w2 = Some y" by simp
          from ih [OF this] continued f Inr c True show ?thesis by (auto simp: Q_def)
        next
          case False
          with c f Inr stopped show ?thesis by auto
        qed
      qed
    qed
  qed
  then show ?thesis by (simp add: Q_def)
qed

context consumer_platform
begin

text \<open>The loop commits messages one after the other, and each of them stays handled.\<close>

lemma loop_commits_handled:
  assumes "runConsumeLoop C S V R dlq ttl p w = Some w'" "dlq_accepts C V dlq"
  shows "verdicts_kept (shop_of (tables w)) (shop_of (tables w'))
    \<and> set (topic (w_Topic dlq) w) \<subseteq> set (topic (w_Topic dlq) w')
    \<and> (\<exists>ms. committed w' = committed w @ ms
        \<and> (\<forall>m\<in>set ms. handled C S m (shop_of (tables w')) (topic (w_Topic dlq) w')))"
  using assms(1)
proof (induction rule: runConsumeLoop_induct)
  case (cancelled w err w1)
  from fetch_frame [OF cancelled(1), of "w_Topic dlq"] show ?case by simp
next
  case (unfetched w err w1 y)
  from fetch_frame [OF unfetched(1), of "w_Topic dlq"] unfetched(3) show ?case by simp
next
  case (stopped w msg w1 w2)
  from fetch_frame [OF stopped(1), of "w_Topic dlq"] consume_message_effect [OF stopped(2) assms(2)] show ?case
    by simp
next
  case (continued w msg w1 w2 y)
  note fr = fetch_frame [OF continued(1), of "w_Topic dlq"]
  note one = consume_message_effect [OF continued(2) assms(2)]
  obtain ms where ms: "committed y = committed w2 @ ms"
    "\<forall>m\<in>set ms. handled C S m (shop_of (tables y)) (topic (w_Topic dlq) y)"
    and later: "verdicts_kept (shop_of (tables w2)) (shop_of (tables y))"
      "set (topic (w_Topic dlq) w2) \<subseteq> set (topic (w_Topic dlq) y)"
    using continued(3) by blast
  have "handled C S msg (shop_of (tables y)) (topic (w_Topic dlq) y)"
    using handled_mono [OF _ later] one by blast
  with ms one fr have "\<exists>ms. committed y = committed w @ ms
      \<and> (\<forall>m\<in>set ms. handled C S m (shop_of (tables y)) (topic (w_Topic dlq) y))"
    by (elim conjE disjE) (intro exI [of _ ms] exI [of _ "msg # ms"]; simp)+
  moreover have "verdicts_kept (shop_of (tables w)) (shop_of (tables y))"
    using one fr later(1) by (auto intro: verdicts_kept_trans)
  ultimately show ?case using one fr later(2) by auto
qed

end

section \<open>The process and its loop\<close>

definition decision_resources :: "resource list" where
  "decision_resources = [ShutdownTimer, DlqWriter, KafkaReader, Database, SignalContext]"

text \<open>The world of the process is that of the start until the loop has returned, and that of its return after.\<close>

definition decision_ok ::
    "codec \<Rightarrow> pg_server \<Rightarrow> 'w services \<Rightarrow> 'w consumer \<Rightarrow> decision_config \<Rightarrow> 'w \<Rightarrow> 'w decision_process \<Rightarrow> bool" where
  "decision_ok C S V R cfg w p \<longleftrightarrow>
     (case dp_phase p of
        DcConnect \<Rightarrow> dp_world p = w \<and> dp_defers p = [SignalContext] \<and> dp_closed p = []
      | DcConsume \<Rightarrow> dp_world p = w \<and> dp_defers p = tl decision_resources \<and> dp_closed p = []
      | DcShutdown \<Rightarrow> decision_consumes C S V R cfg w = Some (dp_world p) \<and> dp_defers p = decision_resources \<and> dp_closed p = []
      | DcReturn \<Rightarrow> decision_consumes C S V R cfg w = Some (dp_world p) \<and> dp_closed p @ dp_defers p = decision_resources
      | DcExit st \<Rightarrow> st = 1 \<and> dp_world p = w \<and> dp_closed p = []
          \<or> st = 0 \<and> decision_consumes C S V R cfg w = Some (dp_world p) \<and> dp_closed p = decision_resources)"

lemma decision_ok_next:
  "decision_main C S V R cfg ev p = Some p' \<Longrightarrow> decision_ok C S V R cfg w p \<Longrightarrow> decision_ok C S V R cfg w p'"
  by (elim decision_mainE)
    (auto simp: decision_ok_def decision_resources_def
      split: if_splits option.splits sum.splits list.splits decision_phase.splits)

lemma decision_ok_run:
  assumes "decision_run C S V R cfg evs w = Some p"
  shows "decision_ok C S V R cfg w p"
  using assms unfolding decision_run_def
  by (rule run_events_invariant) (auto simp: decision_ok_def decision_start_def dest: decision_ok_next)

section \<open>An example\<close>

lemma steady_dlq: "dlq_accepts demo_codec steady_services (NewDLQWriter bs)"
  by (simp add: dlq_accepts_def demo_codec_def)

definition mem_inbox :: "kafka_message \<Rightarrow> mem" where
  "mem_inbox msg = (mem_faults [] 0)\<lparr>m_inbox := [Inr msg]\<rparr>"

definition demo_decision_config :: decision_config where
  "demo_decision_config = decision_main_config (\<lambda>_. None)"

lemma demo_attempt_commits:
  assumes "ItemID a = uuid_out canonical_server 7" "Quantity a = 3"
  shows "\<exists>out d. ProcessAttempt canonical_server (quiet_env 0) a ttl demo_db = (Inr out, d)"
  by (simp add: assms ProcessAttempt_def sql_defs Let_def quiet_env_def canonical.uuid_in_out demo_db_def demo_item_def
      commit_tx_def int4_def)

text \<open>A message for the demonstration item is decided, committed, and the loop ends at the next fetch.\<close>

lemma inbox_loop:
  assumes "DecodeAttempt C (km_Value msg) = Inr a" "pa_ItemID a = uuid_out canonical_server 7" "pa_Quantity a = 3"
  shows "\<exists>w. runConsumeLoop C canonical_server steady_services mem_consumer dlq ttl p (mem_inbox msg) = Some w
    \<and> m_committed w = [msg]"
proof -
  let ?w1 = "mem_faults [] 0"
  have fetch: "fetch_message mem_consumer (mem_inbox msg) = (Inr msg, ?w1)"
    by (simp add: mem_consumer_def mem_inbox_def mem_faults_def)
  obtain out d where pa: "ProcessAttempt canonical_server (quiet_env 0) (attempt_of a) ttl demo_db = (Inr out, d)"
    using demo_attempt_commits [of "attempt_of a" ttl] assms(2,3) by (auto simp: attempt_of_def)
  have starts: "pg_begin mem_services ?w1 = ((quiet_env 0, demo_db), ?w1)"
    by (simp add: mem_services_def mem_faults_def pop_def)
  have once: "run_state (process_once canonical_server steady_services ttl p a 0 0) ?w1
      = ((OutcomeCommit, Inr out), ?w1\<lparr>m_db := d\<rparr>)"
    by (simp add: process_once_def sql_def starts pa error_of_def classifyOutcome_def)
  let ?w2 = "?w1\<lparr>m_db := d, m_committed := [msg]\<rparr>"
  have "process_loop C canonical_server steady_services mem_consumer dlq ttl p msg a 0 0 0 ?w1 = Some (True, ?w2)"
    by (subst process_loop.simps, simp add: once) (simp add: commitOrLog_def mem_consumer_def mem_faults_def pop_def)
  then have msg: "consume_message C canonical_server steady_services mem_consumer dlq ttl p msg ?w1 = Some (True, ?w2)"
    by (simp add: consume_message_def assms(1) demo_start)
  have over: "fetch_message mem_consumer ?w2 = (Inl ErrCanceled, ?w2)" by (simp add: mem_consumer_def mem_faults_def)
  have "runConsumeLoop C canonical_server steady_services mem_consumer dlq ttl p ?w2 = Some ?w2"
    by (subst runConsumeLoop.simps) (simp add: over)
  then have "runConsumeLoop C canonical_server steady_services mem_consumer dlq ttl p (mem_inbox msg) = Some ?w2"
    by (subst runConsumeLoop.simps) (simp add: fetch msg)
  then show ?thesis by simp
qed

definition demo_decision_events :: "decision_event list" where
  "demo_decision_events = [DcPgOpen None None, DcHealth (HealthListens None), DcLoopReturns, DcShutdownReturns None]
     @ replicate 6 DcDeferred"

lemma inbox_run:
  assumes "DecodeAttempt C (km_Value msg) = Inr a" "pa_ItemID a = uuid_out canonical_server 7" "pa_Quantity a = 3"
  shows "\<exists>p. decision_run C canonical_server steady_services mem_consumer demo_decision_config demo_decision_events
        (mem_inbox msg) = Some p \<and> dp_phase p = DcExit 0 \<and> m_committed (dp_world p) = [msg]"
proof -
  obtain w where w: "decision_consumes C canonical_server steady_services mem_consumer demo_decision_config (mem_inbox msg)
      = Some w" "m_committed w = [msg]" using inbox_loop [OF assms] unfolding decision_consumes_def by blast
  then show ?thesis
    by (simp add: decision_run_def demo_decision_events_def decision_start_def pgdb_New_def Let_def server_defs
        new_health_server_def new_http_server_def shutdown_health_def numeral_eq_Suc)
qed

section \<open>Properties\<close>



end
