(* ===== verification/Pipeline.thy ===== *)
theory Pipeline
  imports JsonRequests JsonEvents DecisionMain
begin

text \<open>
  \<open>checkout-api\<close> and \<open>decision-service\<close> joined by the topic between them: what a buyer was told at the
  checkout, and what the tables or the dead-letter topic hold once the message was consumed.
\<close>

section \<open>What a checkout publishes\<close>

context platform
begin

lemma checkout_published:
  assumes "run_state (handleCheckout C V wr ttl i body) w = (resp, w')" "resp_status resp = 200"
  obtains req key t v k cr where "body = Some req" "marshal_attempt C (attempt_event i req key t) = Inr v"
    "topic (w_Topic wr) w' = topic (w_Topic wr) w @ replicate (Suc k) \<lparr> msg_key = i, msg_value = v \<rparr>"
    "valid_utf8 key" "resp_body resp = Payload cr" "cr_ItemID cr = i" "cr_UserID cr = req_UserID req"
    "cr_Quantity cr = req_Quantity req" "cr_IdempotencyKey cr = key"
  using assms(1)
proof (cases rule: handleCheckout_cases)
  case (published req w1 m w2 key w3 t w4 txt')
  have top: "topic (w_Topic wr) w4 = topic (w_Topic wr) w"
    using Redis_step_topics(1) [OF published(4)] Redis_step_topics(2) [OF published(5)]
      NewIdempotencyKey_frame [OF published(6)] time_frame [OF published(7)] by simp
  obtain v k where "marshal_attempt C (attempt_event i req key t) = Inr v"
    "topic (w_Topic wr) w' = topic (w_Topic wr) w4 @ replicate (Suc k) \<lparr> msg_key = i, msg_value = v \<rparr>"
    using PublishAttempt_acknowledged [OF published(8)] by (auto simp: attempt_event_def)
  with published(1) top NewIdempotencyKey_valid [OF published(6)] show thesis
    by (intro that [of req key t v k, OF _ _ _ _ published(9)]) simp_all
qed (use assms(2) in \<open>auto split: if_splits\<close>)

end

lemma canonical_text: "valid_utf8 (uuid_out canonical_server u)"
  by (rule valid_utf8_ascii)
    (auto simp: canonical_server_def canonical_out_def hyphenate_def Let_def dest!: in_set_takeD in_set_dropD hex_text_ascii)

lemma go_json_accepts:
  assumes "\<And>km w. fst (kafka_write V (w_Topic dlq) km w) = None"
    and "\<And>w. 0 \<le> fst (time_now V w)" "\<And>w. fst (time_now V w) \<le> 10 ^ 20"
  shows "dlq_accepts go_json V dlq"
proof -
  have "\<exists>v. marshal_dead go_json dl = Inr v" if "dl_FailedAt dl = fst (time_now V w)" for dl w
    using time_text_recent [OF assms(2,3), of w] that by (auto simp: go_json_def json_dead_def marshal_stamped_def)
  with assms(1) show ?thesis unfolding dlq_accepts_def by blast
qed
section \<open>Properties\<close>


text \<open>Three units of the demonstration item are bought, and the message is consumed.\<close>

definition mem_order :: mem where
  "mem_order = (mem_faults [] 0)\<lparr>m_store := [InventoryKey (uuid_out canonical_server 7) \<mapsto> (int_text 5, None),
     AdmissionKey (uuid_out canonical_server 7) ''u'' \<mapsto> (''t'', Some Minute)], m_rand := replicate 16 1\<rparr>"

lemma order_status:
  "resp_status (fst (run_state (handleCheckout go_json steady_services (NewWriter []) Minute
     (uuid_out canonical_server 7) (Some demo_request)) mem_order)) = 200"
proof -
  have texts: "parse_int64 (int_text 3) = Some 3" "parse_int64 (int_text 5) = Some 5" "dbl 3 = 3" "dbl 5 = 5" "dbl 2 = 2"
    "redis_int (int_text 3) = Some 3" "redis_int (int_text 5) = Some 5"
    by (simp_all add: parse_int64_int_text int64_def int64_min_def int64_max_def dbl_exact)
  have ne: "uuid_out canonical_server 7 \<noteq> []"
    by (simp add: canonical_server_def canonical_out_nonempty)
  obtain s where "time_text (2 * Millisecond) = Some s" using time_text_recent [of "2 * Millisecond"] by (auto simp: duration_defs)
  then show ?thesis
    by (simp add: handleCheckout_def go_defs mem_redis_def mem_order_def mem_faults_def demo_request_def ne
        pop_def Let_def duration_defs decrementScript_def decr_by_def incr_by_def double_lua_def texts
        int64_def int64_min_def int64_max_def go_json_def json_attempt_def marshal_stamped_def mem_services_def status_defs)
qed


end
