(* ===== verification/ExpiryWorker.thy ===== *)
theory ExpiryWorker
  imports Sale "HOL-Library.Multiset"
begin

text \<open>
  \<open>cmd/expiry-worker/main.go\<close>: the scanner that finds lapsed reservations, the \<open>jobs\<close> channel, and the
  pool of workers that release them.  Every step of the scanner and of a worker is a function on the
  state of the pool; \<open>pool_step\<close> interleaves them with each other and with the transactions of the
  other services.  The lemmas show that no job is lost or made up, that the channel never grows past a
  batch, that a reservation is released once whatever workers it is handed to, and that the pool drains.
\<close>

section \<open>State\<close>

text \<open>
  The scanner waits for its ticker, sends the rest of a batch, or has returned, leaving the rest of a
  batch unsent.  \<open>found\<close> collects what all scans returned and \<open>job_log\<close> what all calls returned; the program
  keeps neither.
\<close>

datatype scanner = ScanWaiting | ScanSending "string list" | ScanReturned "string list"

datatype worker_state = Idle | Expiring string | Returned

record pool =
  jobs_cap :: nat
  jobs :: "string list"
  jobs_closed :: bool
  scan_state :: scanner
  workers :: "worker_state list"
  stop_signal :: bool
  tables_of :: db
  found :: "string list"
  job_log :: "(string \<times> (goerr + expiry_outcome)) list"

text \<open>
  \<open>main\<close> up to the loops: the channel of one batch, the workers, and the ticker of \<open>runScanner\<close>.  A
  negative batch size or an interval that is not positive panics.
\<close>

definition start_pool :: "int \<Rightarrow> int \<Rightarrow> int \<Rightarrow> db \<Rightarrow> go_panic + pool" where
  "start_pool scanInterval batchSize poolSize d =
     (if batchSize < 0 then Inl MakeChanSize
      else if scanInterval \<le> 0 then Inl NonPositiveTicker
      else Inr \<lparr> jobs_cap = nat batchSize, jobs = [], jobs_closed = False, scan_state = ScanWaiting,
                 workers = replicate (nat poolSize) Idle, stop_signal = False, tables_of = d,
                 found = [], job_log = [] \<rparr>)"

section \<open>Steps of the scanner\<close>

text \<open>A tick scans; when the scan fails the loop goes on.\<close>

definition scan_tick :: "pg_server \<Rightarrow> tx_env \<Rightarrow> pool \<Rightarrow> pool option" where
  "scan_tick S e p =
     (if scan_state p \<noteq> ScanWaiting then None
      else case FindExpiredReservations S e (int (jobs_cap p)) (tables_of p) of
        Inl er \<Rightarrow> Some p
      | Inr ids \<Rightarrow> Some (p\<lparr>scan_state := ScanSending ids, found := found p @ ids\<rparr>))"

text \<open>The loop over the batch: a send waits for room in the channel; after the last one the scanner waits again.\<close>

definition scan_send :: "pool \<Rightarrow> pool option" where
  "scan_send p =
     (case scan_state p of
        ScanSending [] \<Rightarrow> Some (p\<lparr>scan_state := ScanWaiting\<rparr>)
      | ScanSending (rid # ids) \<Rightarrow>
          if length (jobs p) < jobs_cap p
          then Some (p\<lparr>jobs := jobs p @ [rid], scan_state := ScanSending ids\<rparr>)
          else None
      | _ \<Rightarrow> None)"

text \<open>When its context is done the scanner returns, from either \<open>select\<close>, and closes the channel.\<close>

definition scan_return :: "pool \<Rightarrow> pool option" where
  "scan_return p =
     (if \<not> stop_signal p then None
      else case scan_state p of
        ScanWaiting \<Rightarrow> Some (p\<lparr>scan_state := ScanReturned [], jobs_closed := True\<rparr>)
      | ScanSending (rid # ids) \<Rightarrow> Some (p\<lparr>scan_state := ScanReturned (rid # ids), jobs_closed := True\<rparr>)
      | _ \<Rightarrow> None)"

section \<open>Steps of a worker\<close>

text \<open>\<open>range jobs\<close>: the next job, or the end once the channel is closed and empty.\<close>

definition worker_receive :: "nat \<Rightarrow> pool \<Rightarrow> pool option" where
  "worker_receive i p =
     (if i < length (workers p) \<and> workers p ! i = Idle then
        (case jobs p of
           rid # rest \<Rightarrow> Some (p\<lparr>jobs := rest, workers := (workers p)[i := Expiring rid]\<rparr>)
         | [] \<Rightarrow> if jobs_closed p then Some (p\<lparr>workers := (workers p)[i := Returned]\<rparr>) else None)
      else None)"

text \<open>One call of \<open>ExpireReservation\<close>; whatever it returns is logged and the loop goes on.\<close>

definition worker_expire :: "pg_server \<Rightarrow> tx_env \<Rightarrow> nat \<Rightarrow> pool \<Rightarrow> pool option" where
  "worker_expire S e i p =
     (if i < length (workers p) then
        (case workers p ! i of
           Expiring rid \<Rightarrow>
             (case ExpireReservation S e rid (tables_of p) of
                (r, d) \<Rightarrow> Some (p\<lparr>tables_of := d, workers := (workers p)[i := Idle], job_log := job_log p @ [(rid, r)]\<rparr>))
         | _ \<Rightarrow> None)
      else None)"

text \<open>\<open>wg.Wait()\<close> returns when every worker has returned.\<close>

definition wg_Wait :: "pool \<Rightarrow> bool" where
  "wg_Wait p = list_all (\<lambda>w. w = Returned) (workers p)"

section \<open>Interleaving\<close>

datatype pool_event =
    ScanTick tx_env
  | ScanSend
  | ScanReturn
  | Receive nat
  | Work nat tx_env
  | Signal
  | Elsewhere_tx sale_op

fun pool_next :: "pg_server \<Rightarrow> pool_event \<Rightarrow> pool \<Rightarrow> pool option" where
  "pool_next S (ScanTick e) p = scan_tick S e p"
| "pool_next S ScanSend p = scan_send p"
| "pool_next S ScanReturn p = scan_return p"
| "pool_next S (Receive i) p = worker_receive i p"
| "pool_next S (Work i e) p = worker_expire S e i p"
| "pool_next S Signal p = Some (p\<lparr>stop_signal := True\<rparr>)"
| "pool_next S (Elsewhere_tx x) p = Some (p\<lparr>tables_of := snd (sale_step S x (tables_of p))\<rparr>)"

fun pool_run :: "pg_server \<Rightarrow> pool_event list \<Rightarrow> pool \<Rightarrow> pool option" where
  "pool_run S [] p = Some p"
| "pool_run S (ev # evs) p = (case pool_next S ev p of None \<Rightarrow> None | Some p' \<Rightarrow> pool_run S evs p')"

text \<open>An invariant of the steps is one of the runs.\<close>

lemma pool_run_invariant:
  assumes "pool_run S evs p = Some p'" "I p"
    and "\<And>ev q q'. pool_next S ev q = Some q' \<Longrightarrow> I q \<Longrightarrow> I q'"
  shows "I p'"
  using assms(1,2)
  by (induction evs arbitrary: p) (auto split: option.splits intro: assms(3))

lemmas pool_step_defs =
  scan_tick_def scan_send_def scan_return_def worker_receive_def worker_expire_def

section \<open>Jobs are neither lost nor made up\<close>

fun to_send :: "scanner \<Rightarrow> string list" where
  "to_send ScanWaiting = []"
| "to_send (ScanSending ids) = ids"
| "to_send (ScanReturned ids) = ids"

fun job_of :: "worker_state \<Rightarrow> string list" where
  "job_of (Expiring rid) = [rid]"
| "job_of _ = []"

definition busy :: "pool \<Rightarrow> string multiset" where
  "busy p = mset (concat (map job_of (workers p)))"

definition jobs_accounted :: "pool \<Rightarrow> bool" where
  "jobs_accounted p \<longleftrightarrow>
     mset (found p) = mset (map fst (job_log p)) + busy p + mset (jobs p) + mset (to_send (scan_state p))
   \<and> length (jobs p) \<le> jobs_cap p
   \<and> (jobs_closed p \<longleftrightarrow> (\<exists>ids. scan_state p = ScanReturned ids))
   \<and> (Returned \<in> set (workers p) \<longrightarrow> jobs_closed p \<and> jobs p = [])"

lemma mset_concat_update:
  "i < length ws \<Longrightarrow> mset (concat (map job_of (ws[i := w]))) + mset (job_of (ws ! i))
     = mset (concat (map job_of ws)) + mset (job_of w)"
proof (induction ws arbitrary: i)
  case Nil
  then show ?case by simp
next
  case (Cons x ws)
  then show ?case by (cases i) (auto simp: ac_simps)
qed

lemma busy_update:
  "i < length (workers p) \<Longrightarrow> workers p ! i = w \<Longrightarrow> workers q = (workers p)[i := w']
     \<Longrightarrow> busy q + mset (job_of w) = busy p + mset (job_of w')"
  unfolding busy_def using mset_concat_update [of i "workers p" w'] by simp

lemma jobs_accounted_step:
  assumes "pool_next S ev p = Some p'" "jobs_accounted p"
  shows "jobs_accounted p'"
proof (cases ev)
  case (ScanTick e)
  with assms show ?thesis
    by (auto simp: scan_tick_def jobs_accounted_def busy_def split: if_splits sum.splits)
next
  case ScanSend
  with assms show ?thesis
    by (auto simp: scan_send_def jobs_accounted_def busy_def split: if_splits scanner.splits list.splits)
next
  case ScanReturn
  with assms show ?thesis
    by (auto simp: scan_return_def jobs_accounted_def busy_def split: if_splits scanner.splits list.splits)
next
  case (Receive i)
  then have i: "i < length (workers p)" "workers p ! i = Idle"
    using assms(1) by (auto simp: worker_receive_def split: if_splits)
  show ?thesis
  proof (cases "jobs p")
    case (Cons rid rest)
    with assms(1) Receive i have p': "p' = p\<lparr>jobs := rest, workers := (workers p)[i := Expiring rid]\<rparr>"
      by (simp add: worker_receive_def)
    have "Returned \<notin> set (workers p')"
      using assms(2) Cons set_update_subset_insert [of "workers p" i "Expiring rid"]
      by (auto simp: jobs_accounted_def p')
    moreover have "busy p' = busy p + {#rid#}" using busy_update [OF i, of p' "Expiring rid"] by (simp add: p')
    ultimately show ?thesis using assms(2) Cons by (auto simp: jobs_accounted_def p')
  next
    case Nil
    with assms(1) Receive i have p': "jobs_closed p" "p' = p\<lparr>workers := (workers p)[i := Returned]\<rparr>"
      by (auto simp: worker_receive_def split: if_splits)
    have "busy p' = busy p" using busy_update [OF i, of p' Returned] by (simp add: p')
    with assms(2) Nil p'(1) show ?thesis by (auto simp: jobs_accounted_def p'(2))
  qed
next
  case (Work i e)
  then obtain rid r d where i: "i < length (workers p)" "workers p ! i = Expiring rid"
    and p': "p' = p\<lparr>tables_of := d, workers := (workers p)[i := Idle], job_log := job_log p @ [(rid, r)]\<rparr>"
    using assms(1) by (auto simp: worker_expire_def split: if_splits worker_state.splits prod.splits)
  have "Returned \<in> set (workers p') \<Longrightarrow> Returned \<in> set (workers p)"
    using set_update_subset_insert [of "workers p" i Idle] by (auto simp: p')
  moreover have "busy p' + {#rid#} = busy p"
    using busy_update [OF i, of p' Idle] by (simp add: p')
  ultimately show ?thesis using assms(2) by (auto simp: jobs_accounted_def p')
qed (use assms in \<open>auto simp: jobs_accounted_def busy_def\<close>)

lemma start_accounted: "start_pool t n k d = Inr p \<Longrightarrow> jobs_accounted p"
  by (auto simp: start_pool_def jobs_accounted_def busy_def split: if_splits)

section \<open>One release per reservation\<close>

definition settled :: "uuid \<Rightarrow> db \<Rightarrow> bool" where
  "settled u d \<longleftrightarrow> (\<exists>r. find_reservation u d = Some r \<and> res_status r \<noteq> Reserved)"

lemma find_list_all2_row:
  "list_all2 row_evolves xs ys \<Longrightarrow> find (\<lambda>r. res_id r = u) xs = Some r
     \<Longrightarrow> \<exists>r'. find (\<lambda>r. res_id r = u) ys = Some r' \<and> row_evolves r r'"
proof (induction rule: list_all2_induct)
  case (Cons x xs y ys)
  then have "res_id y = res_id x" by (auto simp: row_evolves_iff)
  with Cons show ?case by (auto split: if_splits)
qed simp

lemma settled_evolves:
  assumes "evolves d d'" "settled u d"
  shows "settled u d'"
proof -
  obtain r where r: "find_reservation u d = Some r" "res_status r \<noteq> Reserved"
    using assms(2) by (auto simp: settled_def)
  obtain old new where d': "reservations d' = old @ new" "list_all2 row_evolves (reservations d) old"
    using assms(1) by (auto simp: evolves_def)
  obtain r' where "find (\<lambda>r. res_id r = u) old = Some r'" "row_evolves r r'"
    using find_list_all2_row [OF d'(2) r(1)] by blast
  moreover from this r(2) have "res_status r' \<noteq> Reserved" by (auto simp: row_evolves_iff)
  moreover have "find_reservation u d' = Some r'"
    using calculation(1) by (simp add: d'(1) find_append)
  ultimately show ?thesis by (auto simp: settled_def)
qed

definition releases :: "pg_server \<Rightarrow> uuid \<Rightarrow> (string \<times> (goerr + expiry_outcome)) list \<Rightarrow> nat" where
  "releases S u calls = length (filter (\<lambda>(rid, r). uuid_in S rid = Some u \<and> released_by r) calls)"

lemma releases_snoc:
  "releases S u (calls @ [(rid, r)]) = releases S u calls + (if uuid_in S rid = Some u \<and> released_by r then 1 else 0)"
  by (simp add: releases_def)

definition released_once :: "pg_server \<Rightarrow> uuid \<Rightarrow> pool \<Rightarrow> bool" where
  "released_once S u p \<longleftrightarrow> schema_ok (tables_of p) \<and> releases S u (job_log p) \<le> 1
     \<and> (releases S u (job_log p) = 1 \<longrightarrow> settled u (tables_of p))"

context uuid_io
begin

lemma ExpireReservation_settles:
  assumes "schema_ok d" "ExpireReservation S e rid d = (r, d')" "released_by r" "uuid_in S rid = Some u"
  shows "\<not> settled u d \<and> settled u d'"
proof (rule ExpireReservation_cases [OF assms(1), of e rid])
  fix u' row m
  assume row: "uuid_in S rid = Some u'" "find_reservation u' d = Some row" "lapsed (tx_now e) row"
    and call: "ExpireReservation S e rid d = commit_tx e m d (release u' d)
        \<lparr> exp_ReservationID = rid, exp_ItemID = uuid_out S (res_item row),
          exp_Quantity = res_quantity row, Released = True \<rparr>"
  have "d' = release u' d" using assms(2,3) call by (auto simp: commit_tx_def split: option.splits)
  with row assms(4) show ?thesis by (auto simp: settled_def find_reservation_release lapsed_def)
qed (use assms(2,3) in \<open>auto simp: commit_tx_def split: option.splits\<close>)

lemma released_once_step:
  assumes "pool_next S ev p = Some p'" "released_once S u p"
  shows "released_once S u p'"
proof (cases ev)
  case (Work i e)
  then obtain rid r d where call: "ExpireReservation S e rid (tables_of p) = (r, d)"
    and p': "tables_of p' = d" "job_log p' = job_log p @ [(rid, r)]"
    using assms(1) by (auto simp: worker_expire_def split: if_splits worker_state.splits prod.splits)
  have ok: "schema_ok (tables_of p)" using assms(2) by (simp add: released_once_def)
  have "schema_ok d" "evolves (tables_of p) d"
    using ExpireReservation_ledger [OF ok, of e rid] ExpireReservation_history [OF ok, of e rid] call by simp_all
  with assms(2) settled_evolves ExpireReservation_settles [OF ok call] show ?thesis
    by (auto simp: released_once_def p' releases_snoc)
next
  case (Elsewhere_tx x)
  have ok: "schema_ok (tables_of p)" using assms(2) by (simp add: released_once_def)
  from sale_step_ledger [OF this, of x] settled_evolves [of "tables_of p" "tables_of p'" u] assms Elsewhere_tx
  show ?thesis by (auto simp: released_once_def)
qed (use assms in \<open>auto simp: pool_step_defs released_once_def split: if_splits sum.splits scanner.splits list.splits\<close>)

text \<open>The tables only see transactions of a sale.\<close>

lemma pool_step_sale:
  assumes "pool_next S ev p = Some p'"
  shows "\<exists>ops. tables_of p' = run_sale S ops (tables_of p)"
proof (cases ev)
  case (Work i e)
  then obtain rid where "tables_of p' = snd (ExpireReservation S e rid (tables_of p))"
    using assms by (auto simp: worker_expire_def split: if_splits worker_state.splits prod.splits) (metis snd_conv)
  then show ?thesis by (intro exI [of _ "[Expire e rid]"]) (simp add: run_sale_def)
next
  case (Elsewhere_tx x)
  with assms show ?thesis by (intro exI [of _ "[x]"]) (auto simp: run_sale_def)
qed (use assms in \<open>auto simp: pool_step_defs run_sale_def intro!: exI [of _ "[]"]
      split: if_splits sum.splits scanner.splits list.splits\<close>)

lemma pool_run_sale:
  "pool_run S evs p = Some p' \<Longrightarrow> \<exists>ops. tables_of p' = run_sale S ops (tables_of p)"
proof (induction evs arbitrary: p)
  case Nil
  then show ?case by (intro exI [of _ "[]"]) (simp add: run_sale_def)
next
  case (Cons ev evs)
  then obtain q where q: "pool_next S ev p = Some q" "pool_run S evs q = Some p'"
    by (auto split: option.splits)
  from Cons.IH [OF q(2)] pool_step_sale [OF q(1)] obtain a b where
    "tables_of p' = run_sale S a (tables_of q)" "tables_of q = run_sale S b (tables_of p)" by blast
  then show ?case by (intro exI [of _ "b @ a"]) (simp add: run_sale_def)
qed

end

section \<open>Draining\<close>

fun worker_event :: "pool_event \<Rightarrow> bool" where
  "worker_event (Receive i) = True"
| "worker_event (Work i e) = True"
| "worker_event _ = False"

text \<open>The steps the workers have left: two per job in the channel, one per job in hand, one per return.\<close>

definition drain :: "pool \<Rightarrow> nat" where
  "drain p = 2 * length (jobs p) + size (busy p) + length (filter (\<lambda>w. w \<noteq> Returned) (workers p))"

lemma alive_update:
  "i < length ws \<Longrightarrow> length (filter P (ws[i := w])) + (if P (ws ! i) then 1 else 0)
     = length (filter P ws) + (if P w then 1 else 0)"
proof (induction ws arbitrary: i)
  case (Cons x ws)
  then show ?case by (cases i) auto
qed simp

lemma drain_step:
  assumes "pool_next S ev p = Some p'" "jobs_accounted p" "jobs_closed p"
  shows "jobs_closed p' \<and> drain p' + (if worker_event ev then 1 else 0) = drain p \<and> length (workers p') = length (workers p)"
proof (cases ev)
  case (Receive i)
  then have i: "i < length (workers p)" "workers p ! i = Idle"
    using assms(1) by (auto simp: worker_receive_def split: if_splits)
  show ?thesis
  proof (cases "jobs p")
    case (Cons rid rest)
    with assms(1) Receive i have p': "p' = p\<lparr>jobs := rest, workers := (workers p)[i := Expiring rid]\<rparr>"
      by (simp add: worker_receive_def)
    have "busy p' = busy p + {#rid#}" using busy_update [OF i, of p' "Expiring rid"] by (simp add: p')
    with assms(3) Cons Receive i alive_update [OF i(1), of "\<lambda>w. w \<noteq> Returned" "Expiring rid"] show ?thesis
      by (simp add: drain_def p')
  next
    case Nil
    with assms(1) Receive i have p': "p' = p\<lparr>workers := (workers p)[i := Returned]\<rparr>"
      by (auto simp: worker_receive_def split: if_splits)
    have "busy p' = busy p" using busy_update [OF i, of p' Returned] by (simp add: p')
    with assms(3) Nil Receive i alive_update [OF i(1), of "\<lambda>w. w \<noteq> Returned" Returned] show ?thesis
      by (simp add: drain_def p')
  qed
next
  case (Work i e)
  then obtain rid r d where i: "i < length (workers p)" "workers p ! i = Expiring rid"
    and p': "p' = p\<lparr>tables_of := d, workers := (workers p)[i := Idle], job_log := job_log p @ [(rid, r)]\<rparr>"
    using assms(1) by (auto simp: worker_expire_def split: if_splits worker_state.splits prod.splits)
  have "busy p = busy p' + {#rid#}" using busy_update [OF i, of p' Idle] by (simp add: p')
  with assms(3) Work i alive_update [OF i(1), of "\<lambda>w. w \<noteq> Returned" Idle] show ?thesis
    by (simp add: drain_def p')
qed (use assms in \<open>auto simp: scan_tick_def scan_send_def scan_return_def jobs_accounted_def drain_def busy_def
      split: if_splits sum.splits scanner.splits list.splits\<close>)

lemma drain_run:
  assumes "pool_run S evs p = Some p'" "jobs_accounted p" "jobs_closed p"
  shows "jobs_closed p' \<and> jobs_accounted p' \<and> length (filter worker_event evs) + drain p' = drain p
    \<and> length (workers p') = length (workers p)"
  using assms
proof (induction evs arbitrary: p)
  case (Cons ev evs)
  then obtain q where q: "pool_next S ev p = Some q" "pool_run S evs q = Some p'"
    by (auto split: option.splits)
  from drain_step [OF q(1) Cons.prems(2,3)] Cons.IH [OF q(2) jobs_accounted_step [OF q(1) Cons.prems(2)]]
  show ?case by auto
qed simp

lemma worker_can_go:
  assumes "jobs_closed p" "\<not> wg_Wait p"
  shows "\<exists>i. \<forall>e. pool_next S (Receive i) p \<noteq> None \<or> pool_next S (Work i e) p \<noteq> None"
proof -
  obtain i where i: "i < length (workers p)" "workers p ! i \<noteq> Returned"
    using assms(2) by (auto simp: wg_Wait_def list_all_length)
  show ?thesis
  proof (intro exI [of _ i] allI)
    fix e
    show "pool_next S (Receive i) p \<noteq> None \<or> pool_next S (Work i e) p \<noteq> None"
      using i assms(1)
      by (cases "workers p ! i") (auto simp: worker_receive_def worker_expire_def split: list.split prod.split)
  qed
qed

lemma start_pool_workers:
  assumes "start_pool interval batchSize poolSize d = Inr p0" "pool_run S evs p0 = Some pl"
  shows "length (workers pl) = nat poolSize"
  using assms(2)
proof (rule pool_run_invariant)
  show "length (workers p0) = nat poolSize" using assms(1) by (auto simp: start_pool_def split: if_splits)
next
  fix ev q q' assume "pool_next S ev q = Some q'" "length (workers q) = nat poolSize"
  then show "length (workers q') = nat poolSize"
    by (cases ev) (auto simp: pool_step_defs
        split: if_splits sum.splits scanner.splits list.splits worker_state.splits prod.splits)
qed

lemma closed_stop_signal:
  assumes "start_pool interval batchSize poolSize d = Inr p0" "pool_run S evs p0 = Some pl" "jobs_closed pl"
  shows "stop_signal pl"
proof -
  have "jobs_closed pl \<longrightarrow> stop_signal pl"
    using assms(2)
  proof (rule pool_run_invariant)
    show "jobs_closed p0 \<longrightarrow> stop_signal p0" using assms(1) by (auto simp: start_pool_def split: if_splits)
  next
    fix ev q q' assume "pool_next S ev q = Some q'" "jobs_closed q \<longrightarrow> stop_signal q"
    then show "jobs_closed q' \<longrightarrow> stop_signal q'"
      by (cases ev) (auto simp: pool_step_defs
          split: if_splits sum.splits scanner.splits list.splits worker_state.splits prod.splits)
  qed
  with assms(3) show ?thesis by blast
qed

text \<open>When all workers have returned, what was found is logged or was never sent.\<close>

lemma drained_accounts:
  assumes "jobs_accounted pl" "wg_Wait pl" "workers pl \<noteq> []"
  shows "mset (found pl) = mset (map fst (job_log pl)) + mset (to_send (scan_state pl))"
proof -
  have all: "\<forall>w \<in> set (workers pl). w = Returned" using assms(2) by (simp add: wg_Wait_def list_all_iff)
  then have "\<forall>w \<in> set (workers pl). job_of w = []" by force
  then have "busy pl = {#}" by (simp add: busy_def)
  moreover have "jobs pl = []"
    using assms(1,3) all by (cases "workers pl") (auto simp: jobs_accounted_def)
  ultimately show ?thesis using assms(1) by (simp add: jobs_accounted_def)
qed

section \<open>Properties\<close>

text \<open>
  C24.  The pool loses no job and makes none up.  In every run, whatever the interleaving and the faults,
  the identifiers all scans returned are exactly those whose call has returned, those a worker has in
  hand, those in the channel and those the scanner has not sent; the channel never holds more than one
  batch, and jobs stay unsent only while the scanner sends or once it was stopped.
\<close>

theorem pool_loses_no_job:
  assumes "start_pool interval batchSize poolSize d = Inr p0" "pool_run S evs p0 = Some p"
  shows "mset (found p) = mset (map fst (job_log p)) + busy p + mset (jobs p) + mset (to_send (scan_state p))
    \<and> int (length (jobs p)) \<le> batchSize
    \<and> (scan_state p = ScanWaiting \<longrightarrow> to_send (scan_state p) = [])
    \<and> (jobs_closed p \<longrightarrow> stop_signal p)"
proof -
  have "jobs_accounted p"
    using assms(2) start_accounted [OF assms(1)] by (rule pool_run_invariant) (rule jobs_accounted_step)
  moreover have "jobs_cap p = nat batchSize"
    using assms(2)
  proof (rule pool_run_invariant)
    show "jobs_cap p0 = nat batchSize"
      using assms(1) by (auto simp: start_pool_def split: if_splits)
  next
    fix ev q q'
    assume "pool_next S ev q = Some q'" "jobs_cap q = nat batchSize"
    then show "jobs_cap q' = nat batchSize"
      by (cases ev) (auto simp: pool_step_defs
          split: if_splits sum.splits scanner.splits list.splits worker_state.splits prod.splits)
  qed
  moreover have "0 \<le> batchSize" using assms(1) by (simp add: start_pool_def split: if_splits)
  ultimately show ?thesis using closed_stop_signal [OF assms] by (auto simp: jobs_accounted_def)
qed

text \<open>A run on the example tables: one scan finds the lapsed reservation, two workers are there.\<close>

definition demo_pool :: pool where
  "demo_pool = \<lparr> jobs_cap = 5, jobs = [], jobs_closed = False, scan_state = ScanWaiting,
     workers = [Idle, Idle], stop_signal = False, tables_of = exp_db, found = [], job_log = [] \<rparr>"

lemma demo_pool_start: "start_pool (5 * 10 ^ 9) 5 2 exp_db = Inr demo_pool"
  by (simp add: start_pool_def demo_pool_def numeral_2_eq_2)

definition demo_pool_events :: "pool_event list" where
  "demo_pool_events = [ScanTick (exp_env 2000), ScanSend, ScanSend, Receive 1, ScanTick (exp_env 2500), ScanSend,
     Receive 0, Work 0 (exp_env 3000), Signal, Work 1 (exp_env 3000)]"

lemma demo_scan: "FindExpiredReservations canonical_server (exp_env t) 5 exp_db
    = Inr (if 1000 < t then [uuid_out canonical_server 100] else [])"
  by (simp add: exp_env_def FindExpiredReservations_def exp_db_def lapsed_def exp_paid_def exp_reserved_def)

lemma demo_pool_run:
  "\<exists>p. pool_run canonical_server demo_pool_events demo_pool = Some p \<and> stop_signal p \<and> scan_state p = ScanSending []"
  by (simp add: demo_pool_events_def demo_pool_def pool_step_defs demo_scan split: prod.split)

theorem pool_loses_no_job_witness:
  "\<exists>p. pool_run canonical_server demo_pool_events demo_pool = Some p \<and> int (length (jobs p)) \<le> 5
    \<and> mset (found p) = mset (map fst (job_log p)) + busy p + mset (jobs p) + mset (to_send (scan_state p))"
proof -
  obtain p where run: "pool_run canonical_server demo_pool_events demo_pool = Some p" using demo_pool_run by blast
  from pool_loses_no_job [OF demo_pool_start run] run show ?thesis by blast
qed

text \<open>
  C11.  The pool and the rest of the sale together release a reservation at most once.  Whatever
  reservation identifiers the workers are handed, however often, whatever fails and whatever the
  decision service and other expiry workers do in between, at most one call reports a release of a
  reservation, the reservation is settled from then on, and the tables are those of some run of the
  sale, so that nothing is oversold.
\<close>

theorem pool_releases_once:
  assumes "uuid_io S" "schema_ok d"
    and "start_pool interval batchSize poolSize d = Inr p0" "pool_run S evs p0 = Some p"
  shows "releases S u (job_log p) \<le> 1 \<and> (releases S u (job_log p) = 1 \<longrightarrow> settled u (tables_of p))
    \<and> (\<exists>ops. tables_of p = run_sale S ops d)"
proof -
  have p0: "tables_of p0 = d" "job_log p0 = []"
    using assms(3) by (auto simp: start_pool_def split: if_splits)
  then have "released_once S u p0" using assms(2) by (simp add: released_once_def releases_def)
  with assms(4) have "released_once S u p"
    by (rule pool_run_invariant) (rule uuid_io.released_once_step [OF assms(1)])
  with uuid_io.pool_run_sale [OF assms(1,4)] p0(1) show ?thesis by (simp add: released_once_def)
qed

theorem pool_releases_once_witness:
  "\<exists>p. pool_run canonical_server demo_pool_events demo_pool = Some p
    \<and> map fst (job_log p) = replicate 2 (uuid_out canonical_server 100)
    \<and> releases canonical_server 100 (job_log p) \<le> 1"
proof -
  have "\<exists>p. pool_run canonical_server demo_pool_events demo_pool = Some p
      \<and> map fst (job_log p) = replicate 2 (uuid_out canonical_server 100)"
    by (simp add: demo_pool_events_def demo_pool_def pool_step_defs demo_scan numeral_2_eq_2 split: prod.split)
  then obtain p where run: "pool_run canonical_server demo_pool_events demo_pool = Some p"
    "map fst (job_log p) = replicate 2 (uuid_out canonical_server 100)" by blast
  from pool_releases_once [OF canonical.uuid_io_axioms exp_facts(1) demo_pool_start run(1), of 100] run
  show ?thesis by blast
qed

text \<open>
  C23.  Shutdown drains the pool.  Once the scanner has returned, each step of a worker lowers the count
  of steps that are left, nothing else changes it, and while some worker has not returned a worker can
  take a step whatever its call answers; so \<open>wg.Wait\<close> returns after exactly that many steps, and then,
  if there is a worker at all, every job that was handed over has been processed.
\<close>

theorem pool_drains:
  assumes "start_pool interval batchSize poolSize d = Inr p0" "pool_run S evs0 p0 = Some p" "jobs_closed p"
    and "pool_run S evs p = Some p'"
  shows "length (filter worker_event evs) + drain p' = drain p
    \<and> (wg_Wait p' \<or> (\<exists>i. \<forall>e. pool_next S (Receive i) p' \<noteq> None \<or> pool_next S (Work i e) p' \<noteq> None))
    \<and> (wg_Wait p' \<and> workers p' \<noteq> [] \<longrightarrow>
         mset (found p') = mset (map fst (job_log p')) + mset (to_send (scan_state p')))"
proof -
  have "jobs_accounted p"
    using assms(2) start_accounted [OF assms(1)] by (rule pool_run_invariant) (rule jobs_accounted_step)
  note run = drain_run [OF assms(4) this assms(3)]
  with drained_accounts [of p'] worker_can_go [of p' S] show ?thesis by blast
qed

theorem pool_drains_witness:
  "\<exists>p p'. pool_run canonical_server [ScanTick (exp_env 2000), ScanSend, Signal, ScanSend, ScanReturn] demo_pool = Some p
    \<and> jobs_closed p \<and> drain p = 4
    \<and> pool_run canonical_server [Receive 0, Receive 1, Work 0 (exp_env 2000), Receive 0] p = Some p' \<and> wg_Wait p' \<and> drain p' = 0"
proof -
  let ?e0 = "[ScanTick (exp_env 2000), ScanSend, Signal, ScanSend, ScanReturn]"
  let ?e1 = "[Receive 0, Receive 1, Work 0 (exp_env 2000), Receive 0]"
  have "\<exists>p p'. pool_run canonical_server ?e0 demo_pool = Some p \<and> jobs_closed p \<and> drain p = 4
      \<and> pool_run canonical_server ?e1 p = Some p' \<and> wg_Wait p'"
    by (simp add: demo_pool_def pool_step_defs demo_scan drain_def busy_def wg_Wait_def split: prod.split)
  then obtain p p' where run: "pool_run canonical_server ?e0 demo_pool = Some p" "jobs_closed p" "drain p = 4"
    "pool_run canonical_server ?e1 p = Some p'" "wg_Wait p'" by blast
  from pool_drains [OF demo_pool_start run(1,2,4)] run(3) have "drain p' = 0" by simp
  with run show ?thesis by blast
qed

end
