(* ===== verification/ExpiryMain.thy ===== *)
theory ExpiryMain
  imports Server ExpiryWorker
begin

text \<open>
  The process of \<open>cmd/expiry-worker/main.go\<close>: connecting, the health server, the pool of
  \<open>ExpiryWorker\<close> with the scanner in \<open>main\<close>'s own goroutine, waiting for the workers, shutting down, the
  deferred calls.  The lemmas show that the process ends only after its pool has drained, and that the
  database is closed only when no goroutine of the pool can use it any more.
\<close>

section \<open>The process\<close>

datatype expiry_phase =
    ExConnect
  | ExStart
  | ExScan
  | ExWait
  | ExShutdown
  | ExReturn exit_status
  | ExExit exit_status

record expiry_process =
  xp_phase :: expiry_phase
  xp_ctx_done :: bool
  xp_defers :: "resource list"
  xp_closed :: "resource list"
  xp_health :: health_server
  xp_pool :: "pool option"
  xp_tables :: db

definition expiry_start :: "db \<Rightarrow> expiry_process" where
  "expiry_start d =
     \<lparr> xp_phase = ExConnect, xp_ctx_done = False, xp_defers = [SignalContext], xp_closed = [],
       xp_health = new_health_server, xp_pool = None, xp_tables = d \<rparr>"

datatype expiry_event =
    ExPgOpen "goerr option" "goerr option"
  | ExPoolStarts
  | ExScannerDone
  | ExWorkersDone
  | ExShutdownReturns "goerr option"
  | ExDeferred
  | ExSignal
  | ExPool pool_event
  | ExHealth health_event

fun expiry_exited :: "expiry_phase \<Rightarrow> bool" where
  "expiry_exited (ExExit n) = True"
| "expiry_exited _ = False"

text \<open>
  \<open>main\<close>: \<open>pgdb.New\<close>, the pool, and the waits for the scanner (its own call), the workers, the health
  server.  A negative batch size or an interval that is not positive panics in \<open>main\<close>, which still runs the
  deferred calls and ends with status 2.  A health server that cannot serve is only logged.
\<close>

fun expiry_main :: "expiry_config \<Rightarrow> expiry_event \<Rightarrow> expiry_process \<Rightarrow> expiry_process option" where
  "expiry_main cfg (ExPgOpen er ping) p =
     (if xp_phase p \<noteq> ExConnect then None
      else case pgdb_New (\<lambda>_. er) (\<lambda>_. ping) \<lparr> pg_DSN = exw_dsn cfg, pg_MaxOpenConns = 0, pg_MaxIdleConns = 0,
                  pg_ConnMaxLifetime = 0 \<rparr> of
        Inl err \<Rightarrow> Some (p\<lparr>xp_phase := ExExit 1\<rparr>)
      | Inr conn \<Rightarrow> Some (p\<lparr>xp_phase := ExStart, xp_defers := Database # xp_defers p\<rparr>))"
| "expiry_main cfg ExPoolStarts p =
     (if xp_phase p \<noteq> ExStart then None
      else case start_pool (exw_scanInterval cfg) (exw_batchSize cfg) (exw_poolSize cfg) (xp_tables p) of
        Inl panic \<Rightarrow> Some (p\<lparr>xp_phase := ExReturn 2\<rparr>)
      | Inr pl \<Rightarrow> Some (p\<lparr>xp_phase := ExScan, xp_pool := Some (pl\<lparr>stop_signal := xp_ctx_done p\<rparr>)\<rparr>))"
| "expiry_main cfg ExScannerDone p =
     (case xp_pool p of
        None \<Rightarrow> None
      | Some pl \<Rightarrow> if xp_phase p = ExScan \<and> jobs_closed pl then Some (p\<lparr>xp_phase := ExWait\<rparr>) else None)"
| "expiry_main cfg ExWorkersDone p =
     (case xp_pool p of
        None \<Rightarrow> None
      | Some pl \<Rightarrow>
          if xp_phase p = ExWait \<and> wg_Wait pl
          then Some (p\<lparr>xp_phase := ExShutdown, xp_health := shutdown_health (xp_health p),
                       xp_defers := ShutdownTimer # xp_defers p\<rparr>)
          else None)"
| "expiry_main cfg (ExShutdownReturns r) p =
     (if xp_phase p = ExShutdown \<and> shutdown_may_return r (hs_http (xp_health p))
      then Some (p\<lparr>xp_phase := ExReturn 0\<rparr>) else None)"
| "expiry_main cfg ExDeferred p =
     (case xp_phase p of
        ExReturn st \<Rightarrow>
          (case xp_defers p of
             [] \<Rightarrow> Some (p\<lparr>xp_phase := ExExit st\<rparr>)
           | r # rs \<Rightarrow> Some (p\<lparr>xp_defers := rs, xp_closed := xp_closed p @ [r]\<rparr>))
      | _ \<Rightarrow> None)"
| "expiry_main cfg _ p = None"

text \<open>The signal cancels the context of the pool, too.\<close>

fun expiry_pool :: "pg_server \<Rightarrow> expiry_event \<Rightarrow> expiry_process \<Rightarrow> expiry_process option" where
  "expiry_pool S ExSignal p =
     Some (p\<lparr>xp_ctx_done := True, xp_pool := map_option (\<lambda>pl. pl\<lparr>stop_signal := True\<rparr>) (xp_pool p)\<rparr>)"
| "expiry_pool S (ExPool ev) p =
     (case xp_pool p of
        None \<Rightarrow> None
      | Some pl \<Rightarrow>
          if ev = Signal then None
          else (case pool_next S ev pl of None \<Rightarrow> None | Some pl' \<Rightarrow> Some (p\<lparr>xp_pool := Some pl'\<rparr>)))"
| "expiry_pool S _ p = None"

definition newHealthServer_expiry :: "health_request \<Rightarrow> int + health_response" where
  "newHealthServer_expiry = serve_health ''expiry-worker''"

fun expiry_serving :: "expiry_event \<Rightarrow> expiry_process \<Rightarrow> expiry_process option" where
  "expiry_serving (ExHealth hev) p =
     (if xp_phase p = ExConnect then None
      else case health_next newHealthServer_expiry hev (xp_health p) of
        None \<Rightarrow> None
      | Some h \<Rightarrow> Some (p\<lparr>xp_health := h\<rparr>))"
| "expiry_serving _ p = None"

definition expiry_process_next ::
    "pg_server \<Rightarrow> expiry_config \<Rightarrow> expiry_event \<Rightarrow> expiry_process \<Rightarrow> expiry_process option" where
  "expiry_process_next S cfg ev p =
     (if expiry_exited (xp_phase p) then None
      else case expiry_main cfg ev p of
        Some p' \<Rightarrow> Some p'
      | None \<Rightarrow> (case expiry_pool S ev p of
          Some p' \<Rightarrow> Some p'
        | None \<Rightarrow> expiry_serving ev p))"

definition expiry_process_run ::
    "pg_server \<Rightarrow> expiry_config \<Rightarrow> expiry_event list \<Rightarrow> db \<Rightarrow> expiry_process option" where
  "expiry_process_run S cfg evs d = run_events (expiry_process_next S cfg) evs (expiry_start d)"

section \<open>The pool inside the process\<close>

lemma expiry_next_cases:
  assumes "expiry_process_next S cfg ev p = Some p'"
  obtains (main) "\<not> expiry_exited (xp_phase p)" "expiry_main cfg ev p = Some p'"
  | (pool) "\<not> expiry_exited (xp_phase p)" "expiry_pool S ev p = Some p'"
  | (serve) "\<not> expiry_exited (xp_phase p)" "expiry_serving ev p = Some p'"
  using assms by (auto simp: expiry_process_next_def split: if_splits option.splits)

fun_cases expiry_mainE: "expiry_main cfg ev p = Some p'"
fun_cases expiry_poolE: "expiry_pool S ev p = Some p'"
fun_cases expiry_servingE: "expiry_serving ev p = Some p'"

text \<open>The pool of a process is one run of the pool, from its start.\<close>

definition pool_runs :: "pg_server \<Rightarrow> expiry_config \<Rightarrow> db \<Rightarrow> expiry_process \<Rightarrow> bool" where
  "pool_runs S cfg d p \<longleftrightarrow> xp_tables p = d \<and>
     (case xp_pool p of
        None \<Rightarrow> True
      | Some pl \<Rightarrow> \<exists>p0 evs. start_pool (exw_scanInterval cfg) (exw_batchSize cfg) (exw_poolSize cfg) d = Inr p0
          \<and> pool_run S evs p0 = Some pl)"

lemma pool_run_snoc:
  "pool_run S evs p = Some q \<Longrightarrow> pool_next S ev q = Some q' \<Longrightarrow> pool_run S (evs @ [ev]) p = Some q'"
  by (induction evs arbitrary: p) (auto split: option.splits)

lemma pool_runs_next:
  assumes "expiry_process_next S cfg ev p = Some p'" "pool_runs S cfg d p"
  shows "pool_runs S cfg d p'"
  using assms(1)
proof (cases rule: expiry_next_cases)
  case main
  show ?thesis
  proof (cases "ev = ExPoolStarts \<and> xp_pool p' \<noteq> xp_pool p")
    case True
    then obtain pl where pl: "start_pool (exw_scanInterval cfg) (exw_batchSize cfg) (exw_poolSize cfg) (xp_tables p) = Inr pl"
      "p' = p\<lparr>xp_phase := ExScan, xp_pool := Some (pl\<lparr>stop_signal := xp_ctx_done p\<rparr>)\<rparr>" "xp_phase p = ExStart"
      using main by (auto split: if_splits sum.splits)
    have none: "stop_signal pl = False" using pl(1) by (auto simp: start_pool_def split: if_splits)
    have "\<exists>evs. pool_run S evs pl = Some (pl\<lparr>stop_signal := xp_ctx_done p\<rparr>)"
      by (cases "xp_ctx_done p") (use none in \<open>auto intro: exI [of _ "[Signal]"] exI [of _ "[]"]\<close>)
    with assms(2) pl show ?thesis by (auto simp: pool_runs_def)
  next
    case False
    with main assms(2) show ?thesis
      by (elim expiry_mainE) (auto simp: pool_runs_def split: if_splits sum.splits option.splits list.splits expiry_phase.splits)
  qed
next
  case pool
  show ?thesis
  proof (cases "xp_pool p")
    case None
    with pool assms(2) show ?thesis by (elim expiry_poolE) (auto simp: pool_runs_def)
  next
    case (Some pl)
    then obtain pev pl' where step: "pool_next S pev pl = Some pl'" "xp_pool p' = Some pl'" "xp_tables p' = xp_tables p"
      using pool by (elim expiry_poolE) (auto split: option.splits if_splits intro: that [of Signal])
    obtain p0 evs where p0: "start_pool (exw_scanInterval cfg) (exw_batchSize cfg) (exw_poolSize cfg) d = Inr p0"
      "pool_run S evs p0 = Some pl" using assms(2) Some by (auto simp: pool_runs_def)
    from pool_run_snoc [OF p0(2) step(1)] p0(1) step(2,3) assms(2) show ?thesis by (auto simp: pool_runs_def)
  qed
next
  case serve
  with assms(2) show ?thesis
    by (elim expiry_servingE) (auto simp: pool_runs_def split: option.splits if_splits)
qed

lemma pool_runs_run:
  assumes "expiry_process_run S cfg evs d = Some p"
  shows "pool_runs S cfg d p"
  using assms unfolding expiry_process_run_def
  by (rule run_events_invariant) (auto simp: pool_runs_def expiry_start_def dest: pool_runs_next)

section \<open>The way out\<close>

definition expiry_resources :: "resource list" where
  "expiry_resources = [ShutdownTimer, Database, SignalContext]"

fun expiry_defers_ok :: "expiry_phase \<Rightarrow> resource list \<Rightarrow> resource list \<Rightarrow> bool" where
  "expiry_defers_ok ExConnect open_res closed_res = (open_res = [SignalContext] \<and> closed_res = [])"
| "expiry_defers_ok ExShutdown open_res closed_res = (open_res = expiry_resources \<and> closed_res = [])"
| "expiry_defers_ok (ExReturn st) open_res closed_res =
     (st = 0 \<and> closed_res @ open_res = expiry_resources \<or> st = 2 \<and> closed_res @ open_res = tl expiry_resources)"
| "expiry_defers_ok (ExExit st) open_res closed_res = (st = 0 \<longrightarrow> closed_res = expiry_resources)"
| "expiry_defers_ok _ open_res closed_res = (open_res = tl expiry_resources \<and> closed_res = [])"

text \<open>How far the pool is in each phase of \<open>main\<close>.\<close>

definition pool_drained :: "pool \<Rightarrow> bool" where
  "pool_drained pl \<longleftrightarrow> (\<exists>ids. scan_state pl = ScanReturned ids) \<and> jobs_closed pl \<and> wg_Wait pl"

fun progress_ok :: "expiry_phase \<Rightarrow> pool option \<Rightarrow> bool" where
  "progress_ok ExConnect pl = (pl = None)"
| "progress_ok ExStart pl = (pl = None)"
| "progress_ok ExScan pl = (pl \<noteq> None)"
| "progress_ok ExWait pl = (\<exists>q. pl = Some q \<and> jobs_closed q)"
| "progress_ok ExShutdown pl = (\<exists>q. pl = Some q \<and> pool_drained q)"
| "progress_ok (ExReturn st) pl = (if st = 0 then \<exists>q. pl = Some q \<and> pool_drained q else pl = None)"
| "progress_ok (ExExit st) pl = (if st = 0 then \<exists>q. pl = Some q \<and> pool_drained q else pl = None)"

text \<open>Once drained, a pool takes no step of its own; only the rest of the sale goes on.\<close>

fun pools_own :: "pool_event \<Rightarrow> bool" where
  "pools_own Signal = False"
| "pools_own (Elsewhere_tx x) = False"
| "pools_own ev = True"

lemma drained_stuck:
  assumes "pool_drained pl" "pools_own ev"
  shows "pool_next S ev pl = None"
proof -
  have all: "workers pl ! i = Returned" if "i < length (workers pl)" for i
    using assms(1) that by (simp add: pool_drained_def wg_Wait_def list_all_length)
  show ?thesis
    using assms by (cases ev) (auto simp: pool_drained_def pool_step_defs all)
qed

lemma drained_next:
  assumes "pool_drained pl" "pool_next S ev pl = Some pl'"
  shows "pool_drained pl'"
proof (cases "pools_own ev")
  case True
  with drained_stuck [OF assms(1)] assms(2) show ?thesis by simp
next
  case False
  with assms show ?thesis by (cases ev) (auto simp: pool_drained_def wg_Wait_def)
qed

lemma closed_next: "pool_next S ev pl = Some pl' \<Longrightarrow> jobs_closed pl \<Longrightarrow> jobs_closed pl'"
  by (cases ev) (auto simp: pool_step_defs
      split: if_splits sum.splits scanner.splits list.splits worker_state.splits prod.splits)

lemma drained_signal: "pool_drained (pl\<lparr>stop_signal := b\<rparr>) = pool_drained pl"
  by (simp add: pool_drained_def wg_Wait_def)

definition way_out :: "expiry_process \<Rightarrow> bool" where
  "way_out p \<longleftrightarrow> expiry_defers_ok (xp_phase p) (xp_defers p) (xp_closed p) \<and> progress_ok (xp_phase p) (xp_pool p)
     \<and> (\<forall>pl. xp_pool p = Some pl \<longrightarrow> jobs_accounted pl)"

lemma way_out_main:
  assumes "expiry_main cfg ev p = Some p'" "way_out p"
  shows "way_out p'"
  using assms
  by (elim expiry_mainE)
    (auto simp: way_out_def expiry_resources_def pool_drained_def jobs_accounted_def start_pool_def busy_def
      split: if_splits option.splits sum.splits list.splits expiry_phase.splits)

lemma way_out_next:
  assumes "expiry_process_next S cfg ev p = Some p'" "way_out p"
  shows "way_out p'"
  using assms(1)
proof (cases rule: expiry_next_cases)
  case main
  from way_out_main [OF main(2) assms(2)] show ?thesis .
next
  case pool
  show ?thesis
  proof (cases "\<exists>pev. ev = ExPool pev")
    case True
    then obtain pev pl pl' where pl: "xp_pool p = Some pl" "pool_next S pev pl = Some pl'" "p' = p\<lparr>xp_pool := Some pl'\<rparr>"
      using pool by (auto split: option.splits if_splits)
    have "jobs_accounted pl'" using jobs_accounted_step [OF pl(2)] assms(2) pl(1) by (simp add: way_out_def)
    with assms(2) pl closed_next [OF pl(2)] drained_next [OF _ pl(2)] show ?thesis
      by (cases "xp_phase p") (auto simp: way_out_def split: if_splits)
  next
    case False
    with pool assms(2) show ?thesis
      by (elim expiry_poolE; cases "xp_phase p")
        (auto simp: way_out_def drained_signal jobs_accounted_def busy_def split: if_splits)
  qed
next
  case serve
  with assms(2) show ?thesis by (elim expiry_servingE) (auto simp: way_out_def split: option.splits if_splits)
qed

lemma way_out_run: "expiry_process_run S cfg evs d = Some p \<Longrightarrow> way_out p"
  unfolding expiry_process_run_def
  by (rule run_events_invariant) (auto simp: way_out_def expiry_start_def dest: way_out_next)

section \<open>Properties\<close>

text \<open>
  C14.  \<open>expiry-worker\<close> ends only when its pool has drained.  Once the database is closed no step of the
  scanner or of a worker can follow.  When the process ends with status 0 it was told to stop, every
  worker has returned, if there is a worker every job the scanner handed over was processed, the tables
  of its pool are those of a sale, and the timer, the database and the signal context were closed in
  this order.
\<close>

theorem expiry_worker_drains_before_exit:
  assumes "uuid_io S" "schema_ok d" "expiry_process_run S cfg evs d = Some p"
  shows "(\<forall>pl ev. Database \<in> set (xp_closed p) \<and> xp_pool p = Some pl \<and> pools_own ev \<longrightarrow> pool_next S ev pl = None)
    \<and> (xp_phase p = ExExit 0 \<longrightarrow>
         (\<exists>pl ops. xp_pool p = Some pl \<and> stop_signal pl \<and> wg_Wait pl
            \<and> (0 < exw_poolSize cfg \<longrightarrow> mset (found pl) = mset (map fst (job_log pl)) + mset (to_send (scan_state pl)))
            \<and> tables_of pl = run_sale S ops d
            \<and> xp_closed p = [ShutdownTimer, Database, SignalContext]))"
proof -
  note out = way_out_run [OF assms(3)] and run = pool_runs_run [OF assms(3)]
  have closed: "pool_drained pl" if "Database \<in> set (xp_closed p)" "xp_pool p = Some pl" for pl
    using out that by (cases "xp_phase p") (auto simp: way_out_def split: if_splits)
  have exit: "\<exists>pl ops. xp_pool p = Some pl \<and> stop_signal pl \<and> wg_Wait pl
      \<and> (0 < exw_poolSize cfg \<longrightarrow> mset (found pl) = mset (map fst (job_log pl)) + mset (to_send (scan_state pl)))
      \<and> tables_of pl = run_sale S ops d \<and> xp_closed p = [ShutdownTimer, Database, SignalContext]"
    if ph: "xp_phase p = ExExit 0"
  proof -
    obtain pl where pl: "xp_pool p = Some pl" "pool_drained pl" and cl: "xp_closed p = expiry_resources"
      using out ph by (auto simp: way_out_def)
    obtain p0 pevs where p0: "start_pool (exw_scanInterval cfg) (exw_batchSize cfg) (exw_poolSize cfg) d = Inr p0"
      "pool_run S pevs p0 = Some pl" using run pl(1) by (auto simp: pool_runs_def)
    have finished: "jobs_closed pl" "wg_Wait pl" using pl(2) by (simp_all add: pool_drained_def)
    obtain ops where "tables_of pl = run_sale S ops (tables_of p0)" using uuid_io.pool_run_sale [OF assms(1) p0(2)] by blast
    then have ops: "tables_of pl = run_sale S ops d" using p0(1) by (auto simp: start_pool_def split: if_splits)
    have "mset (found pl) = mset (map fst (job_log pl)) + mset (to_send (scan_state pl))" if "0 < exw_poolSize cfg"
    proof -
      have "workers pl \<noteq> []"
        using start_pool_workers [OF p0] that by (cases "workers pl") auto
      then show ?thesis using drained_accounts finished out pl(1) by (auto simp: way_out_def)
    qed
    with pl(1) finished ops cl closed_stop_signal [OF p0 finished(1)] show ?thesis by (auto simp: expiry_resources_def)
  qed
  show ?thesis using closed drained_stuck exit by blast
qed

text \<open>One lapsed reservation is found, and the signal comes while it is in the channel.\<close>

definition demo_expiry_config :: expiry_config where
  "demo_expiry_config = (expiry_main_config (\<lambda>_. None))\<lparr>exw_batchSize := 5, exw_poolSize := 1\<rparr>"

definition demo_expiry_events :: "expiry_event list" where
  "demo_expiry_events = [ExPgOpen None None, ExHealth (HealthListens None), ExPoolStarts, ExPool (ScanTick (exp_env 2000)), ExPool ScanSend,
     ExSignal, ExPool ScanSend, ExPool ScanReturn, ExScannerDone, ExPool (Receive 0), ExPool (Work 0 (exp_env 2000)),
     ExPool (Receive 0), ExWorkersDone, ExShutdownReturns None, ExDeferred, ExDeferred, ExDeferred, ExDeferred]"

lemma demo_expiry_run:
  "\<exists>p. expiry_process_run canonical_server demo_expiry_config demo_expiry_events exp_db = Some p \<and> xp_phase p = ExExit 0
    \<and> (\<exists>pl. xp_pool p = Some pl \<and> found pl = [uuid_out canonical_server 100])"
proof -
  have cfg: "exw_scanInterval demo_expiry_config = 5 * Second" "exw_batchSize demo_expiry_config = 5"
    "exw_poolSize demo_expiry_config = 1"
    by (simp_all add: demo_expiry_config_def expiry_main_config_def config_Int_def getenv_def seconds_def wrap64_def duration_defs)
  show ?thesis
    by (simp add: expiry_process_run_def demo_expiry_events_def expiry_process_next_def expiry_start_def pgdb_New_def Let_def
        start_pool_def cfg duration_defs server_defs new_http_server_def new_health_server_def shutdown_health_def pool_step_defs demo_scan wg_Wait_def split: prod.split)
qed

theorem expiry_worker_drains_before_exit_witness:
  "\<exists>p pl. expiry_process_run canonical_server demo_expiry_config demo_expiry_events exp_db = Some p \<and> xp_pool p = Some pl
    \<and> xp_phase p = ExExit 0 \<and> found pl = [uuid_out canonical_server 100]
    \<and> xp_closed p = [ShutdownTimer, Database, SignalContext]
    \<and> pool_next canonical_server (Work 0 (exp_env 3000)) pl = None"
proof -
  obtain p pl where run: "expiry_process_run canonical_server demo_expiry_config demo_expiry_events exp_db = Some p"
    "xp_phase p = ExExit 0" "xp_pool p = Some pl" "found pl = [uuid_out canonical_server 100]"
    using demo_expiry_run by blast
  note ends = expiry_worker_drains_before_exit [OF canonical.uuid_io_axioms exp_facts(1) run(1)]
  from ends run(2) have closed: "xp_closed p = [ShutdownTimer, Database, SignalContext]" by (elim conjE) auto
  have "pools_own (Work 0 (exp_env 3000))" "Database \<in> set (xp_closed p)" using closed by simp_all
  with ends run(3) have "pool_next canonical_server (Work 0 (exp_env 3000)) pl = None" by blast
  with run closed show ?thesis by blast
qed

end
