(* ===== verification/Interleaving.thy ===== *)
theory Interleaving
  imports Sale
begin

text \<open>
  \<open>ProcessAttempt\<close> and \<open>ExpireReservation\<close> one SQL statement at a time, many transactions at once.  Each
  statement sees the committed tables and its own transaction's writes, and first waits for the row locks
  it takes (READ COMMITTED, the isolation \<open>BeginTx(ctx, nil)\<close> asks for): the item row from \<open>SELECT ... FOR
  NO KEY UPDATE\<close> and from \<open>UPDATE items\<close>, the reservation row from \<open>UPDATE reservations\<close>, and the unique
  index entries of an inserted row.  The lemmas show that every interleaving gives each call the result,
  and the tables the content, of running the calls one after the other, and that no set of calls can
  deadlock.
\<close>

section \<open>One statement of a transaction\<close>

datatype tx_result = AttemptResult "goerr + outcome" | ExpireResult "goerr + expiry_outcome"

text \<open>
  Where a transaction is.  \<open>Selected\<close> is a decision with the item locked, \<open>Inserted\<close> and \<open>Decremented\<close> one
  with its own new row, \<open>Conflicted\<close> and \<open>Looked_up\<close> a replay; \<open>Marked\<close> and \<open>Restocked\<close> are an expiry of the
  row as it was.  \<open>Answering\<close> has nothing to commit any more.
\<close>

datatype tx_state =
    Started
  | Selected int
  | Inserted reservation
  | Decremented reservation
  | Conflicted
  | Looked_up uuid res_status
  | Marked reservation
  | Restocked reservation
  | Answering tx_result
  | Finished tx_result

definition add_available :: "uuid \<Rightarrow> int \<Rightarrow> item list \<Rightarrow> item list" where
  "add_available u n rows =
     map (\<lambda>x. if item_id x = u then x\<lparr>available_inventory := available_inventory x + n\<rparr> else x) rows"

definition mark_expired :: "uuid \<Rightarrow> reservation list \<Rightarrow> reservation list" where
  "mark_expired u rows = map (\<lambda>x. if res_id x = u then x\<lparr>res_status := Expired\<rparr> else x) rows"

text \<open>The tables as the transaction sees them: the committed ones with its own writes.\<close>

fun own_view :: "tx_state \<Rightarrow> db \<Rightarrow> db" where
  "own_view (Inserted row) d = d\<lparr>reservations := reservations d @ [row]\<rparr>"
| "own_view (Decremented row) d =
     d\<lparr>items := add_available (res_item row) (- res_quantity row) (items d), reservations := reservations d @ [row]\<rparr>"
| "own_view (Marked r) d = d\<lparr>reservations := mark_expired (res_id r) (reservations d)\<rparr>"
| "own_view (Restocked r) d =
     d\<lparr>items := add_available (res_item r) (res_quantity r) (items d),
       reservations := mark_expired (res_id r) (reservations d)\<rparr>"
| "own_view st d = d"

text \<open>\<open>tx.Commit()\<close> of a transaction in state \<open>st\<close>, with the answer it leads to.\<close>

definition commit_view :: "tx_env \<Rightarrow> string \<Rightarrow> tx_state \<Rightarrow> db \<Rightarrow> 'a \<Rightarrow> (goerr + 'a \<Rightarrow> tx_result) \<Rightarrow> tx_state \<times> db" where
  "commit_view e msg st d out result = (case commit_tx e msg d (own_view st d) out of (r, d') \<Rightarrow> (Finished (result r), d'))"

fun attempt_next :: "pg_server \<Rightarrow> tx_env \<Rightarrow> attempt \<Rightarrow> int \<Rightarrow> db \<Rightarrow> tx_state \<Rightarrow> tx_state \<times> db" where
  "attempt_next S e a ttl d Started =
     (if Quantity a \<le> 0 then
        (Finished (AttemptResult (Inl (WrapErr [] ErrInvalidQuantity ('': got '' @ int_text (Quantity a))))), d)
      else case fault e AtBegin of
        Some er \<Rightarrow> (Finished (AttemptResult (Inl (wrap_err ''decision: beginning transaction: '' er))), d)
      | None \<Rightarrow>
      (case select_available S e (ItemID a) d of
         Inl er \<Rightarrow>
           (Finished (AttemptResult (Inl (if errors_is er ErrNoRows then WrapErr [] ErrItemNotFound ('': '' @ ItemID a)
              else wrap_err (''decision: locking item '' @ ItemID a @ '': '') er))), d)
       | Inr avail \<Rightarrow> (Selected avail, d)))"
| "attempt_next S e a ttl d (Selected avail) =
     (case insert_reservation S e (ItemID a) (UserID a) (Quantity a)
             (if avail \<ge> Quantity a then Reserved else Rejected) (IdempotencyKey a)
             (if avail \<ge> Quantity a then Some (go_now e + ttl) else None) d of
        Inl er \<Rightarrow>
          if errors_is er ErrNoRows then (Conflicted, d)
          else (Finished (AttemptResult (Inl (wrap_err ''decision: inserting reservation: '' er))), d)
      | Inr (returned, d1) \<Rightarrow> (Inserted (last (reservations d1)), d))"
| "attempt_next S e a ttl d (Inserted row) =
     (if res_status row = Reserved then
        (case update_available S e (- Quantity a) (ItemID a) (own_view (Inserted row) d) of
           Inl er \<Rightarrow>
             (Finished (AttemptResult (Inl (wrap_err (''decision: decrementing inventory for item '' @ ItemID a @ '': '') er))), d)
         | Inr d2 \<Rightarrow> (Decremented row, d))
      else commit_view e ''decision: committing: '' (Inserted row) d
             \<lparr> ReservationID = uuid_out S (res_id row), Status = res_status row, Replayed = False \<rparr> AttemptResult)"
| "attempt_next S e a ttl d (Decremented row) =
     commit_view e ''decision: committing: '' (Decremented row) d
       \<lparr> ReservationID = uuid_out S (res_id row), Status = res_status row, Replayed = False \<rparr> AttemptResult"
| "attempt_next S e a ttl d Conflicted =
     (case select_reservation S e (ItemID a) (IdempotencyKey a) d of
        Inl lookupErr \<Rightarrow>
          (Finished (AttemptResult (Inl (wrap_err
             ''decision: looking up existing reservation for replayed attempt: '' lookupErr))), d)
      | Inr (rid, st) \<Rightarrow> (Looked_up rid st, d))"
| "attempt_next S e a ttl d (Looked_up rid st) =
     commit_view e ''decision: committing replayed attempt: '' (Looked_up rid st) d
       \<lparr> ReservationID = uuid_out S rid, Status = st, Replayed = True \<rparr> AttemptResult"
| "attempt_next S e a ttl d st = (st, d)"

text \<open>
  An expiry whose \<open>UPDATE\<close> matched no row has its answer, and leaves the tables alone whatever its COMMIT
  does.
\<close>

fun expire_next :: "pg_server \<Rightarrow> tx_env \<Rightarrow> string \<Rightarrow> db \<Rightarrow> tx_state \<Rightarrow> tx_state \<times> db" where
  "expire_next S e rid d Started =
     (case fault e AtBegin of
        Some er \<Rightarrow> (Finished (ExpireResult (Inl (wrap_err ''expiry: beginning transaction: '' er))), d)
      | None \<Rightarrow>
      (case update_expired S e rid d of
         Inl er \<Rightarrow>
           if errors_is er ErrNoRows then
             (Answering (ExpireResult (fst (commit_tx e ''expiry: committing no-op: '' d d
                \<lparr> exp_ReservationID = rid, exp_ItemID = [], exp_Quantity = 0, Released = False \<rparr>))), d)
           else (Finished (ExpireResult (Inl (wrap_err (''expiry: expiring reservation '' @ rid @ '': '') er))), d)
       | Inr (returned, d1) \<Rightarrow>
           (case uuid_in S rid of
              None \<Rightarrow> (Started, d)
            | Some u \<Rightarrow> (case find_reservation u d of None \<Rightarrow> (Started, d) | Some r \<Rightarrow> (Marked r, d)))))"
| "expire_next S e rid d (Marked r) =
     (case update_available S e (res_quantity r) (uuid_out S (res_item r)) (own_view (Marked r) d) of
        Inl er \<Rightarrow>
          (Finished (ExpireResult (Inl (wrap_err (''expiry: releasing inventory for item '' @ uuid_out S (res_item r) @ '': '') er))), d)
      | Inr d2 \<Rightarrow> (Restocked r, d))"
| "expire_next S e rid d (Restocked r) =
     commit_view e ''expiry: committing: '' (Restocked r) d
       \<lparr> exp_ReservationID = rid, exp_ItemID = uuid_out S (res_item r), exp_Quantity = res_quantity r, Released = True \<rparr>
       ExpireResult"
| "expire_next S e rid d (Answering r) = (Finished r, d)"
| "expire_next S e rid d st = (st, d)"

fun tx_next :: "pg_server \<Rightarrow> sale_op \<Rightarrow> db \<Rightarrow> tx_state \<Rightarrow> tx_state \<times> db" where
  "tx_next S (Deliver e a ttl) d st = attempt_next S e a ttl d st"
| "tx_next S (Expire e rid) d st = expire_next S e rid d st"

section \<open>Locks\<close>

datatype lock = ItemLock uuid | ResLock uuid

text \<open>
  What a transaction holds until it commits or rolls back: the rows it locked, and the unique index entry
  of a row it inserted.  A statement waits until it can take the locks of the state it leads to; one that
  fails, or that finds no row to lock, needs none.
\<close>

fun held_locks :: "pg_server \<Rightarrow> sale_op \<Rightarrow> tx_state \<Rightarrow> lock set" where
  "held_locks S (Deliver e a ttl) (Selected avail) = ItemLock ` set_option (uuid_in S (ItemID a))"
| "held_locks S (Deliver e a ttl) Conflicted = ItemLock ` set_option (uuid_in S (ItemID a))"
| "held_locks S (Deliver e a ttl) (Looked_up rid st) = ItemLock ` set_option (uuid_in S (ItemID a))"
| "held_locks S (Deliver e a ttl) (Inserted row) = {ItemLock (res_item row), ResLock (res_id row)}"
| "held_locks S (Deliver e a ttl) (Decremented row) = {ItemLock (res_item row), ResLock (res_id row)}"
| "held_locks S (Expire e rid) (Marked r) = {ResLock (res_id r)}"
| "held_locks S (Expire e rid) (Restocked r) = {ResLock (res_id r), ItemLock (res_item r)}"
| "held_locks S x st = {}"

section \<open>Many transactions\<close>

record sessions =
  committed :: db
  txs :: "(sale_op \<times> tx_state) list"
  history :: "(nat \<times> tx_result) list"

text \<open>
  \<open>history\<close> is the order in which the calls take effect: at their commit, at the statement that fails, or
  for an expiry without a row at its \<open>UPDATE\<close>.
\<close>

definition begin_sessions :: "db \<Rightarrow> sale_op list \<Rightarrow> sessions" where
  "begin_sessions d ops = \<lparr> committed = d, txs = map (\<lambda>x. (x, Started)) ops, history = [] \<rparr>"

fun is_finished :: "tx_state \<Rightarrow> bool" where
  "is_finished (Finished r) = True"
| "is_finished _ = False"

fun answer_of :: "tx_state \<Rightarrow> tx_result option" where
  "answer_of (Finished r) = Some r"
| "answer_of (Answering r) = Some r"
| "answer_of _ = None"

definition locks_of_others :: "pg_server \<Rightarrow> nat \<Rightarrow> sessions \<Rightarrow> lock set" where
  "locks_of_others S i s = (\<Union>j \<in> {j. j < length (txs s) \<and> j \<noteq> i}. held_locks S (fst (txs s ! j)) (snd (txs s ! j)))"

inductive session_step :: "pg_server \<Rightarrow> nat \<Rightarrow> sessions \<Rightarrow> sessions \<Rightarrow> bool" for S where
  session_step:
    "i < length (txs s) \<Longrightarrow> txs s ! i = (x, st) \<Longrightarrow> \<not> is_finished st
     \<Longrightarrow> tx_next S x (committed s) st = (st', d')
     \<Longrightarrow> held_locks S x st' \<inter> locks_of_others S i s = {}
     \<Longrightarrow> session_step S i s (s\<lparr> committed := d', txs := (txs s)[i := (x, st')],
           history := history s @ (case (answer_of st, answer_of st') of (None, Some r) \<Rightarrow> [(i, r)] | _ \<Rightarrow> []) \<rparr>)"

inductive session_run :: "pg_server \<Rightarrow> nat list \<Rightarrow> sessions \<Rightarrow> sessions \<Rightarrow> bool" for S where
  run_none: "session_run S [] s s"
| run_more: "session_run S is s s' \<Longrightarrow> session_step S i s' s'' \<Longrightarrow> session_run S (is @ [i]) s s''"

text \<open>The calls one after the other.\<close>

fun atomic_call :: "pg_server \<Rightarrow> sale_op \<Rightarrow> db \<Rightarrow> tx_result \<times> db" where
  "atomic_call S (Deliver e a ttl) d = (case ProcessAttempt S e a ttl d of (r, d') \<Rightarrow> (AttemptResult r, d'))"
| "atomic_call S (Expire e rid) d = (case ExpireReservation S e rid d of (r, d') \<Rightarrow> (ExpireResult r, d'))"

fun one_by_one :: "pg_server \<Rightarrow> sale_op list \<Rightarrow> (nat \<times> tx_result) list \<Rightarrow> db \<Rightarrow> db \<Rightarrow> bool" where
  "one_by_one S ops [] d d' \<longleftrightarrow> d' = d"
| "one_by_one S ops ((i, r) # h) d d' \<longleftrightarrow>
     i < length ops \<and> fst (atomic_call S (ops ! i) d) = r \<and> one_by_one S ops h (snd (atomic_call S (ops ! i) d)) d'"

lemma one_by_one_snoc:
  "one_by_one S ops (h @ [(i, r)]) d d' \<longleftrightarrow>
     (\<exists>d1. one_by_one S ops h d d1 \<and> i < length ops \<and> atomic_call S (ops ! i) d1 = (r, d'))"
  by (induction h arbitrary: d) (auto simp: prod_eq_iff)

lemma atomic_call_sale: "snd (atomic_call S x d) = snd (sale_step S x d)"
  by (cases x) (simp_all split: prod.split)

lemma one_by_one_sale: "one_by_one S ops h d d' \<Longrightarrow> d' = run_sale S (map (\<lambda>(i, r). ops ! i) h) d"
  by (induction S ops h d d' rule: one_by_one.induct) (simp_all add: run_sale_def atomic_call_sale)

section \<open>Where a transaction can be\<close>

abbreviation insert_stmt :: "pg_server \<Rightarrow> tx_env \<Rightarrow> attempt \<Rightarrow> int \<Rightarrow> int \<Rightarrow> db \<Rightarrow> goerr + ((uuid \<times> res_status) \<times> db)" where
  "insert_stmt S e a ttl avail d \<equiv>
     insert_reservation S e (ItemID a) (UserID a) (Quantity a)
       (if avail \<ge> Quantity a then Reserved else Rejected) (IdempotencyKey a)
       (if avail \<ge> Quantity a then Some (go_now e + ttl) else None) d"

text \<open>The statements done so far, run alone on the committed tables, lead to the state.\<close>

definition selected_ok :: "pg_server \<Rightarrow> tx_env \<Rightarrow> attempt \<Rightarrow> db \<Rightarrow> int \<Rightarrow> bool" where
  "selected_ok S e a d avail \<longleftrightarrow>
     0 < Quantity a \<and> fault e AtBegin = None \<and> select_available S e (ItemID a) d = Inr avail"

definition inserted_ok :: "pg_server \<Rightarrow> tx_env \<Rightarrow> attempt \<Rightarrow> int \<Rightarrow> db \<Rightarrow> reservation \<Rightarrow> bool" where
  "inserted_ok S e a ttl d row \<longleftrightarrow>
     (\<exists>avail. selected_ok S e a d avail
        \<and> insert_stmt S e a ttl avail d = Inr ((res_id row, res_status row), own_view (Inserted row) d))"

definition conflicted_ok :: "pg_server \<Rightarrow> tx_env \<Rightarrow> attempt \<Rightarrow> int \<Rightarrow> db \<Rightarrow> bool" where
  "conflicted_ok S e a ttl d \<longleftrightarrow>
     (\<exists>avail er. selected_ok S e a d avail \<and> insert_stmt S e a ttl avail d = Inl er \<and> errors_is er ErrNoRows)"

definition marked_ok :: "pg_server \<Rightarrow> tx_env \<Rightarrow> string \<Rightarrow> db \<Rightarrow> reservation \<Rightarrow> bool" where
  "marked_ok S e rid d r \<longleftrightarrow>
     fault e AtBegin = None \<and> uuid_in S rid = Some (res_id r) \<and> find_reservation (res_id r) d = Some r
   \<and> update_expired S e rid d = Inr ((uuid_out S (res_item r), res_quantity r), own_view (Marked r) d)"

fun attempt_pre :: "pg_server \<Rightarrow> tx_env \<Rightarrow> attempt \<Rightarrow> int \<Rightarrow> db \<Rightarrow> tx_state \<Rightarrow> bool" where
  "attempt_pre S e a ttl d (Selected avail) \<longleftrightarrow> selected_ok S e a d avail"
| "attempt_pre S e a ttl d (Inserted row) \<longleftrightarrow> inserted_ok S e a ttl d row"
| "attempt_pre S e a ttl d (Decremented row) \<longleftrightarrow>
     inserted_ok S e a ttl d row \<and> res_status row = Reserved
   \<and> update_available S e (- Quantity a) (ItemID a) (own_view (Inserted row) d) = Inr (own_view (Decremented row) d)"
| "attempt_pre S e a ttl d Conflicted \<longleftrightarrow> conflicted_ok S e a ttl d"
| "attempt_pre S e a ttl d (Looked_up rid st) \<longleftrightarrow>
     conflicted_ok S e a ttl d \<and> select_reservation S e (ItemID a) (IdempotencyKey a) d = Inr (rid, st)"
| "attempt_pre S e a ttl d (Marked r) \<longleftrightarrow> False"
| "attempt_pre S e a ttl d (Restocked r) \<longleftrightarrow> False"
| "attempt_pre S e a ttl d (Answering r) \<longleftrightarrow> False"
| "attempt_pre S e a ttl d st \<longleftrightarrow> True"

fun expire_pre :: "pg_server \<Rightarrow> tx_env \<Rightarrow> string \<Rightarrow> db \<Rightarrow> tx_state \<Rightarrow> bool" where
  "expire_pre S e rid d (Marked r) \<longleftrightarrow> marked_ok S e rid d r"
| "expire_pre S e rid d (Restocked r) \<longleftrightarrow>
     marked_ok S e rid d r
   \<and> update_available S e (res_quantity r) (uuid_out S (res_item r)) (own_view (Marked r) d) = Inr (own_view (Restocked r) d)"
| "expire_pre S e rid d Started \<longleftrightarrow> True"
| "expire_pre S e rid d (Answering r) \<longleftrightarrow> True"
| "expire_pre S e rid d (Finished r) \<longleftrightarrow> True"
| "expire_pre S e rid d st \<longleftrightarrow> False"

fun tx_pre :: "pg_server \<Rightarrow> sale_op \<Rightarrow> db \<Rightarrow> tx_state \<Rightarrow> bool" where
  "tx_pre S (Deliver e a ttl) d st = attempt_pre S e a ttl d st"
| "tx_pre S (Expire e rid) d st = expire_pre S e rid d st"

lemma tx_pre_Started [simp]: "tx_pre S x d Started"
  by (cases x) simp_all

lemma update_available_iff:
  assumes "uuid_in S i = Some u" "find_item u d = Some it"
  shows "update_available S e n i d = Inr d1 \<longleftrightarrow>
    fault e AtUpdate = None \<and> int4 n \<and> int4 (available_inventory it + n) \<and> 0 \<le> available_inventory it + n
    \<and> available_inventory it + n \<le> total_inventory it \<and> d1 = d\<lparr>items := add_available u n (items d)\<rparr>"
  using assms by (auto simp: update_available_def add_available_def Let_def split: option.splits if_splits)

lemma own_row:
  assumes "insert_stmt S e a ttl avail d = Inr ((rid, st), d1)"
  shows "\<exists>row. last (reservations d1) = row \<and> d1 = own_view (Inserted row) d \<and> rid = res_id row \<and> st = res_status row
    \<and> uuid_in S (ItemID a) = Some (res_item row) \<and> res_quantity row = Quantity a
    \<and> res_status row = (if avail \<ge> Quantity a then Reserved else Rejected)
    \<and> find_item (res_item row) d \<noteq> None \<and> find_reservation (res_id row) d = None
    \<and> (\<forall>d'. find_item (res_item row) d' = find_item (res_item row) d
        \<longrightarrow> find_attempt (res_item row) (IdempotencyKey a) d' = find_attempt (res_item row) (IdempotencyKey a) d
        \<longrightarrow> find_reservation (res_id row) d' = None
        \<longrightarrow> insert_stmt S e a ttl avail d' = Inr ((rid, st), own_view (Inserted row) d'))"
  using assms by (auto simp: insert_reservation_def split: option.splits if_splits)

section \<open>A step is a step of the call run alone\<close>

text \<open>A step that leaves the call undecided writes nothing that is visible and keeps the prefix; one that decides it does what the whole call does.\<close>

definition follows :: "pg_server \<Rightarrow> sale_op \<Rightarrow> db \<Rightarrow> tx_state \<times> db \<Rightarrow> bool" where
  "follows S x d q \<longleftrightarrow>
     (case answer_of (fst q) of
        None \<Rightarrow> snd q = d \<and> tx_pre S x d (fst q)
      | Some r \<Rightarrow> atomic_call S x d = (r, snd q))"

lemma commit_view_follows:
  assumes "atomic_call S x d = (case commit_tx e msg d (own_view st d) out of (r, d') \<Rightarrow> (result r, d'))"
  shows "follows S x d (commit_view e msg st d out result)"
  using assms by (simp add: follows_def commit_view_def split: prod.splits)

lemma inserted_decremented:
  assumes "inserted_ok S e a ttl d row"
    and "update_available S e (- Quantity a) (ItemID a) (own_view (Inserted row) d) = Inr d2"
  shows "d2 = own_view (Decremented row) d"
proof -
  obtain avail where ins: "insert_stmt S e a ttl avail d = Inr ((res_id row, res_status row), own_view (Inserted row) d)"
    using assms(1) by (auto simp: inserted_ok_def)
  from own_row [OF this] have row: "uuid_in S (ItemID a) = Some (res_item row)" "res_quantity row = Quantity a"
    "find_item (res_item row) d \<noteq> None" by auto
  then obtain it where "find_item (res_item row) (own_view (Inserted row) d) = Some it" by auto
  from update_available_iff [OF row(1) this] assms(2) row(2) show ?thesis by simp
qed

lemma selected_follows:
  assumes "selected_ok S e a d avail"
  shows "follows S (Deliver e a ttl) d (attempt_next S e a ttl d (Selected avail))"
proof (cases "insert_stmt S e a ttl avail d")
  case (Inl er)
  with assms show ?thesis 
    by (cases "errors_is er ErrNoRows") (auto simp: follows_def ProcessAttempt_def conflicted_ok_def selected_ok_def Let_def)
next
  case (Inr p)
  obtain rid' st' d1 where p: "p = ((rid', st'), d1)" by (metis surj_pair)
  note own = own_row [OF Inr [unfolded p]]
  then have "inserted_ok S e a ttl d (last (reservations d1))"
    unfolding inserted_ok_def using assms Inr p by (intro exI [of _ avail]) auto
  then show ?thesis by (simp add: follows_def Inr p)
qed

lemma inserted_follows:
  assumes "inserted_ok S e a ttl d row"
  shows "follows S (Deliver e a ttl) d (attempt_next S e a ttl d (Inserted row))"
proof -
  obtain avail where sel: "selected_ok S e a d avail"
    and stmt: "insert_stmt S e a ttl avail d = Inr ((res_id row, res_status row), own_view (Inserted row) d)"
    using assms by (auto simp: inserted_ok_def)
  show ?thesis
  proof (cases "res_status row = Reserved")
    case True
    show ?thesis
    proof (cases "update_available S e (- Quantity a) (ItemID a) (own_view (Inserted row) d)")
      case (Inl er)
      with True sel stmt show ?thesis
        by (simp add: follows_def ProcessAttempt_def selected_ok_def Let_def)
    next
      case (Inr d2)
      with True assms inserted_decremented [OF assms Inr] show ?thesis
        by (simp add: follows_def)
    qed
  next
    case False
    with sel stmt show ?thesis
      by (simp, intro commit_view_follows) (simp add: ProcessAttempt_def selected_ok_def Let_def)
  qed
qed

lemma attempt_follows:
  assumes "attempt_pre S e a ttl d st" "answer_of st = None"
  shows "follows S (Deliver e a ttl) d (attempt_next S e a ttl d st)"
proof (cases st)
  case Started
  show ?thesis
  proof (cases "Quantity a \<le> 0 \<or> fault e AtBegin \<noteq> None")
    case True
    then show ?thesis unfolding Started by (auto simp: follows_def ProcessAttempt_def)
  next
    case False
    then show ?thesis unfolding Started
      by (cases "select_available S e (ItemID a) d")
        (auto simp: follows_def ProcessAttempt_def selected_ok_def)
  qed
next
  case (Selected avail)
  with assms(1) selected_follows show ?thesis by simp
next
  case (Inserted row)
  with assms(1) inserted_follows show ?thesis by simp
next
  case (Decremented row)
  then have ins: "inserted_ok S e a ttl d row" "res_status row = Reserved"
    "update_available S e (- Quantity a) (ItemID a) (own_view (Inserted row) d) = Inr (own_view (Decremented row) d)"
    using assms(1) by simp_all
  then obtain avail where "selected_ok S e a d avail"
    and "insert_stmt S e a ttl avail d = Inr ((res_id row, res_status row), own_view (Inserted row) d)"
    by (auto simp: inserted_ok_def)
  with ins(2,3) show ?thesis unfolding Decremented attempt_next.simps
    by (intro commit_view_follows) (simp add: ProcessAttempt_def selected_ok_def Let_def)
next
  case Conflicted
  then obtain avail er where "selected_ok S e a d avail" "insert_stmt S e a ttl avail d = Inl er" "errors_is er ErrNoRows"
    using assms(1) by (auto simp: conflicted_ok_def)
  then show ?thesis using assms(1) unfolding Conflicted
    by (cases "select_reservation S e (ItemID a) (IdempotencyKey a) d")
      (auto simp: follows_def ProcessAttempt_def selected_ok_def Let_def)
next
  case (Looked_up rid rst)
  then obtain avail er where "selected_ok S e a d avail" "insert_stmt S e a ttl avail d = Inl er" "errors_is er ErrNoRows"
    and "select_reservation S e (ItemID a) (IdempotencyKey a) d = Inr (rid, rst)"
    using assms(1) by (auto simp: conflicted_ok_def)
  then show ?thesis unfolding Looked_up attempt_next.simps
    by (intro commit_view_follows) (simp add: ProcessAttempt_def selected_ok_def Let_def)
qed (use assms in auto)

lemma update_expired_marks:
  assumes "update_expired S e rid d = Inr ((itemID, q), d1)"
  shows "\<exists>r. uuid_in S rid = Some (res_id r) \<and> find_reservation (res_id r) d = Some r \<and> lapsed (tx_now e) r
    \<and> itemID = uuid_out S (res_item r) \<and> q = res_quantity r \<and> d1 = own_view (Marked r) d"
  using assms
proof (rule update_expired_cases)
  fix u r
  assume "uuid_in S rid = Some u" "find_reservation u d = Some r" "lapsed (tx_now e) r"
    "itemID = uuid_out S (res_item r)" "q = res_quantity r"
    "d1 = d\<lparr>reservations := map (\<lambda>x. if res_id x = u then x\<lparr>res_status := Expired\<rparr> else x) (reservations d)\<rparr>"
  then show ?thesis using find_reservation_in [of u d r] by (intro exI [of _ r]) (simp add: mark_expired_def)
qed

context uuid_io
begin

lemma marked_restocked:
  assumes "marked_ok S e rid d r" "schema_ok d"
    and "update_available S e (res_quantity r) (uuid_out S (res_item r)) (own_view (Marked r) d) = Inr d2"
  shows "d2 = own_view (Restocked r) d"
proof -
  have "r \<in> set (reservations d)"
    using assms(1) find_reservation_in [of "res_id r" d r] by (simp add: marked_ok_def)
  then have "res_item r \<in> item_id ` set (items d)" using assms(2) by (auto simp: schema_ok_def)
  then have "find_item (res_item r) d \<noteq> None" by (simp only: find_item_member)
  then obtain it where "find_item (res_item r) (own_view (Marked r) d) = Some it" by auto
  from update_available_iff [OF uuid_in_out this] assms(3) show ?thesis by simp
qed

lemma expire_follows:
  assumes "expire_pre S e rid d st" "answer_of st = None" "schema_ok d"
  shows "follows S (Expire e rid) d (expire_next S e rid d st)"
proof (cases st)
  case Started
  show ?thesis
  proof (cases "fault e AtBegin")
    case (Some er)
    then show ?thesis unfolding Started by (simp add: follows_def ExpireReservation_def)
  next
    case None
    show ?thesis
    proof (cases "update_expired S e rid d")
      case (Inl er)
      with None show ?thesis unfolding Started
        by (cases "errors_is er ErrNoRows")
          (auto simp: follows_def ExpireReservation_def commit_tx_def split: option.split)
    next
      case (Inr p)
      obtain itemID q d1 where p: "p = ((itemID, q), d1)" by (metis surj_pair)
      from update_expired_marks [OF Inr [unfolded p]] None Inr p show ?thesis
        unfolding Started by (auto simp: follows_def marked_ok_def)
    qed
  qed
next
  case (Marked r)
  then have m: "marked_ok S e rid d r" using assms(1) by simp
  show ?thesis
  proof (cases "update_available S e (res_quantity r) (uuid_out S (res_item r)) (own_view (Marked r) d)")
    case (Inl er)
    with m show ?thesis unfolding Marked by (simp add: follows_def ExpireReservation_def marked_ok_def)
  next
    case (Inr d2)
    with m marked_restocked [OF m assms(3) Inr] show ?thesis unfolding Marked by (simp add: follows_def)
  qed
next
  case (Restocked r)
  then have "marked_ok S e rid d r"
    "update_available S e (res_quantity r) (uuid_out S (res_item r)) (own_view (Marked r) d) = Inr (own_view (Restocked r) d)"
    using assms(1) by simp_all
  then show ?thesis unfolding Restocked expire_next.simps
    by (intro commit_view_follows) (simp add: ExpireReservation_def marked_ok_def)
qed (use assms in auto)

lemma tx_follows:
  assumes "tx_pre S x d st" "answer_of st = None" "schema_ok d"
  shows "follows S x d (tx_next S x d st)"
  using assms attempt_follows expire_follows by (cases x) simp_all

end

section \<open>What a commit of another transaction leaves alone\<close>

text \<open>The writes of a transaction that holds item \<open>v\<close> and reservation \<open>w\<close>.\<close>

definition frame :: "uuid \<Rightarrow> uuid \<Rightarrow> db \<Rightarrow> db \<Rightarrow> bool" where
  "frame v w d d' \<longleftrightarrow>
     (\<forall>u. u \<noteq> v \<longrightarrow> find_item u d' = find_item u d)
   \<and> (\<forall>u k. u \<noteq> v \<longrightarrow> find_attempt u k d' = find_attempt u k d)
   \<and> (\<forall>y. y \<noteq> w \<longrightarrow> find_reservation y d' = find_reservation y d)"

lemma find_item_add: "find (\<lambda>r. item_id r = u) (add_available v n rows)
    = (if u = v then map_option (\<lambda>x. x\<lparr>available_inventory := available_inventory x + n\<rparr>) (find (\<lambda>r. item_id r = u) rows)
       else find (\<lambda>r. item_id r = u) rows)"
  unfolding add_available_def by (rule find_map_update) simp

lemma find_attempt_mark:
  assumes "\<And>x. x \<in> set rows \<Longrightarrow> res_id x = w \<Longrightarrow> res_item x = v" "u \<noteq> v"
  shows "find (\<lambda>r. res_index r = (u, k)) (mark_expired w rows) = find (\<lambda>r. res_index r = (u, k)) rows"
  using assms by (induction rows) (auto simp: mark_expired_def res_index_def)

lemma find_reservation_mark:
  "y \<noteq> w \<Longrightarrow> find (\<lambda>r. res_id r = y) (mark_expired w rows) = find (\<lambda>r. res_id r = y) rows"
  by (induction rows) (auto simp: mark_expired_def)

lemma frame_append:
  "frame (res_item row) (res_id row) d (d\<lparr>reservations := reservations d @ [row]\<rparr>)"
  "frame (res_item row) (res_id row) d
     (d\<lparr>items := add_available (res_item row) n (items d), reservations := reservations d @ [row]\<rparr>)"
  by (auto simp: frame_def find_item_add find_append res_index_def split: option.splits)

lemma frame_restocked:
  assumes "schema_ok d" "find_reservation (res_id r) d = Some r"
  shows "frame (res_item r) (res_id r) d (own_view (Restocked r) d)"
proof -
  have dist: "distinct (map res_id (reservations d))" using assms(1) by (simp add: schema_ok_def)
  have "x = r" if "x \<in> set (reservations d)" "res_id x = res_id r" for x
    using find_Some_iff_distinct [OF dist, THEN iffD2, OF conjI [OF that]] assms(2) by (metis option.inject)
  then have "res_item x = res_item r" if "x \<in> set (reservations d)" "res_id x = res_id r" for x
    using that by blast
  then have "find (\<lambda>x. res_index x = (u, k)) (mark_expired (res_id r) (reservations d)) = find_attempt u k d"
    if "u \<noteq> res_item r" for u k
    using that by (rule find_attempt_mark)
  then show ?thesis unfolding frame_def by (simp add: find_item_add find_reservation_mark)
qed

text \<open>So a step of one transaction changes the committed tables only where it holds locks.\<close>

lemma step_frame:
  assumes "tx_pre S y d sy" "tx_next S y d sy = (sy', d')" "schema_ok d"
  shows "d' = d \<or> (\<exists>v w. ItemLock v \<in> held_locks S y sy \<and> ResLock w \<in> held_locks S y sy \<and> frame v w d d')"
proof (cases y)
  case (Deliver e a ttl)
  with assms show ?thesis
    by (cases sy) (auto simp: commit_view_def commit_tx_def intro: frame_append
        split: if_splits option.splits sum.splits prod.splits)
next
  case (Expire e rid)
  show ?thesis
  proof (cases sy)
    case (Restocked r)
    have "marked_ok S e rid d r" using assms(1) by (simp add: Expire Restocked)
    then have "frame (res_item r) (res_id r) d (own_view (Restocked r) d)"
      by (intro frame_restocked [OF assms(3)]) (simp add: marked_ok_def)
    moreover have "d' = d \<or> d' = own_view (Restocked r) d"
      using assms(2) by (auto simp: Expire Restocked commit_view_def commit_tx_def split: prod.splits option.splits if_splits)
    ultimately show ?thesis by (auto simp: Expire Restocked)
  qed (use assms in \<open>auto simp: Expire split: if_splits option.splits sum.splits prod.splits\<close>)
qed

section \<open>What a transaction has done stays valid\<close>

lemma selected_stable:
  assumes "selected_ok S e a d avail" "frame v w d d'" "uuid_in S (ItemID a) \<noteq> Some v"
  shows "selected_ok S e a d' avail"
  using assms by (auto simp: selected_ok_def select_available_def frame_def split: option.splits)

lemma inserted_stable:
  assumes "inserted_ok S e a ttl d row" "frame v w d d'" "v \<noteq> res_item row" "w \<noteq> res_id row"
  shows "inserted_ok S e a ttl d' row"
proof -
  obtain avail where sel: "selected_ok S e a d avail"
    and stmt: "insert_stmt S e a ttl avail d = Inr ((res_id row, res_status row), own_view (Inserted row) d)"
    using assms(1) by (auto simp: inserted_ok_def)
  from own_row [OF stmt] have row: "uuid_in S (ItemID a) = Some (res_item row)" "find_reservation (res_id row) d = None"
    "\<And>d'. find_item (res_item row) d' = find_item (res_item row) d
        \<Longrightarrow> find_attempt (res_item row) (IdempotencyKey a) d' = find_attempt (res_item row) (IdempotencyKey a) d
        \<Longrightarrow> find_reservation (res_id row) d' = None
        \<Longrightarrow> insert_stmt S e a ttl avail d' = Inr ((res_id row, res_status row), own_view (Inserted row) d')"
    by auto
  have "insert_stmt S e a ttl avail d' = Inr ((res_id row, res_status row), own_view (Inserted row) d')"
    using assms(2-4) row(2) by (intro row(3)) (auto simp: frame_def)
  moreover have "selected_ok S e a d' avail"
    using selected_stable [OF sel assms(2)] row(1) assms(3) by auto
  ultimately show ?thesis by (auto simp: inserted_ok_def)
qed

lemma conflicted_stable:
  assumes "conflicted_ok S e a ttl d" "frame v w d d'" "uuid_in S (ItemID a) \<noteq> Some v"
  shows "conflicted_ok S e a ttl d'"
proof -
  obtain avail er where sel: "selected_ok S e a d avail" and er: "insert_stmt S e a ttl avail d = Inl er" "errors_is er ErrNoRows"
    using assms(1) by (auto simp: conflicted_ok_def)
  have "insert_stmt S e a ttl avail d' = Inl er"
    using er assms(2,3) by (auto simp: insert_reservation_def frame_def ErrNoRows_def split: option.splits if_splits)
  with er(2) selected_stable [OF sel assms(2,3)] show ?thesis by (auto simp: conflicted_ok_def)
qed

lemma looked_up_stable:
  assumes "select_reservation S e i k d = Inr p" "frame v w d d'" "uuid_in S i \<noteq> Some v"
  shows "select_reservation S e i k d' = Inr p"
  using assms by (auto simp: select_reservation_def frame_def split: option.splits)

lemma marked_stable:
  assumes "marked_ok S e rid d r" "frame v w d d'" "w \<noteq> res_id r"
  shows "marked_ok S e rid d' r"
proof -
  have "find_reservation (res_id r) d' = Some r" using assms by (simp add: marked_ok_def frame_def)
  with assms(1) show ?thesis
    by (auto simp: marked_ok_def update_expired_def mark_expired_def split: option.splits if_splits)
qed

lemma update_stable:
  assumes "update_available S e n i (own_view st d) = Inr (own_view st2 d)"
    and "uuid_in S i = Some u" "find_item u d = Some it" "find_item u d' = find_item u d"
    and "items (own_view st d) = items d" "items (own_view st d') = items d'"
    and "own_view st2 d' = (own_view st d')\<lparr>items := add_available u n (items d')\<rparr>"
  shows "update_available S e n i (own_view st d') = Inr (own_view st2 d')"
proof -
  have 1: "find_item u (own_view st d) = Some it" "find_item u (own_view st d') = Some it"
    using assms(3-6) by simp_all
  from assms(1) update_available_iff [OF assms(2) 1(1)] update_available_iff [OF assms(2) 1(2)] assms(6,7)
  show ?thesis by simp
qed

context uuid_io
begin

lemma tx_pre_stable:
  assumes "tx_pre S x d st" "frame v w d d'" "ItemLock v \<notin> held_locks S x st" "ResLock w \<notin> held_locks S x st"
    and "schema_ok d"
  shows "tx_pre S x d' st"
proof (cases x)
  case (Deliver e a ttl)
  show ?thesis
  proof (cases st)
    case (Selected avail)
    with assms selected_stable [of S e a d avail v w d'] show ?thesis by (auto simp: Deliver)
  next
    case (Inserted row)
    with assms inserted_stable [of S e a ttl d row v w d'] show ?thesis by (auto simp: Deliver)
  next
    case (Decremented row)
    then have pre: "inserted_ok S e a ttl d row" "res_status row = Reserved"
      "update_available S e (- Quantity a) (ItemID a) (own_view (Inserted row) d) = Inr (own_view (Decremented row) d)"
      and vw: "v \<noteq> res_item row" "w \<noteq> res_id row"
      using assms(1,3,4) by (auto simp: Deliver)
    obtain avail where "insert_stmt S e a ttl avail d = Inr ((res_id row, res_status row), own_view (Inserted row) d)"
      using pre(1) by (auto simp: inserted_ok_def)
    from own_row [OF this] obtain it where row: "uuid_in S (ItemID a) = Some (res_item row)"
      "find_item (res_item row) d = Some it" "res_quantity row = Quantity a" by auto
    have "update_available S e (- Quantity a) (ItemID a) (own_view (Inserted row) d') = Inr (own_view (Decremented row) d')"
      by (rule update_stable [OF pre(3) row(1,2)]) (use assms(2) vw row(3) in \<open>auto simp: frame_def\<close>)
    with inserted_stable [OF pre(1) assms(2) vw] pre(2) show ?thesis by (simp add: Deliver Decremented)
  next
    case Conflicted
    with assms conflicted_stable [of S e a ttl d v w d'] show ?thesis by (auto simp: Deliver)
  next
    case (Looked_up rid rst)
    with assms conflicted_stable [of S e a ttl d v w d'] looked_up_stable [of S e "ItemID a" "IdempotencyKey a" d "(rid, rst)" v w d']
    show ?thesis by (auto simp: Deliver)
  qed (use assms(1) in \<open>auto simp: Deliver\<close>)
next
  case (Expire e rid)
  show ?thesis
  proof (cases st)
    case (Marked r)
    with assms marked_stable [of S e rid d r v w d'] show ?thesis by (auto simp: Expire)
  next
    case (Restocked r)
    then have pre: "marked_ok S e rid d r"
      "update_available S e (res_quantity r) (uuid_out S (res_item r)) (own_view (Marked r) d) = Inr (own_view (Restocked r) d)"
      and vw: "v \<noteq> res_item r" "w \<noteq> res_id r"
      using assms(1,3,4) by (auto simp: Expire)
    have "r \<in> set (reservations d)"
      using pre(1) find_reservation_in [of "res_id r" d r] by (simp add: marked_ok_def)
    then have "res_item r \<in> item_id ` set (items d)" using assms(5) by (auto simp: schema_ok_def)
    then have "find_item (res_item r) d \<noteq> None" by (simp only: find_item_member)
    then obtain it where "find_item (res_item r) d = Some it" by auto
    then have "update_available S e (res_quantity r) (uuid_out S (res_item r)) (own_view (Marked r) d') = Inr (own_view (Restocked r) d')"
      by (intro update_stable [OF pre(2) uuid_in_out]) (use assms(2) vw in \<open>auto simp: frame_def\<close>)
    with marked_stable [OF pre(1) assms(2) vw(2)] show ?thesis by (simp add: Expire Restocked)
  qed (use assms(1) in \<open>auto simp: Expire\<close>)
qed

end

section \<open>The invariant of an interleaving\<close>

abbreviation locks_at :: "pg_server \<Rightarrow> sessions \<Rightarrow> nat \<Rightarrow> lock set" where
  "locks_at S s i \<equiv> held_locks S (fst (txs s ! i)) (snd (txs s ! i))"

definition sessions_ok :: "pg_server \<Rightarrow> sale_op list \<Rightarrow> db \<Rightarrow> sessions \<Rightarrow> bool" where
  "sessions_ok S ops d s \<longleftrightarrow>
     map fst (txs s) = ops \<and> schema_ok (committed s)
   \<and> (\<forall>i < length ops. tx_pre S (ops ! i) (committed s) (snd (txs s ! i)))
   \<and> (\<forall>i < length ops. \<forall>j < length ops. i \<noteq> j \<longrightarrow> locks_at S s i \<inter> locks_at S s j = {})
   \<and> one_by_one S ops (history s) d (committed s)
   \<and> distinct (map fst (history s))
   \<and> (\<forall>i r. (i, r) \<in> set (history s) \<longleftrightarrow> i < length ops \<and> answer_of (snd (txs s ! i)) = Some r)"

lemma sessions_okD:
  assumes "sessions_ok S ops d s"
  shows "length (txs s) = length ops" "schema_ok (committed s)"
    "i < length ops \<Longrightarrow> fst (txs s ! i) = ops ! i"
    "i < length ops \<Longrightarrow> tx_pre S (ops ! i) (committed s) (snd (txs s ! i))"
    "i < length ops \<Longrightarrow> j < length ops \<Longrightarrow> i \<noteq> j \<Longrightarrow> locks_at S s i \<inter> locks_at S s j = {}"
    "one_by_one S ops (history s) d (committed s)" "distinct (map fst (history s))"
    "(i, r) \<in> set (history s) \<longleftrightarrow> i < length ops \<and> answer_of (snd (txs s ! i)) = Some r"
proof -
  have map: "map fst (txs s) = ops" using assms by (simp add: sessions_ok_def)
  then show len: "length (txs s) = length ops" by (metis length_map)
  show "fst (txs s ! i) = ops ! i" if "i < length ops" using map len that by (metis nth_map)
qed (use assms in \<open>simp_all add: sessions_ok_def\<close>)

lemma begin_sessions_ok: "schema_ok d \<Longrightarrow> sessions_ok S ops d (begin_sessions d ops)"
  by (auto simp: sessions_ok_def begin_sessions_def comp_def)

lemma answered_next:
  assumes "tx_pre S x d st" "answer_of st = Some r" "\<not> is_finished st"
  shows "tx_next S x d st = (Finished r, d)"
  using assms by (cases x; cases st) auto

context uuid_io
begin

lemma atomic_call_schema: "schema_ok d \<Longrightarrow> schema_ok (snd (atomic_call S x d))"
  using sale_step_ledger [of d x] by (simp add: atomic_call_sale)

text \<open>What a step does to its own transaction, and that it leaves the others where they were.\<close>

lemma own_step_ok:
  assumes "tx_pre S x d st" "schema_ok d" "\<not> is_finished st" "tx_next S x d st = (st', d')"
  shows "schema_ok d' \<and> tx_pre S x d' st'
    \<and> (answer_of st = None \<longrightarrow> answer_of st' = None \<longrightarrow> d' = d)
    \<and> (\<forall>r. answer_of st = None \<longrightarrow> answer_of st' = Some r \<longrightarrow> atomic_call S x d = (r, d'))
    \<and> (\<forall>r. answer_of st = Some r \<longrightarrow> answer_of st' = Some r \<and> d' = d)"
proof (cases "answer_of st")
  case None
  note f = tx_follows [OF assms(1) None assms(2)]
  show ?thesis
  proof (cases "answer_of st'")
    case None
    with f assms(2,4) \<open>answer_of st = None\<close> show ?thesis by (auto simp: follows_def)
  next
    case (Some r)
    then have call: "atomic_call S x d = (r, d')" using f assms(4) by (simp add: follows_def)
    moreover have "schema_ok d'" using atomic_call_schema [OF assms(2), of x] call by simp
    moreover have "tx_pre S x d' st'"
    proof (cases st')
      case (Answering q)
      with assms(1,4) show ?thesis
        by (cases x; cases st)
          (auto simp: commit_view_def split: if_splits option.splits sum.splits prod.splits)
    next
      case (Finished q)
      then show ?thesis by (cases x) simp_all
    qed (use Some in simp_all)
    ultimately show ?thesis using None Some by simp
  qed
next
  case (Some r)
  from answered_next [OF assms(1) Some assms(3)] assms(2,4) Some show ?thesis
    by (cases x) auto
qed

lemma other_pre_kept:
  assumes "tx_pre S x d st" "tx_next S x d st = (st', d')" "schema_ok d"
    and "tx_pre S y d sty" "held_locks S x st \<inter> held_locks S y sty = {}"
  shows "tx_pre S y d' sty"
  using step_frame [OF assms(1-3)]
proof (elim disjE exE conjE)
  fix v w
  assume f: "ItemLock v \<in> held_locks S x st" "ResLock w \<in> held_locks S x st" "frame v w d d'"
  from f(1,2) assms(5) have "ItemLock v \<notin> held_locks S y sty" "ResLock w \<notin> held_locks S y sty" by auto
  from tx_pre_stable [OF assms(4) f(3) this assms(3)] show ?thesis .
qed (use assms(4) in simp)

end

lemma locks_stay_disjoint:
  assumes "sessions_ok S ops d s" "held_locks S x st' \<inter> locks_of_others S i s = {}" "txs s' = (txs s)[i := (x, st')]"
    and "j < length ops" "k < length ops" "j \<noteq> k"
  shows "locks_at S s' j \<inter> locks_at S s' k = {}"
proof -
  note ok = sessions_okD [OF assms(1)]
  have own: "held_locks S x st' \<inter> locks_at S s m = {}" if "m < length ops" "m \<noteq> i" for m
  proof -
    have "locks_at S s m \<subseteq> locks_of_others S i s"
      unfolding locks_of_others_def using that ok(1) by (intro UN_upper) simp
    with assms(2) show ?thesis unfolding disjoint_iff subset_iff by metis
  qed
  have L: "locks_at S s' m = (if m = i then held_locks S x st' else locks_at S s m)" if "m < length ops" for m
    using that ok(1) by (simp add: assms(3) nth_list_update)
  from assms(6) consider "j = i" "k \<noteq> i" | "j \<noteq> i" "k = i" | "j \<noteq> i" "k \<noteq> i" by blast
  then show ?thesis
    unfolding L [OF assms(4)] L [OF assms(5)]
    using own [OF assms(4)] own [OF assms(5)] ok(5) [OF assms(4-6)] by cases (simp_all add: Int_commute)
qed

context uuid_io
begin

lemma session_step_ok:
  assumes "session_step S i s s'" "sessions_ok S ops d s"
  shows "sessions_ok S ops d s'"
  using assms(1)
proof (cases rule: session_step.cases)
  case (session_step x st st' d')
  note ok = sessions_okD [OF assms(2)]
  have i: "i < length ops" "x = ops ! i" "snd (txs s ! i) = st"
    using session_step ok(1) ok(3) [of i] by auto
  have pre: "tx_pre S x (committed s) st" using ok(4) [OF i(1)] i by simp
  have txs': "txs s' = (txs s)[i := (x, st')]" "committed s' = d'" by (simp_all add: session_step(1))
  have at: "txs s' ! j = (if j = i then (x, st') else txs s ! j)" if "j < length ops" for j
    using that ok(1) by (simp add: txs' nth_list_update)
  note next_ok = own_step_ok [OF pre ok(2) session_step(4,5)]
  have pres: "tx_pre S (ops ! j) d' (snd (txs s' ! j))" if j: "j < length ops" for j
  proof (cases "j = i")
    case False
    have "held_locks S x st \<inter> held_locks S (ops ! j) (snd (txs s ! j)) = {}"
      using ok(5) [OF i(1) j] False i ok(3) [OF j] ok(3) [OF i(1)] by simp
    from other_pre_kept [OF pre session_step(5) ok(2) ok(4) [OF j] this] at j False show ?thesis by simp
  qed (use next_ok i at j in simp)
  have ids: "map fst (txs s') = ops"
    using ok(1) ok(3) i by (intro nth_equalityI) (auto simp: txs' nth_list_update)
  have ans: "answer_of (snd (txs s' ! j)) = (if j = i then answer_of st' else answer_of (snd (txs s ! j)))"
    if "j < length ops" for j
    unfolding at [OF that] by simp
  have hist: "one_by_one S ops (history s') d d' \<and> distinct (map fst (history s'))
    \<and> (\<forall>j r. (j, r) \<in> set (history s') \<longleftrightarrow> j < length ops \<and> answer_of (snd (txs s' ! j)) = Some r)"
  proof (cases "answer_of st = None \<and> answer_of st' \<noteq> None")
    case True
    then obtain r where r: "answer_of st = None" "answer_of st' = Some r" by blast
    then have hist: "history s' = history s @ [(i, r)]" by (simp add: session_step(1))
    have "atomic_call S (ops ! i) (committed s) = (r, d')" using next_ok r i by simp
    with ok(6) i(1) have "one_by_one S ops (history s') d d'" unfolding hist one_by_one_snoc by blast
    moreover have "(i, q) \<notin> set (history s)" for q using ok(8) [of i q] r(1) i(3) by simp
    then have "i \<notin> fst ` set (history s)" by force
    then have "distinct (map fst (history s'))" using ok(7) by (simp add: hist)
    moreover have "(j, q) \<in> set (history s') \<longleftrightarrow> j < length ops \<and> answer_of (snd (txs s' ! j)) = Some q" for j q
      using ok(8) [of j q] ans [of j] r i by (cases "j = i"; cases "j < length ops") (auto simp: hist)
    ultimately show ?thesis by blast
  next
    case False
    then have hist: "history s' = history s" by (auto simp: session_step(1) split: option.splits)
    have same: "d' = committed s" "answer_of st' = answer_of st" using False next_ok by (cases "answer_of st"; auto)+
    then have "(j, q) \<in> set (history s') \<longleftrightarrow> j < length ops \<and> answer_of (snd (txs s' ! j)) = Some q" for j q
      using ok(8) [of j q] ans [of j] i by (cases "j = i"; cases "j < length ops") (auto simp: hist)
    with ok(6,7) same show ?thesis by (simp add: hist)
  qed
  show ?thesis
    unfolding sessions_ok_def txs'(2)
  proof (intro conjI allI impI)
    show "tx_pre S (ops ! j) d' (snd (txs s' ! j))" if "j < length ops" for j using pres [OF that] .
    show "locks_at S s' j \<inter> locks_at S s' k = {}" if "j < length ops" "k < length ops" "j \<noteq> k" for j k
      by (rule locks_stay_disjoint [OF assms(2) session_step(6) txs'(1) that])
  qed (use next_ok ids hist in blast)+
qed

lemma session_run_ok:
  assumes "session_run S is (begin_sessions d ops) s" "schema_ok d"
  shows "sessions_ok S ops d s"
  using assms
proof (induction "is" "begin_sessions d ops" s rule: session_run.induct)
  case run_none
  then show ?case by (rule begin_sessions_ok)
next
  case (run_more "is" s i s')
  then show ?case by (blast intro: session_step_ok)
qed

end

section \<open>No deadlock\<close>

text \<open>The statements a transaction has left, at most.\<close>

fun rank :: "tx_state \<Rightarrow> nat" where
  "rank Started = 4"
| "rank (Selected avail) = 3"
| "rank (Inserted row) = 2"
| "rank Conflicted = 2"
| "rank (Decremented row) = 1"
| "rank (Looked_up rid st) = 1"
| "rank (Marked r) = 2"
| "rank (Restocked r) = 1"
| "rank (Answering r) = 1"
| "rank (Finished r) = 0"

definition statements_left :: "sessions \<Rightarrow> nat" where
  "statements_left s = sum_list (map (\<lambda>(x, st). rank st) (txs s))"

lemma rank_attempt: "attempt_pre S e a ttl d st \<Longrightarrow> \<not> is_finished st \<Longrightarrow> rank (fst (attempt_next S e a ttl d st)) < rank st"
  by (cases st) (auto simp: commit_view_def split: option.split sum.split prod.split)

lemma rank_expire:
  assumes "expire_pre S e rid d st" "\<not> is_finished st"
  shows "rank (fst (expire_next S e rid d st)) < rank st"
proof (cases "st = Started \<and> (\<exists>p. update_expired S e rid d = Inr p)")
  case True
  then obtain itemID q d1 where upd: "update_expired S e rid d = Inr ((itemID, q), d1)" by (metis surj_pair)
  from update_expired_marks [OF this] True upd show ?thesis by (auto split: option.split)
next
  case False
  with assms show ?thesis
    by (cases st) (auto simp: commit_view_def split: option.split sum.split prod.split)
qed

lemma rank_tx: "tx_pre S x d st \<Longrightarrow> \<not> is_finished st \<Longrightarrow> rank (fst (tx_next S x d st)) < rank st"
  using rank_attempt rank_expire by (cases x) simp_all

lemma statements_left_update:
  "i < length rows \<Longrightarrow> sum_list (map (\<lambda>(x, st). rank st) (rows[i := (x, st')])) + rank (snd (rows ! i))
     = sum_list (map (\<lambda>(x, st). rank st) rows) + rank st'"
proof (induction rows arbitrary: i)
  case (Cons p rows)
  then show ?case by (cases i) (auto split: prod.split)
qed simp

lemma session_step_rank:
  assumes "session_step S i s s'" "sessions_ok S ops d s"
  shows "statements_left s' < statements_left s"
  using assms(1)
proof (cases rule: session_step.cases)
  case (session_step x st st' d')
  note ok = sessions_okD [OF assms(2)]
  have i: "i < length ops" "x = ops ! i" "snd (txs s ! i) = st"
    using session_step ok(1) ok(3) [of i] by auto
  have "rank (fst (tx_next S x (committed s) st)) < rank st"
    using rank_tx [OF _ session_step(4)] ok(4) [OF i(1)] i by simp
  with statements_left_update [OF session_step(2), of x st'] session_step(1,3,5) show ?thesis
    by (simp add: statements_left_def)
qed

text \<open>A statement that needs no lock of another transaction can run.\<close>

lemma session_stepI:
  assumes "sessions_ok S ops d s" "i < length ops" "snd (txs s ! i) = st" "\<not> is_finished st"
    and "\<And>j l. j < length ops \<Longrightarrow> j \<noteq> i \<Longrightarrow> l \<in> held_locks S (ops ! i) (fst (tx_next S (ops ! i) (committed s) st))
      \<Longrightarrow> l \<in> locks_at S s j \<Longrightarrow> False"
  shows "\<exists>s'. session_step S i s s'"
proof -
  note ok = sessions_okD [OF assms(1)]
  obtain st' d' where step: "tx_next S (ops ! i) (committed s) st = (st', d')" by (cases "tx_next S (ops ! i) (committed s) st")
  have "txs s ! i = (ops ! i, st)" using ok(3) [OF assms(2)] assms(3) by (simp add: prod_eq_iff)
  moreover have "held_locks S (ops ! i) st' \<inter> locks_of_others S i s = {}"
    using assms(5) step ok(1) unfolding locks_of_others_def by (fastforce simp: disjoint_iff)
  ultimately show ?thesis
    using session_step.session_step [of i s "ops ! i" st S st' d'] assms(2,4) ok(1) step by auto
qed

text \<open>Once its last lock is taken a transaction waits for nothing.\<close>

fun all_locked :: "tx_state \<Rightarrow> bool" where
  "all_locked Started = False"
| "all_locked (Selected avail) = False"
| "all_locked (Marked r) = False"
| "all_locked st = True"

lemma all_locked_keeps:
  "tx_pre S x d st \<Longrightarrow> all_locked st \<Longrightarrow> held_locks S x (fst (tx_next S x d st)) \<subseteq> held_locks S x st"
  by (cases x; cases st) (auto simp: commit_view_def split: option.split sum.split prod.split)

context uuid_io
begin

text \<open>
  A delivery that holds its item waits only for a reservation of its own identifier, which nobody but
  its writer has locked; an expiry that holds its reservation waits only for an item.
\<close>

lemma selected_steps:
  assumes "sessions_ok S ops d s" "j < length ops" "snd (txs s ! j) = Selected avail"
    and "\<And>k. k < length ops \<Longrightarrow> is_finished (snd (txs s ! k)) \<or> \<not> all_locked (snd (txs s ! k))"
  shows "\<exists>s'. session_step S j s s'"
proof (rule session_stepI [OF assms(1-3)])
  note ok = sessions_okD [OF assms(1)]
  obtain e a ttl where op: "ops ! j = Deliver e a ttl" using ok(4) [OF assms(2)] assms(3) by (cases "ops ! j") auto
  have mine: "ItemLock u \<in> locks_at S s j" if "uuid_in S (ItemID a) = Some u" for u
    using that ok(3) [OF assms(2)] by (simp add: op assms(3))
  fix k l
  assume k: "k < length ops" "k \<noteq> j" and l: "l \<in> locks_at S s k"
    and new: "l \<in> held_locks S (ops ! j) (fst (tx_next S (ops ! j) (committed s) (Selected avail)))"
  have apart: "locks_at S s j \<inter> locks_at S s k = {}" using ok(5) [OF assms(2) k(1)] k(2) by simp
  show False
  proof (cases "insert_stmt S e a ttl avail (committed s)")
    case (Inl er)
    with new mine l apart show False by (auto simp: op split: if_splits)
  next
    case (Inr p)
    obtain rid' st' d1 where p: "p = ((rid', st'), d1)" by (metis surj_pair)
    from own_row [OF Inr [unfolded p]] obtain row where
      row: "last (reservations d1) = row" "uuid_in S (ItemID a) = Some (res_item row)"
        "find_reservation (res_id row) (committed s) = None" by blast
    from new have "l = ItemLock (res_item row) \<or> l = ResLock (res_id row)"
      by (simp add: op Inr p row(1))
    moreover have "l \<noteq> ItemLock (res_item row)" using mine [OF row(2)] l apart by auto
    ultimately have "ResLock (res_id row) \<in> locks_at S s k" using l by simp
    with assms(4) [OF k(1)] ok(4) [OF k(1)] ok(3) [OF k(1)] row(3) show False
      by (cases "ops ! k"; cases "snd (txs s ! k)") (auto simp: marked_ok_def)
  qed
qed simp

lemma marked_steps:
  assumes "sessions_ok S ops d s" "j < length ops" "snd (txs s ! j) = Marked r"
    and "\<And>k. k < length ops \<Longrightarrow> is_finished (snd (txs s ! k)) \<or> snd (txs s ! k) = Started \<or> (\<exists>r. snd (txs s ! k) = Marked r)"
  shows "\<exists>s'. session_step S j s s'"
proof (rule session_stepI [OF assms(1-3)])
  note ok = sessions_okD [OF assms(1)]
  fix k l
  assume k: "k < length ops" "k \<noteq> j" and l: "l \<in> locks_at S s k"
    and new: "l \<in> held_locks S (ops ! j) (fst (tx_next S (ops ! j) (committed s) (Marked r)))"
  have apart: "locks_at S s j \<inter> locks_at S s k = {}" using ok(5) [OF assms(2) k(1)] k(2) by simp
  obtain e rid where op: "ops ! j = Expire e rid" using ok(4) [OF assms(2)] assms(3) by (cases "ops ! j") auto
  have "ResLock (res_id r) \<in> locks_at S s j" using ok(3) [OF assms(2)] by (simp add: op assms(3))
  moreover from new have "l = ResLock (res_id r) \<or> l = ItemLock (res_item r)"
    by (auto simp: op split: sum.splits)
  moreover have "\<exists>w. l = ResLock w"
    using assms(4) [OF k(1)] l by (cases "snd (txs s ! k)"; cases "fst (txs s ! k)") auto
  ultimately show False using apart l by auto
qed simp

lemma some_step:
  assumes "sessions_ok S ops d s" "i < length ops" "\<not> is_finished (snd (txs s ! i))"
  shows "\<exists>j s'. session_step S j s s'"
proof -
  note ok = sessions_okD [OF assms(1)]
  let ?st = "\<lambda>j. snd (txs s ! j)"
  consider (locked) j where "j < length ops" "\<not> is_finished (?st j)" "all_locked (?st j)"
    | (sel) j avail where "j < length ops" "?st j = Selected avail"
        "\<And>k. k < length ops \<Longrightarrow> is_finished (?st k) \<or> \<not> all_locked (?st k)"
    | (mark) j r where "j < length ops" "?st j = Marked r"
        "\<And>k. k < length ops \<Longrightarrow> is_finished (?st k) \<or> ?st k = Started \<or> (\<exists>r. ?st k = Marked r)"
    | (start) "\<And>k. k < length ops \<Longrightarrow> is_finished (?st k) \<or> ?st k = Started"
  proof -
    have "is_finished st \<or> all_locked st \<or> st = Started \<or> (\<exists>v. st = Selected v) \<or> (\<exists>r. st = Marked r)" for st
      by (cases st) auto
    then show thesis using locked sel mark start by metis
  qed
  then show ?thesis
  proof cases
    case (locked j)
    have "held_locks S (ops ! j) (fst (tx_next S (ops ! j) (committed s) (?st j))) \<subseteq> locks_at S s j"
      using all_locked_keeps [OF ok(4) [OF locked(1)] locked(3)] ok(3) [OF locked(1)] by simp
    with ok(5) [OF locked(1)] session_stepI [OF assms(1) locked(1) refl locked(2)] show ?thesis by blast
  next
    case (sel j avail)
    have "\<exists>s'. session_step S j s s'" by (rule selected_steps [OF assms(1) sel(1,2)]) (rule sel(3))
    then show ?thesis ..
  next
    case (mark j r)
    have "\<exists>s'. session_step S j s s'" by (rule marked_steps [OF assms(1) mark(1,2)]) (rule mark(3))
    then show ?thesis ..
  next
    case start
    have "?st i = Started" using start [OF assms(2)] assms(3) by blast
    moreover have "locks_at S s k = {}" if "k < length ops" for k
      using start [OF that] by (cases "?st k"; cases "fst (txs s ! k)") auto
    ultimately show ?thesis using session_stepI [OF assms(1,2)] by (metis emptyE is_finished.simps(2))
  qed
qed

end

lemma session_run_rank:
  assumes "uuid_io S" "session_run S is (begin_sessions d ops) s" "schema_ok d"
  shows "length is + statements_left s \<le> 4 * length ops"
  using assms(2,3)
proof (induction "is" "begin_sessions d ops" s rule: session_run.induct)
  case run_none
  show ?case by (simp add: statements_left_def begin_sessions_def comp_def sum_list_triv)
next
  case (run_more "is" s i s')
  from uuid_io.session_run_ok [OF assms(1) run_more(1,4)] session_step_rank [OF run_more(3)] run_more
  show ?case by fastforce
qed

section \<open>Properties\<close>

text \<open>
  C3.  The lock makes the transactions atomic.  However the statements of any number of concurrent
  deliveries and expiries are interleaved, with any faults, the committed tables are those of running the
  calls that took effect one after the other in the order of \<open>history\<close>, each with exactly the result it
  returned, each at most once; so what holds of a sale of atomic calls holds of the concurrent one.
\<close>

theorem interleaving_is_serial:
  assumes "uuid_io S" "schema_ok d" "session_run S is (begin_sessions d ops) s"
  shows "one_by_one S ops (history s) d (committed s) \<and> distinct (map fst (history s))
    \<and> (\<forall>i r. i < length ops \<and> snd (txs s ! i) = Finished r \<longrightarrow> (i, r) \<in> set (history s))
    \<and> committed s = run_sale S (map (\<lambda>(i, r). ops ! i) (history s)) d"
proof -
  note ok = sessions_okD [OF uuid_io.session_run_ok [OF assms(1,3,2)]]
  have "(i, r) \<in> set (history s)" if "i < length ops" "snd (txs s ! i) = Finished r" for i r
    using ok(8) [of i r] that by simp
  with ok(6,7) one_by_one_sale [OF ok(6)] show ?thesis by blast
qed

text \<open>A replayed delivery runs between the two statements of the expiry of the same reservation.\<close>

definition demo_calls :: "sale_op list" where
  "demo_calls = [Deliver demo_env demo_attempt 120, Expire (exp_env 2000) (uuid_out canonical_server 100)]"

lemma locks_of_others_list:
  "locks_of_others S i s = \<Union> (set (map (locks_at S s) (filter (\<lambda>j. j \<noteq> i) [0..<length (txs s)])))"
  by (auto simp: locks_of_others_def)

lemma session_run_Cons:
  assumes "session_run S is s' s''" "session_step S i s s'"
  shows "session_run S (i # is) s s''"
  using assms
proof (induction rule: session_run.induct)
  case (run_none s')
  from session_run.run_more [OF session_run.run_none run_none] show ?case by simp
next
  case (run_more "is" s' t j t')
  from session_run.run_more [OF run_more(3) [OF run_more(4)] run_more(2)] show ?case by simp
qed

definition demo_sessions :: "db \<Rightarrow> tx_state \<Rightarrow> tx_state \<Rightarrow> (nat \<times> tx_result) list \<Rightarrow> sessions" where
  "demo_sessions d st0 st1 h =
     \<lparr> committed = d, txs = [(demo_calls ! 0, st0), (demo_calls ! 1, st1)], history = h \<rparr>"

definition demo_replay :: tx_result where
  "demo_replay = AttemptResult (Inr \<lparr> ReservationID = uuid_out canonical_server 100, Status = Reserved, Replayed = True \<rparr>)"

lemma demo_replay_steps:
  "tx_next canonical_server (demo_calls ! 0) exp_db Started = (Selected 5, exp_db)"
  "tx_next canonical_server (demo_calls ! 0) exp_db (Selected 5) = (Conflicted, exp_db)"
  "tx_next canonical_server (demo_calls ! 0) exp_db Conflicted = (Looked_up 100 Reserved, exp_db)"
  "tx_next canonical_server (demo_calls ! 0) exp_db (Looked_up 100 Reserved) = (Finished demo_replay, exp_db)"
  by (simp_all add: demo_calls_def demo_attempt_def demo_env_def sql_defs canonical.uuid_in_out exp_defs res_index_def
      int4_def ErrNoRows_def commit_view_def demo_replay_def)

lemma demo_expiry_steps:
  "tx_next canonical_server (demo_calls ! 1) exp_db Started = (Marked exp_reserved, exp_db)"
  "tx_next canonical_server (demo_calls ! 1) exp_db (Marked exp_reserved) = (Restocked exp_reserved, exp_db)"
  "\<exists>r d. tx_next canonical_server (demo_calls ! 1) exp_db (Restocked exp_reserved) = (Finished r, d)"
  by (simp_all add: demo_calls_def sql_defs canonical.uuid_in_out exp_defs lapsed_def mark_expired_def
      int4_def commit_view_def)

lemma demo_step:
  assumes "i < 2" "tx_next canonical_server (demo_calls ! i) d (if i = 0 then st0 else st1) = (st', d')"
    and "\<not> is_finished (if i = 0 then st0 else st1)"
    and "held_locks canonical_server (demo_calls ! i) st' \<inter>
      held_locks canonical_server (demo_calls ! (1 - i)) (if i = 0 then st1 else st0) = {}"
  shows "session_step canonical_server i (demo_sessions d st0 st1 h)
    (demo_sessions d' (if i = 0 then st' else st0) (if i = 0 then st1 else st')
       (h @ (case (answer_of (if i = 0 then st0 else st1), answer_of st') of (None, Some r) \<Rightarrow> [(i, r)] | _ \<Rightarrow> [])))"
proof -
  consider "i = 0" | "i = 1" using assms(1) by linarith
  then show ?thesis
    using session_step.session_step [of i "demo_sessions d st0 st1 h" "demo_calls ! i" "if i = 0 then st0 else st1" canonical_server st' d'] assms
    by cases (simp_all add: demo_sessions_def locks_of_others_list)
qed

lemma demo_interleaving:
  "\<exists>s. session_run canonical_server [1, 0, 0, 0, 0, 1, 1] (begin_sessions exp_db demo_calls) s
     \<and> snd (txs s ! 0) = Finished demo_replay \<and> map fst (history s) = [0, 1]"
proof -
  obtain r d where last: "tx_next canonical_server (demo_calls ! 1) exp_db (Restocked exp_reserved) = (Finished r, d)"
    using demo_expiry_steps(3) by blast
  let ?D = "demo_sessions exp_db" and ?m = "Marked exp_reserved" and ?h = "[(0, demo_replay)]"
  note step = demo_step [where d = exp_db]
  note locks = demo_calls_def demo_attempt_def canonical.uuid_in_out exp_reserved_def demo_replay_def
  have "session_step canonical_server 1 (?D Started Started []) (?D Started ?m [])"
    using step [of 1 Started Started ?m exp_db "[]"] demo_expiry_steps(1) by (simp add: locks)
  moreover have "session_step canonical_server 0 (?D Started ?m []) (?D (Selected 5) ?m [])"
    using step [of 0 Started ?m "Selected 5" exp_db "[]"] demo_replay_steps(1) by (simp add: locks)
  moreover have "session_step canonical_server 0 (?D (Selected 5) ?m []) (?D Conflicted ?m [])"
    using step [of 0 "Selected 5" ?m Conflicted exp_db "[]"] demo_replay_steps(2) by (simp add: locks)
  moreover have "session_step canonical_server 0 (?D Conflicted ?m []) (?D (Looked_up 100 Reserved) ?m [])"
    using step [of 0 Conflicted ?m "Looked_up 100 Reserved" exp_db "[]"] demo_replay_steps(3) by (simp add: locks)
  moreover have "session_step canonical_server 0 (?D (Looked_up 100 Reserved) ?m []) (?D (Finished demo_replay) ?m ?h)"
    using step [of 0 "Looked_up 100 Reserved" ?m "Finished demo_replay" exp_db "[]"] demo_replay_steps(4) by (simp add: locks)
  moreover have "session_step canonical_server 1 (?D (Finished demo_replay) ?m ?h) (?D (Finished demo_replay) (Restocked exp_reserved) ?h)"
    using step [of 1 "Finished demo_replay" ?m "Restocked exp_reserved" exp_db ?h] demo_expiry_steps(2) by (simp add: locks)
  moreover have "session_step canonical_server 1 (?D (Finished demo_replay) (Restocked exp_reserved) ?h)
      (demo_sessions d (Finished demo_replay) (Finished r) [(0, demo_replay), (1, r)])"
    using step [of 1 "Finished demo_replay" "Restocked exp_reserved" "Finished r" d ?h] last by (simp add: locks)
  ultimately have "session_run canonical_server [1, 0, 0, 0, 0, 1, 1] (?D Started Started [])
      (demo_sessions d (Finished demo_replay) (Finished r) [(0, demo_replay), (1, r)])"
    by (blast intro: session_run_Cons run_none)
  moreover have "begin_sessions exp_db demo_calls = ?D Started Started []"
    by (simp add: begin_sessions_def demo_sessions_def demo_calls_def)
  ultimately show ?thesis by (auto simp: demo_sessions_def)
qed

theorem interleaving_is_serial_witness:
  "\<exists>s. session_run canonical_server [1, 0, 0, 0, 0, 1, 1] (begin_sessions exp_db demo_calls) s
    \<and> map fst (history s) = [0, 1] \<and> one_by_one canonical_server demo_calls (history s) exp_db (committed s)
    \<and> (0, demo_replay) \<in> set (history s)"
proof -
  obtain s where run: "session_run canonical_server [1, 0, 0, 0, 0, 1, 1] (begin_sessions exp_db demo_calls) s"
    "snd (txs s ! 0) = Finished demo_replay" "map fst (history s) = [0, 1]"
    using demo_interleaving by (elim exE conjE)
  have "0 < length demo_calls" by (simp add: demo_calls_def)
  note serial = interleaving_is_serial [OF canonical.uuid_io_axioms exp_facts(1) run(1)]
  have "(0, demo_replay) \<in> set (history s)" using serial run(2) \<open>0 < length demo_calls\<close> by blast
  moreover have "one_by_one canonical_server demo_calls (history s) exp_db (committed s)" using serial by (elim conjE)
  ultimately show ?thesis using run(1,3) by (intro exI [of _ s] conjI)
qed



end
