(* ===== verification/Spec2Isabelle.thy ===== *)
theory Spec2Isabelle
  imports Responses Pipeline ExpiryMain Interleaving
begin

text \<open>
  \<^bold>\<open>The program.\<close>  A flash sale in four Go services.  \<open>waiting-room-api\<close> lets buyers in one per tick and
  item, first come first served, and writes each admitted buyer a token into Redis.  \<open>checkout-api\<close>
  consumes the token, takes the quantity from a counter in Redis (a copy of the stock), and publishes
  the attempt to Kafka under a fresh idempotency key.  \<open>decision-service\<close> consumes the attempts and
  decides each one in a Postgres transaction, the only authority on the stock.  \<open>expiry-worker\<close> returns
  the units of reservations that were not completed in time.  \<open>checkout-api\<close> also reads the stock from
  Postgres and overwrites the counters, at startup, on a schedule and on demand.

  \<^bold>\<open>Reading order: theory, source, contents.\<close>

  \<^item> \<open>Prelude\<close>, \<open>GoLib\<close>: named collections, results \<open>error + 'a\<close>; Go errors with their wrapping chain,
    contexts, \<open>time.Duration\<close> in nanoseconds with its \<open>int64\<close> wrap-around, \<open>strconv\<close>, \<open>strings\<close>, panics.
  \<^item> \<open>Uuid\<close>, \<open>Postgres\<close> (\<open>migrations/000002\<close>, \<open>000003\<close> and the SQL texts in the Go files): rows of
    \<open>items\<close> and \<open>reservations\<close>, their constraints, one definition per statement.
  \<^item> \<open>Decision\<close> (\<open>internal/decision/processor.go\<close>): \<open>ProcessAttempt\<close> with a fault at every statement.
    Locale \<open>ledger\<close>: what any operation on the tables keeps; locale of the server's UUID conversion.
    The abstract contract is \<open>decide\<close> on a \<open>shop\<close>; \<open>ProcessAttempt_refines_decide\<close> is the refinement.
  \<^item> \<open>Expiry\<close> (\<open>internal/expiry/processor.go\<close>), \<open>Sale\<close>: the scan and the compensating transaction;
    histories of both services' transactions, over which nothing is oversold and nothing is lost.
  \<^item> \<open>Interleaving\<close>: the same two transactions one SQL statement at a time under the row locks
    Postgres takes, any number of sessions: every interleaving has the effect of the calls made one
    after another in commit order, and none deadlocks.
  \<^item> \<open>Retry\<close> (\<open>internal/retry/policy.go\<close>), \<open>Keys\<close> (\<open>internal/redisx/keys.go\<close>), \<open>EnvConfig\<close>
    (\<open>internal/config/env.go\<close>, the configuration part of each \<open>main\<close>, \<open>redisx/client.go\<close>,
    \<open>pgdb/pgdb.go\<close>).
  \<^item> \<open>World\<close>, \<open>MemWorld\<close>: the services outside the repository as a record of functions \<open>services\<close> and
    the locales with their documented laws (key store, broker, database, clock, random source); an
    instance in memory with scripts of faults, which shows that the laws hold together and on which the
    witnesses run.
  \<^item> \<open>RedisX\<close> (\<open>internal/redisx\<close>: tokens, inventory, queue depth, risk scores), \<open>KafkaX\<close>
    (\<open>internal/kafkax\<close>), \<open>Reconcile\<close> (\<open>internal/reconcile\<close>), \<open>Httpx\<close> (\<open>internal/httpx/json.go\<close>).
  \<^item> \<open>CheckoutApi\<close> (\<open>cmd/checkout-api/main.go\<close>): the handlers, the compensation, the reconciler;
    \<open>Frames\<close>: what these programs leave alone.
  \<^item> \<open>DecisionService\<close> (\<open>cmd/decision-service/main.go\<close>): classification of an outcome, the retry loop of
    one message, dead letters, the consume loop.
  \<^item> \<open>Admission\<close>, \<open>Registry\<close> (\<open>internal/admission\<close>): the loop that owns a queue, its callers and their
    interleaving as a step relation; one such line per item.
  \<^item> \<open>WaitingRoom\<close> (\<open>cmd/waiting-room-api/main.go\<close>): the handlers over the registry and Redis, the
    publishing goroutine.
  \<^item> \<open>ExpiryWorker\<close> (\<open>cmd/expiry-worker/main.go\<close>): scanner, channel and worker pool, interleaved with
    the rest of the sale.
  \<^item> \<open>Server\<close>: runs of a process, deferred calls, \<open>http.Server\<close> with its requests in flight, health
    endpoints.  \<open>CheckoutMain\<close>, \<open>WaitingRoomMain\<close>, \<open>ExpiryMain\<close>, \<open>DecisionMain\<close>: \<open>main\<close> and the other
    goroutines of each service, from connecting to the last deferred call.
  \<^item> \<open>GoTime\<close>, \<open>JsonText\<close>, \<open>JsonValid\<close>: what the program uses of \<open>time\<close> and \<open>encoding/json\<close>, on bytes:
    calendar and RFC 3339 texts, quoting, the scanner and its grammar, structs; unquoting undoes quoting,
    parsing a time undoes printing it, and decoded texts are valid UTF-8.  On these, \<open>JsonEvents\<close>: the
    codec \<open>go_json\<close> of the events; \<open>JsonRequests\<close>, \<open>JsonResponses\<close>: the bodies of requests and responses.
  \<^item> \<open>Responses\<close>: the shape of every HTTP answer, down to the bytes of its body.  \<open>Pipeline\<close>: a checkout,
    from the bytes of its request, and the consumer of its attempt, joined by the topic.

  \<^bold>\<open>How state and operations correspond.\<close>  Code that talks to another service takes the record \<open>services\<close>
  and a state \<open>'w\<close> of the outside world and returns the result and the new state; a failing call is a
  value of \<open>goerr + 'a\<close>.  Transactions work on the \<open>tables\<close> of that state.  Goroutines are steps of an
  inductive relation or of an executable step function, one step per channel operation, statement or
  call, and a run is any sequence of such steps.  Each HTTP handler is a function from the request to
  the response and the new world; in the processes it is one step, or two when it waits in a line, and the
  request carries the bytes of its body, which \<open>decode_checkout\<close> and \<open>decode_join\<close> read.

  \<^bold>\<open>What the lemmas show.\<close>  Stock: no sequence of deliveries, redeliveries and expiries oversells, each
  idempotency key is decided once and each reservation released once (\<open>Decision\<close>, \<open>Expiry\<close>, \<open>Sale\<close>,
  \<open>Interleaving\<close>).  Fast path: the counter is never oversold, a token is consumed once, a refused
  checkout gives back what it took unless the undo itself fails (\<open>RedisX\<close>, \<open>CheckoutApi\<close>), and a seeded
  item is never reported unknown (\<open>CheckoutMain\<close>).  Delivery: a consumed message is decided or a dead
  letter was sent for a stated cause, its processing ends once the outage ends (\<open>DecisionService\<close>),
  every committed offset is accounted for (\<open>DecisionMain\<close>), and so is what a buyer was promised
  (\<open>Pipeline\<close>).  Waiting room: order, rate, bounded wait, independence of the items, a token the
  checkout accepts, and no event lost on a clean exit (\<open>Admission\<close>, \<open>Registry\<close>, \<open>WaitingRoom\<close>,
  \<open>WaitingRoomMain\<close>).  Worker pool: no job is lost, each is processed, the pool drains, and the process
  waits for it (\<open>ExpiryWorker\<close>, \<open>ExpiryMain\<close>).

  JSON: a published event is read back from the bytes of its message as it was written (\<open>JsonEvents\<close>).
  The operations take the codec as a parameter; what holds for every codec is stated so, and what needs the
  texts is stated for \<open>go_json\<close>.

  \<^bold>\<open>Bounds and fuel.\<close>  Durations and counters that the code keeps in \<open>int64\<close> are integers with the
  range or the wrap-around (\<open>wrap64\<close>) written out where overflow matters; the backoff is proved not to
  overflow.  No definition carries fuel: \<open>process_loop\<close> and \<open>runConsumeLoop\<close> are partial functions whose
  value \<open>None\<close> is not returning, and \<open>consume_message_returns\<close> shows that the loop of a message does
  return when the outages of the connection end.  Steps of the pool and of the interleaved transactions
  are bounded by measures.

  \<^bold>\<open>Not modelled.\<close>  The drivers (\<open>go-redis\<close>, \<open>lib/pq\<close>, \<open>kafka-go\<close>), Redis, Postgres and Kafka, of which
  the documented effect of each call used is an assumption of the locales of \<open>World\<close>; the text of log
  lines and of the decoder's errors; the timeouts of \<open>http.Server\<close>; the floating-point texts of the risk
  scores, which are a parameter; the Python \<open>risk-service\<close>; the tables and columns that no Go code
  touches.  Isolation below the statement level of Postgres other than row locks and the unique index is
  outside the model.
\<close>

end
